(* ===== verification/Prelude.thy ===== *)
theory Prelude
  imports Main "HOL-Library.Signed_Division"
begin

text \<open>
  Shared vocabulary of the development: the integer arithmetic the Rust sources use
  (saturating, checked, truncating division), loops that stop at the first error, and
  the first-match lookup and update that every \<open>Vec\<close> of records in the sources goes
  through.  The lemmas are collected in \<open>sat_simps\<close> (saturating arithmetic) and in the
  simpset, so that the component proofs rarely unfold these definitions.
\<close>

named_theorems sat_simps \<open>unfolding and bounds of saturating machine arithmetic\<close>

section \<open>Machine integers\<close>

text \<open>
  An \<open>i64\<close> is an \<open>int\<close> and an unsigned integer is a \<open>nat\<close>; the width is written out in
  the operations.  \<open>saturating_add\<close> and its kin clamp, \<open>checked\<close> operations return
  \<open>None\<close>, and the plain operators of the sources, which are compiled with
  \<open>overflow-checks = true\<close>, are the checked ones (\<open>None\<close> is the panic).
\<close>

type_synonym i64 = int
type_synonym u32 = nat
type_synonym u64 = nat

definition i64_min :: int where "i64_min = - 9223372036854775808"
definition i64_max :: int where "i64_max = 9223372036854775807"
definition u32_max :: nat where "u32_max = 4294967295"

definition in_i64 :: "int \<Rightarrow> bool" where
  "in_i64 x \<longleftrightarrow> i64_min \<le> x \<and> x \<le> i64_max"

definition sat_i64 :: "int \<Rightarrow> int" where
  "sat_i64 x = max i64_min (min i64_max x)"

definition sat_add :: "i64 \<Rightarrow> i64 \<Rightarrow> i64" where
  "sat_add a b = sat_i64 (a + b)"

definition sat_sub :: "i64 \<Rightarrow> i64 \<Rightarrow> i64" where
  "sat_sub a b = sat_i64 (a - b)"

definition sat_mul :: "i64 \<Rightarrow> i64 \<Rightarrow> i64" where
  "sat_mul a b = sat_i64 (a * b)"

definition add_i64 :: "i64 \<Rightarrow> i64 \<Rightarrow> i64 option" where
  "add_i64 a b = (if in_i64 (a + b) then Some (a + b) else None)"

definition sat_add_u32 :: "u32 \<Rightarrow> u32 \<Rightarrow> u32" where
  "sat_add_u32 a b = min u32_max (a + b)"

definition sat_mul_u32 :: "u32 \<Rightarrow> u32 \<Rightarrow> u32" where
  "sat_mul_u32 a b = min u32_max (a * b)"

lemmas sat_defs =
  i64_min_def i64_max_def u32_max_def in_i64_def sat_i64_def
  sat_add_def sat_sub_def sat_mul_def add_i64_def sat_add_u32_def sat_mul_u32_def

lemma sat_i64_range [simp]: "in_i64 (sat_i64 x)"
  by (simp add: sat_defs)

lemma sat_i64_id [sat_simps]: "in_i64 x \<Longrightarrow> sat_i64 x = x"
  by (simp add: sat_defs)

lemma sat_i64_mono: "x \<le> y \<Longrightarrow> sat_i64 x \<le> sat_i64 y"
  by (auto simp: sat_defs)

lemma sat_add_mono: "a \<le> a' \<Longrightarrow> b \<le> b' \<Longrightarrow> sat_add a b \<le> sat_add a' b'"
  by (auto simp: sat_add_def intro!: sat_i64_mono)

lemma sat_add_ge: "in_i64 a \<Longrightarrow> 0 \<le> b \<Longrightarrow> a \<le> sat_add a b"
  by (auto simp: sat_defs)

lemma sat_add_gt: "in_i64 a \<Longrightarrow> a < i64_max \<Longrightarrow> 0 < b \<Longrightarrow> a < sat_add a b"
  by (auto simp: sat_defs)

lemma sat_add_u32_ge [simp]: "a \<le> u32_max \<Longrightarrow> a \<le> sat_add_u32 a b"
  by (simp add: sat_defs)

section \<open>Results and loops\<close>

text \<open>
  A Rust \<open>Result<T, E>\<close> is a value of \<open>'e + 'a\<close>, \<open>Inl\<close> the error.  A \<open>for\<close> loop whose
  body ends in \<open>?\<close> is \<open>try_fold\<close> over the loop's state; a loop that only checks is
  \<open>try_each\<close>.
\<close>

type_synonym ('e, 'a) result = "'e + 'a"

definition is_ok :: "('e, 'a) result \<Rightarrow> bool" where
  "is_ok r \<longleftrightarrow> (case r of Inl _ \<Rightarrow> False | Inr _ \<Rightarrow> True)"

fun map_err :: "('e \<Rightarrow> 'f) \<Rightarrow> ('e, 'a) result \<Rightarrow> ('f, 'a) result" where
  "map_err f (Inl e) = Inl (f e)"
| "map_err f (Inr a) = Inr a"

fun result_ok :: "('e, 'a) result \<Rightarrow> 'a option" where
  "result_ok (Inl e) = None"
| "result_ok (Inr a) = Some a"

fun try_fold :: "('s \<Rightarrow> 'x \<Rightarrow> ('e, 's) result) \<Rightarrow> 's \<Rightarrow> 'x list \<Rightarrow> ('e, 's) result" where
  "try_fold f s [] = Inr s"
| "try_fold f s (x # xs) = (case f s x of Inl e \<Rightarrow> Inl e | Inr s' \<Rightarrow> try_fold f s' xs)"

fun try_each :: "('x \<Rightarrow> ('e, unit) result) \<Rightarrow> 'x list \<Rightarrow> ('e, unit) result" where
  "try_each f [] = Inr ()"
| "try_each f (x # xs) = (case f x of Inl e \<Rightarrow> Inl e | Inr _ \<Rightarrow> try_each f xs)"

text \<open>Statements of a body that only check, run one after the other.\<close>

fun and_then :: "('e, unit) result \<Rightarrow> ('e, 'a) result \<Rightarrow> ('e, 'a) result" where
  "and_then (Inl e) r = Inl e"
| "and_then (Inr u) r = r"

lemma and_then_Inr_iff [simp]: "and_then c r = Inr a \<longleftrightarrow> c = Inr () \<and> r = Inr a"
  by (cases c) auto

lemma is_ok_simps [simp]: "is_ok (Inr a)" "\<not> is_ok (Inl e)"
  by (simp_all add: is_ok_def)

lemma is_ok_iff: "is_ok r \<longleftrightarrow> (\<exists>a. r = Inr a)"
  by (cases r) auto

lemma is_ok_unit: "is_ok r \<longleftrightarrow> r = Inr ()"
  by (cases r) auto

lemma is_ok_case:
  "is_ok (case r of Inl e \<Rightarrow> Inl (h e) | Inr a \<Rightarrow> k a) \<longleftrightarrow> is_ok r \<and> (\<forall>a. r = Inr a \<longrightarrow> is_ok (k a))"
  by (cases r) auto

lemma map_err_Inr_iff [simp]: "map_err f r = Inr a \<longleftrightarrow> r = Inr a"
  by (cases r) auto

lemma result_ok_Some_iff [simp]: "result_ok r = Some a \<longleftrightarrow> r = Inr a"
  by (cases r) auto

lemma try_each_Inr_iff: "try_each f xs = Inr u \<longleftrightarrow> (\<forall>x \<in> set xs. f x = Inr ())"
  by (induction xs) (auto split: sum.splits)

lemma try_fold_append:
  "try_fold f s (xs @ ys) = (case try_fold f s xs of Inl e \<Rightarrow> Inl e | Inr t \<Rightarrow> try_fold f t ys)"
  by (induction xs arbitrary: s) (auto split: sum.splits)

text \<open>A loop keeps what every iteration keeps, and succeeds when every iteration does.\<close>

lemma try_fold_inv:
  assumes "try_fold f s xs = Inr t" and "P s"
    and "\<And>s x t. x \<in> set xs \<Longrightarrow> P s \<Longrightarrow> f s x = Inr t \<Longrightarrow> P t"
  shows "P t"
  using assms
proof (induction xs arbitrary: s)
  case Nil
  then show ?case by simp
next
  case (Cons x xs)
  from Cons.prems(1) obtain s' where step: "f s x = Inr s'" and rest: "try_fold f s' xs = Inr t"
    by (auto split: sum.splits)
  have "P s'" using Cons.prems(2,3) step by auto
  from rest this show ?case by (rule Cons.IH) (use Cons.prems(3) in auto)
qed

lemma try_fold_ok:
  assumes "\<And>s x. x \<in> set xs \<Longrightarrow> is_ok (f s x)"
  shows "is_ok (try_fold f s xs)"
  using assms
proof (induction xs arbitrary: s)
  case Nil
  then show ?case by simp
next
  case (Cons x xs)
  from Cons.prems [of x s] obtain s' where "f s x = Inr s'" by (auto simp: is_ok_iff)
  with Cons show ?case by simp
qed

section \<open>First match in a list of records\<close>

text \<open>
  \<open>iter().find(p)\<close> is \<open>List.find\<close>; \<open>iter_mut().find(p)\<close> followed by a mutation of the
  found record is \<open>update_first\<close>.
\<close>

fun update_first :: "('a \<Rightarrow> bool) \<Rightarrow> ('a \<Rightarrow> 'a) \<Rightarrow> 'a list \<Rightarrow> 'a list" where
  "update_first p f [] = []"
| "update_first p f (x # xs) = (if p x then f x # xs else x # update_first p f xs)"

lemma length_update_first [simp]: "length (update_first p f xs) = length xs"
  by (induction xs) auto

lemma update_first_None: "find p xs = None \<Longrightarrow> update_first p f xs = xs"
  by (induction xs) (auto split: if_splits)

lemma find_SomeD: "find p xs = Some x \<Longrightarrow> x \<in> set xs \<and> p x"
  by (induction xs) (auto split: if_splits)

lemma find_update_first_same:
  assumes "\<And>x. p (f x) = p x"
  shows "find p (update_first p f xs) = map_option f (find p xs)"
  using assms by (induction xs) auto

lemma find_update_first_other:
  assumes "\<And>x. p x \<Longrightarrow> \<not> q x \<and> \<not> q (f x)"
  shows "find q (update_first p f xs) = find q xs"
  using assms by (induction xs) auto

lemma map_update_first_id:
  assumes "\<And>x. g (f x) = g x"
  shows "map g (update_first p f xs) = map g xs"
  using assms by (induction xs) auto

lemma update_first_nth:
  assumes "i < length xs"
  shows "update_first p f xs ! i = xs ! i \<or> (p (xs ! i) \<and> update_first p f xs ! i = f (xs ! i))"
  using assms by (induction xs arbitrary: i) (auto simp: nth_Cons split: nat.splits)

text \<open>The updated record sits exactly where the search found it.\<close>

lemma update_first_split:
  assumes "find p xs = Some x"
  obtains ys zs where "xs = ys @ x # zs" "p x" "\<forall>y \<in> set ys. \<not> p y"
    and "\<And>f. update_first p f xs = ys @ f x # zs"
proof -
  have "\<exists>ys zs. xs = ys @ x # zs \<and> p x \<and> (\<forall>y \<in> set ys. \<not> p y)
      \<and> (\<forall>f. update_first p f xs = ys @ f x # zs)"
    using assms
  proof (induction xs)
    case Nil
    then show ?case by simp
  next
    case (Cons a xs)
    show ?case
    proof (cases "p a")
      case True
      with Cons.prems have "a = x" by simp
      with True show ?thesis by (intro exI [of _ "[]"] exI [of _ xs]) simp
    next
      case False
      with Cons obtain ys zs where "xs = ys @ x # zs" "p x" "\<forall>y \<in> set ys. \<not> p y"
        and "\<And>f. update_first p f xs = ys @ f x # zs"
        by auto
      with False show ?thesis by (intro exI [of _ "a # ys"] exI [of _ zs]) simp
    qed
  qed
  then show thesis using that by blast
qed

section \<open>Formatting\<close>

text \<open>The \<open>Display\<close> form of integers and the separators of \<open>join\<close>.\<close>

definition digit :: "nat \<Rightarrow> char" where
  "digit n = ''0123456789'' ! n"

fun show_nat :: "nat \<Rightarrow> string" where
  "show_nat n = (if n < 10 then [digit n] else show_nat (n div 10) @ [digit (n mod 10)])"

declare show_nat.simps [simp del]

definition show_int :: "int \<Rightarrow> string" where
  "show_int i = (if i < 0 then ''-'' @ show_nat (nat (- i)) else show_nat (nat i))"

fun join :: "string \<Rightarrow> string list \<Rightarrow> string" where
  "join sep [] = []"
| "join sep [x] = x"
| "join sep (x # y # ys) = x @ sep @ join sep (y # ys)"

lemma digit_inject: "m < 10 \<Longrightarrow> n < 10 \<Longrightarrow> digit m = digit n \<longleftrightarrow> m = n"
  by (auto simp: digit_def nth_Cons' split: if_splits)

lemma show_nat_nonempty [simp]: "show_nat n \<noteq> []"
  by (subst show_nat.simps) simp

lemma show_nat_parts:
  "butlast (show_nat n) = (if n < 10 then [] else show_nat (n div 10))"
  "last (show_nat n) = digit (n mod 10)"
  by (simp_all add: show_nat.simps [of n])

text \<open>The decimal form determines the number.\<close>

lemma show_nat_inject [simp]: "show_nat m = show_nat n \<longleftrightarrow> m = n"
proof
  show "show_nat m = show_nat n \<Longrightarrow> m = n"
  proof (induction m arbitrary: n rule: less_induct)
    case (less m)
    have last: "m mod 10 = n mod 10"
      using less.prems digit_inject [of "m mod 10" "n mod 10"]
      by (metis mod_less_divisor show_nat_parts(2) zero_less_numeral)
    have init: "(if m < 10 then [] else show_nat (m div 10)) = (if n < 10 then [] else show_nat (n div 10))"
      using less.prems by (metis show_nat_parts(1))
    show ?case
    proof (cases "m < 10")
      case True
      with init have "n < 10" by (metis show_nat_nonempty)
      with True last show ?thesis by simp
    next
      case False
      with init have "\<not> n < 10" and "show_nat (m div 10) = show_nat (n div 10)"
        by (auto split: if_splits)
      with False less.IH [of "m div 10" "n div 10"] have "m div 10 = n div 10" by simp
      with last show ?thesis by (metis mod_div_mult_eq)
    qed
  qed
qed simp

end
