(* ===== verification/Ordered.thy ===== *)
theory Ordered
  imports Prelude "HOL-Library.List_Lexorder" "HOL-Library.Char_ord"
begin

text \<open>
  The ordered collections of the Rust standard library that the sources rely on for
  reproducible signatures.  A \<open>BTreeSet<String>\<close> is the strictly ascending list of its
  elements and a \<open>BTreeMap<String, V>\<close> the strictly ascending association list of its
  entries, which is the order their iterators yield.  The locales \<open>ordered_set\<close> and
  \<open>ordered_map\<close> state the contract clients use; the interpretations \<open>bset\<close> and \<open>bmap\<close>
  discharge it for the list operations.
\<close>

type_synonym 'a bset = "'a list"
type_synonym ('k, 'v) bmap = "('k \<times> 'v) list"

section \<open>Operations\<close>

fun bset_insert :: "'a::linorder \<Rightarrow> 'a bset \<Rightarrow> 'a bset" where
  "bset_insert x [] = [x]"
| "bset_insert x (y # ys) =
     (if x < y then x # y # ys else if x = y then y # ys else y # bset_insert x ys)"

definition bset_remove :: "'a::linorder \<Rightarrow> 'a bset \<Rightarrow> 'a bset" where
  "bset_remove x s = filter (\<lambda>y. y \<noteq> x) s"

definition bset_of_list :: "'a::linorder list \<Rightarrow> 'a bset" where
  "bset_of_list xs = fold bset_insert xs []"

fun bmap_insert :: "'k::linorder \<Rightarrow> 'v \<Rightarrow> ('k, 'v) bmap \<Rightarrow> ('k, 'v) bmap" where
  "bmap_insert k v [] = [(k, v)]"
| "bmap_insert k v ((l, w) # m) =
     (if k < l then (k, v) # (l, w) # m
      else if k = l then (k, v) # m
      else (l, w) # bmap_insert k v m)"

definition bmap_get :: "('k, 'v) bmap \<Rightarrow> 'k \<Rightarrow> 'v option" where
  "bmap_get m k = map_of m k"

definition bmap_keys :: "('k, 'v) bmap \<Rightarrow> 'k list" where
  "bmap_keys m = map fst m"

definition bset_wf :: "'a::linorder bset \<Rightarrow> bool" where
  "bset_wf s \<longleftrightarrow> sorted_wrt (<) s"

definition bmap_wf :: "('k::linorder, 'v) bmap \<Rightarrow> bool" where
  "bmap_wf m \<longleftrightarrow> sorted_wrt (<) (map fst m)"

section \<open>The contracts\<close>

locale ordered_set =
  fixes empty :: "'s"
    and ins :: "'a::linorder \<Rightarrow> 's \<Rightarrow> 's"
    and del :: "'a \<Rightarrow> 's \<Rightarrow> 's"
    and elems :: "'s \<Rightarrow> 'a set"
    and wf :: "'s \<Rightarrow> bool"
  assumes elems_empty [simp]: "elems empty = {}"
    and wf_empty [simp]: "wf empty"
    and elems_ins: "elems (ins x s) = insert x (elems s)"
    and wf_ins: "wf s \<Longrightarrow> wf (ins x s)"
    and elems_del: "elems (del x s) = elems s - {x}"
    and wf_del: "wf s \<Longrightarrow> wf (del x s)"
    and canonical: "wf s \<Longrightarrow> wf t \<Longrightarrow> elems s = elems t \<Longrightarrow> s = t"
begin

lemma elems_fold_ins: "elems (fold ins xs s) = set xs \<union> elems s"
  by (induction xs arbitrary: s) (auto simp: elems_ins)

lemma wf_fold_ins: "wf s \<Longrightarrow> wf (fold ins xs s)"
  by (induction xs arbitrary: s) (auto simp: wf_ins)

lemma elems_fold_del: "elems (fold del xs s) = elems s - set xs"
  by (induction xs arbitrary: s) (auto simp: elems_del)

lemma wf_fold_del: "wf s \<Longrightarrow> wf (fold del xs s)"
  by (induction xs arbitrary: s) (auto simp: wf_del)

text \<open>The value of a set built by insertion depends on its elements only.\<close>

lemma fold_ins_cong: "wf s \<Longrightarrow> set xs = set ys \<Longrightarrow> fold ins xs s = fold ins ys s"
  by (rule canonical) (simp_all add: wf_fold_ins elems_fold_ins)

end

locale ordered_map =
  fixes empty :: "'m"
    and put :: "'k::linorder \<Rightarrow> 'v \<Rightarrow> 'm \<Rightarrow> 'm"
    and get :: "'m \<Rightarrow> 'k \<Rightarrow> 'v option"
    and wf :: "'m \<Rightarrow> bool"
  assumes get_empty [simp]: "get empty k = None"
    and wf_empty [simp]: "wf empty"
    and get_put: "get (put k v m) l = (if l = k then Some v else get m l)"
    and wf_put: "wf m \<Longrightarrow> wf (put k v m)"
    and canonical: "wf m \<Longrightarrow> wf n \<Longrightarrow> (\<And>k. get m k = get n k) \<Longrightarrow> m = n"
begin

lemma put_twice: "wf m \<Longrightarrow> put k v (put k w m) = put k v m"
  by (rule canonical) (simp_all add: wf_put get_put)

lemma put_commute: "wf m \<Longrightarrow> k \<noteq> l \<Longrightarrow> put k v (put l w m) = put l w (put k v m)"
  by (rule canonical) (simp_all add: wf_put get_put)

lemma put_same: "wf m \<Longrightarrow> get m k = Some v \<Longrightarrow> put k v m = m"
  by (rule canonical) (simp_all add: wf_put get_put)

end

section \<open>The list operations meet the contracts\<close>

lemma set_bset_insert [simp]: "set (bset_insert x s) = insert x (set s)"
  by (induction s) auto

lemma bset_wf_insert [intro]: "bset_wf s \<Longrightarrow> bset_wf (bset_insert x s)"
  unfolding bset_wf_def by (induction s) auto

lemma set_bset_remove [simp]: "set (bset_remove x s) = set s - {x}"
  by (auto simp: bset_remove_def)

lemma bset_wf_remove [intro]: "bset_wf s \<Longrightarrow> bset_wf (bset_remove x s)"
  by (simp add: bset_wf_def bset_remove_def sorted_wrt_filter)

lemma bset_wf_Nil [simp]: "bset_wf []"
  by (simp add: bset_wf_def)

lemma bset_canonical: "bset_wf s \<Longrightarrow> bset_wf t \<Longrightarrow> set s = set t \<Longrightarrow> s = t"
  by (simp add: bset_wf_def strict_sorted_equal)

interpretation bset: ordered_set "[]" bset_insert bset_remove set bset_wf
  by unfold_locales (auto intro: bset_canonical)

lemma bmap_get_simps [simp]:
  "bmap_get [] k = None"
  "bmap_get ((l, v) # m) k = (if k = l then Some v else bmap_get m k)"
  by (simp_all add: bmap_get_def)

lemma bmap_get_insert [simp]:
  "bmap_get (bmap_insert k v m) l = (if l = k then Some v else bmap_get m l)"
  by (induction k v m rule: bmap_insert.induct) auto

lemma fst_bmap_insert [simp]: "fst ` set (bmap_insert k v m) = insert k (fst ` set m)"
  by (induction k v m rule: bmap_insert.induct) auto

lemma bmap_wf_insert [intro]: "bmap_wf m \<Longrightarrow> bmap_wf (bmap_insert k v m)"
  unfolding bmap_wf_def
proof (induction k v m rule: bmap_insert.induct)
  case (2 k v l w m)
  then show ?case by (auto dest: fst_bmap_insert [THEN equalityD1, THEN subsetD, OF imageI])
qed auto

lemma bmap_wf_Nil [simp]: "bmap_wf []"
  by (simp add: bmap_wf_def)

lemma bmap_wf_Cons:
  "bmap_wf ((k, v) # m) \<longleftrightarrow> (\<forall>l \<in> fst ` set m. k < l) \<and> bmap_wf m"
  by (auto simp: bmap_wf_def)

lemma bmap_get_eq_Some: "bmap_wf m \<Longrightarrow> bmap_get m k = Some v \<longleftrightarrow> (k, v) \<in> set m"
  by (simp add: bmap_get_def bmap_wf_def strict_sorted_iff map_of_eq_Some_iff)

lemma bmap_canonical:
  assumes "bmap_wf m" and "bmap_wf n" and "\<And>k. bmap_get m k = bmap_get n k"
  shows "m = n"
proof -
  have "set m = set n"
    using assms(3) bmap_get_eq_Some [OF assms(1)] bmap_get_eq_Some [OF assms(2)]
    by (metis subrelI subset_antisym)
  moreover have "sorted (map fst m)" "distinct (map fst m)" "sorted (map fst n)" "distinct (map fst n)"
    using assms(1,2) by (simp_all add: bmap_wf_def strict_sorted_iff)
  ultimately show ?thesis by (intro map_sorted_distinct_set_unique [of fst]) (auto simp: inj_on_def distinct_map)
qed

interpretation bmap: ordered_map "[]" bmap_insert bmap_get bmap_wf
  by unfold_locales (auto intro: bmap_canonical)


text \<open>Copying a map entry by entry, as the loops \<open>for (k, v) in &m\<close> do.\<close>

definition bmap_copy :: "('k::linorder, 'v) bmap \<Rightarrow> ('k, 'v) bmap \<Rightarrow> ('k, 'v) bmap" where
  "bmap_copy m acc = foldl (\<lambda>a (k, v). bmap_insert k v a) acc m"

lemma bmap_wf_copy [intro]: "bmap_wf acc \<Longrightarrow> bmap_wf (bmap_copy m acc)"
  unfolding bmap_copy_def by (induction m arbitrary: acc) auto

lemma bmap_get_copy_distinct:
  "distinct (map fst m) \<Longrightarrow>
   bmap_get (bmap_copy m acc) k = (case map_of m k of None \<Rightarrow> bmap_get acc k | Some v \<Rightarrow> Some v)"
proof (induction m arbitrary: acc)
  case Nil
  then show ?case by (simp add: bmap_copy_def)
next
  case (Cons p m)
  obtain l v where p: "p = (l, v)" by force
  with Cons.prems have "map_of m l = None" by (simp add: map_of_eq_None_iff)
  with Cons.IH [of "bmap_insert l v acc"] Cons.prems p show ?case
    by (auto simp: bmap_copy_def split: option.splits)
qed

lemma bmap_get_copy:
  "bmap_wf m \<Longrightarrow>
   bmap_get (bmap_copy m acc) k = (case bmap_get m k of None \<Rightarrow> bmap_get acc k | Some v \<Rightarrow> Some v)"
  using bmap_get_copy_distinct [of m acc k] by (simp add: bmap_get_def bmap_wf_def strict_sorted_iff)

text \<open>The entries of a map, collected in any order, give the map back.\<close>

lemma bmap_copy_entries:
  assumes "bmap_wf m" "distinct (map fst kvs)" "set kvs = set m"
  shows "bmap_copy kvs [] = m"
proof (rule bmap_canonical)
  show "bmap_get (bmap_copy kvs []) k = bmap_get m k" for k
  proof -
    have "map_of kvs = map_of m"
      using assms by (intro map_of_inject_set [THEN iffD2]) (simp_all add: bmap_wf_def strict_sorted_iff)
    then show ?thesis
      using bmap_get_copy_distinct [OF assms(2), of "[]" k]
      by (simp add: bmap_get_def [of m k] split: option.splits)
  qed
qed (use assms in auto)

end
