(* ===== verification/Interfaces.thy ===== *)
theory Interfaces
  imports Prelude
begin

text \<open>
  The contracts that several components share, each a locale with the consequences its
  clients use: wire codecs (\<open>codec\<close>, \<open>strict_codec\<close>), values that only ever rise
  (\<open>high_water\<close>) and machines with an inductive invariant (\<open>safe_machine\<close>).  Every
  component that provides such an operation interprets the locale on its own definitions.
\<close>

section \<open>Codecs\<close>

locale codec =
  fixes enc :: "'a \<Rightarrow> 'b"
    and dec :: "'b \<Rightarrow> 'a option"
    and valid :: "'a \<Rightarrow> bool"
  assumes dec_enc: "valid x \<Longrightarrow> dec (enc x) = Some x"
begin

text \<open>Two values with the same encoding are the same value.\<close>

lemma enc_inject: "valid x \<Longrightarrow> valid y \<Longrightarrow> enc x = enc y \<longleftrightarrow> x = y"
  by (metis dec_enc option.inject)

lemma distinct_map_enc: "distinct xs \<Longrightarrow> list_all valid xs \<Longrightarrow> distinct (map enc xs)"
  by (simp add: distinct_map inj_on_def list_all_iff enc_inject)

end

text \<open>A strict codec accepts nothing but its own encodings.\<close>

locale strict_codec = codec +
  assumes enc_dec: "dec b = Some x \<Longrightarrow> valid x \<and> enc x = b"
begin

lemma dec_Some_iff: "dec b = Some x \<longleftrightarrow> valid x \<and> enc x = b"
  using dec_enc enc_dec by blast

lemma dec_inject: "dec b = Some x \<Longrightarrow> dec c = Some x \<Longrightarrow> b = c"
  using enc_dec by metis

lemma dec_None_iff: "dec b = None \<longleftrightarrow> (\<forall>x. valid x \<longrightarrow> enc x \<noteq> b)"
  by (metis dec_Some_iff not_None_eq)

end

section \<open>High-water marks\<close>

locale high_water =
  fixes mark :: "'s \<Rightarrow> 'm::linorder"
    and step :: "'e \<Rightarrow> 's \<Rightarrow> 's"
  assumes mark_step: "mark s \<le> mark (step e s)"
begin

lemma mark_run: "mark s \<le> mark (fold step es s)"
proof (induction es arbitrary: s)
  case Nil
  show ?case by simp
next
  case (Cons e es)
  have "mark s \<le> mark (step e s)" by (rule mark_step)
  also have "\<dots> \<le> mark (fold step es (step e s))" by (rule Cons.IH)
  finally show ?case by simp
qed

lemma mark_run_prefix: "mark (fold step es s) \<le> mark (fold step (es @ fs) s)"
  by (simp add: mark_run)

text \<open>A mark that was passed once is never undone.\<close>

lemma mark_ge_run: "m \<le> mark s \<Longrightarrow> m \<le> mark (fold step es s)"
  using mark_run order_trans by blast

end

section \<open>Machines with an invariant\<close>

inductive reachable :: "('s \<Rightarrow> bool) \<Rightarrow> ('s \<Rightarrow> 's \<Rightarrow> bool) \<Rightarrow> 's \<Rightarrow> bool"
  for init :: "'s \<Rightarrow> bool" and step :: "'s \<Rightarrow> 's \<Rightarrow> bool"
where
  reach_init: "init s \<Longrightarrow> reachable init step s"
| reach_step: "reachable init step s \<Longrightarrow> step s t \<Longrightarrow> reachable init step t"

locale safe_machine =
  fixes init :: "'s \<Rightarrow> bool"
    and step :: "'s \<Rightarrow> 's \<Rightarrow> bool"
    and inv :: "'s \<Rightarrow> bool"
  assumes inv_init: "init s \<Longrightarrow> inv s"
    and inv_step: "inv s \<Longrightarrow> step s t \<Longrightarrow> inv t"
begin

lemma reachable_inv: "reachable init step s \<Longrightarrow> inv s"
  by (induction rule: reachable.induct) (auto intro: inv_init inv_step)

lemma star_inv: "step\<^sup>*\<^sup>* s t \<Longrightarrow> inv s \<Longrightarrow> inv t"
  by (induction rule: rtranclp_induct) (auto intro: inv_step)

end

lemma reachable_star:
  "step\<^sup>*\<^sup>* s t \<Longrightarrow> reachable init step s \<Longrightarrow> reachable init step t"
  by (induction rule: rtranclp_induct) (auto intro: reach_step)

end
