(* ===== verification/Types.thy ===== *)
theory Types
  imports Ordered Interfaces "HOL-Library.Word"
begin

text \<open>
  The crate \<open>copylocker-types\<close>: the client-visible licence state and its reasons, the
  enumerations that cross the wire as one byte, validity windows, resolved entitlements
  and opaque identifiers.  Enumerations keep the source's constructor names and are
  written qualified (\<open>LicenseState.Active\<close>); record fields carry a prefix that names
  their record (\<open>tw_\<close>, \<open>ent_\<close>, \<open>hint_\<close>).
\<close>

unbundle bit_operations_syntax

type_synonym u8 = "8 word"
type_synonym bytes = "u8 list"

section \<open>Licence state\<close>

datatype LicenseState =
    Unlicensed | Activating | Active | NeedsRevalidation | Grace | Locked | Revoked | Tampered

fun state_permits_key_derivation :: "LicenseState \<Rightarrow> bool" where
  "state_permits_key_derivation LicenseState.Active = True"
| "state_permits_key_derivation LicenseState.NeedsRevalidation = True"
| "state_permits_key_derivation LicenseState.Grace = True"
| "state_permits_key_derivation _ = False"

fun requires_wipe :: "LicenseState \<Rightarrow> bool" where
  "requires_wipe LicenseState.Revoked = True"
| "requires_wipe LicenseState.Tampered = True"
| "requires_wipe _ = False"

fun license_state_as_str :: "LicenseState \<Rightarrow> string" where
  "license_state_as_str LicenseState.Unlicensed = ''unlicensed''"
| "license_state_as_str LicenseState.Activating = ''activating''"
| "license_state_as_str LicenseState.Active = ''active''"
| "license_state_as_str LicenseState.NeedsRevalidation = ''needs_revalidation''"
| "license_state_as_str LicenseState.Grace = ''grace''"
| "license_state_as_str LicenseState.Locked = ''locked''"
| "license_state_as_str LicenseState.Revoked = ''revoked''"
| "license_state_as_str LicenseState.Tampered = ''tampered''"

section \<open>Enumerations with a wire byte\<close>

datatype KillReason =
    RevokedLicense | RevokedActivation | SeatReclaimed | Fraud | Refund | EpochRevoked

fun kill_reason_u8 :: "KillReason \<Rightarrow> nat" where
  "kill_reason_u8 RevokedLicense = 1"
| "kill_reason_u8 RevokedActivation = 2"
| "kill_reason_u8 SeatReclaimed = 3"
| "kill_reason_u8 Fraud = 4"
| "kill_reason_u8 Refund = 5"
| "kill_reason_u8 KillReason.EpochRevoked = 6"

definition kill_reason_from_u8 :: "nat \<Rightarrow> KillReason option" where
  "kill_reason_from_u8 v =
     (if v = 1 then Some RevokedLicense
      else if v = 2 then Some RevokedActivation
      else if v = 3 then Some SeatReclaimed
      else if v = 4 then Some Fraud
      else if v = 5 then Some Refund
      else if v = 6 then Some KillReason.EpochRevoked
      else None)"

datatype StateReason =
    Activated | Validated | ReactivationRequired | VersionOutOfScope | RefreshDue
  | NetworkUnavailable | GraceExhausted | CredentialExpired | ClockRollback
  | KillOrder KillReason | IntegrityFailure | UserRequested

datatype ArtifactKind =
    EpochCert | MachineCred | ValidationTicket | KillOrder | RevocationBatch
  | OfflineLicenseKey | IntegrityManifest | ActivationRequest | ActivationResponse
  | ValidateRequest | HeartbeatRequest | DeactivateRequest

fun artifact_kind_u8 :: "ArtifactKind \<Rightarrow> nat" where
  "artifact_kind_u8 EpochCert = 1"
| "artifact_kind_u8 MachineCred = 2"
| "artifact_kind_u8 ValidationTicket = 3"
| "artifact_kind_u8 ArtifactKind.KillOrder = 4"
| "artifact_kind_u8 RevocationBatch = 5"
| "artifact_kind_u8 OfflineLicenseKey = 6"
| "artifact_kind_u8 IntegrityManifest = 7"
| "artifact_kind_u8 ActivationRequest = 8"
| "artifact_kind_u8 ActivationResponse = 9"
| "artifact_kind_u8 ValidateRequest = 10"
| "artifact_kind_u8 HeartbeatRequest = 11"
| "artifact_kind_u8 DeactivateRequest = 12"

fun ctx_name :: "ArtifactKind \<Rightarrow> string" where
  "ctx_name EpochCert = ''epoch-cert''"
| "ctx_name MachineCred = ''machine-cred''"
| "ctx_name ValidationTicket = ''validation-ticket''"
| "ctx_name ArtifactKind.KillOrder = ''kill-order''"
| "ctx_name RevocationBatch = ''revocation-batch''"
| "ctx_name OfflineLicenseKey = ''olk''"
| "ctx_name IntegrityManifest = ''manifest''"
| "ctx_name ActivationRequest = ''ar''"
| "ctx_name ActivationResponse = ''aresp''"
| "ctx_name ValidateRequest = ''validate-request''"
| "ctx_name HeartbeatRequest = ''heartbeat-request''"
| "ctx_name DeactivateRequest = ''deactivate-request''"

definition artifact_kind_from_u8 :: "nat \<Rightarrow> ArtifactKind option" where
  "artifact_kind_from_u8 v =
     (if v = 1 then Some EpochCert
      else if v = 2 then Some MachineCred
      else if v = 3 then Some ValidationTicket
      else if v = 4 then Some ArtifactKind.KillOrder
      else if v = 5 then Some RevocationBatch
      else if v = 6 then Some OfflineLicenseKey
      else if v = 7 then Some IntegrityManifest
      else if v = 8 then Some ActivationRequest
      else if v = 9 then Some ActivationResponse
      else if v = 10 then Some ValidateRequest
      else if v = 11 then Some HeartbeatRequest
      else if v = 12 then Some DeactivateRequest
      else None)"

definition artifact_kind_all :: "ArtifactKind list" where
  "artifact_kind_all =
     [EpochCert, MachineCred, ValidationTicket, ArtifactKind.KillOrder, RevocationBatch,
      OfflineLicenseKey, IntegrityManifest, ActivationRequest, ActivationResponse,
      ValidateRequest, HeartbeatRequest, DeactivateRequest]"

datatype Mode = OfflineHybrid | EnforcedOnline

fun mode_u8 :: "Mode \<Rightarrow> nat" where
  "mode_u8 OfflineHybrid = 0"
| "mode_u8 EnforcedOnline = 1"

definition mode_from_u8 :: "nat \<Rightarrow> Mode option" where
  "mode_from_u8 v =
     (if v = 0 then Some OfflineHybrid else if v = 1 then Some EnforcedOnline else None)"

datatype Verdict = Ok | NeedsReactivation | VersionOutOfScope

fun verdict_u8 :: "Verdict \<Rightarrow> nat" where
  "verdict_u8 Verdict.Ok = 0"
| "verdict_u8 Verdict.NeedsReactivation = 1"
| "verdict_u8 Verdict.VersionOutOfScope = 2"

definition verdict_from_u8 :: "nat \<Rightarrow> Verdict option" where
  "verdict_from_u8 v =
     (if v = 0 then Some Verdict.Ok
      else if v = 1 then Some Verdict.NeedsReactivation
      else if v = 2 then Some Verdict.VersionOutOfScope
      else None)"

datatype HintState = Active | PastDue | Canceling | Suspended

fun hint_state_u8 :: "HintState \<Rightarrow> nat" where
  "hint_state_u8 HintState.Active = 0"
| "hint_state_u8 HintState.PastDue = 1"
| "hint_state_u8 HintState.Canceling = 2"
| "hint_state_u8 HintState.Suspended = 3"

definition hint_state_from_u8 :: "nat \<Rightarrow> HintState option" where
  "hint_state_from_u8 v =
     (if v = 0 then Some HintState.Active
      else if v = 1 then Some HintState.PastDue
      else if v = 2 then Some HintState.Canceling
      else if v = 3 then Some HintState.Suspended
      else None)"

interpretation kill_reason_wire: strict_codec kill_reason_u8 kill_reason_from_u8 "\<lambda>_. True"
proof
  fix x :: KillReason
  show "kill_reason_from_u8 (kill_reason_u8 x) = Some x"
    by (cases x) (simp_all add: kill_reason_from_u8_def)
qed (auto simp: kill_reason_from_u8_def split: if_splits)

interpretation artifact_kind_wire: strict_codec artifact_kind_u8 artifact_kind_from_u8 "\<lambda>_. True"
proof
  fix x :: ArtifactKind
  show "artifact_kind_from_u8 (artifact_kind_u8 x) = Some x"
    by (cases x) (simp_all add: artifact_kind_from_u8_def)
qed (auto simp: artifact_kind_from_u8_def split: if_splits)

interpretation mode_wire: strict_codec mode_u8 mode_from_u8 "\<lambda>_. True"
proof
  fix x :: Mode
  show "mode_from_u8 (mode_u8 x) = Some x"
    by (cases x) (simp_all add: mode_from_u8_def)
qed (auto simp: mode_from_u8_def split: if_splits)

interpretation verdict_wire: strict_codec verdict_u8 verdict_from_u8 "\<lambda>_. True"
proof
  fix x :: Verdict
  show "verdict_from_u8 (verdict_u8 x) = Some x"
    by (cases x) (simp_all add: verdict_from_u8_def)
qed (auto simp: verdict_from_u8_def split: if_splits)

interpretation hint_state_wire: strict_codec hint_state_u8 hint_state_from_u8 "\<lambda>_. True"
proof
  fix x :: HintState
  show "hint_state_from_u8 (hint_state_u8 x) = Some x"
    by (cases x) (simp_all add: hint_state_from_u8_def)
qed (auto simp: hint_state_from_u8_def split: if_splits)


datatype SecurityLevel = Category1 | Category3 | Category5

fun security_level_u8 :: "SecurityLevel \<Rightarrow> nat" where
  "security_level_u8 Category1 = 1"
| "security_level_u8 Category3 = 3"
| "security_level_u8 Category5 = 5"

lemma ctx_name_inject [simp]: "ctx_name a = ctx_name b \<longleftrightarrow> a = b"
  by (cases a; cases b; simp)

lemma artifact_kind_all_complete: "set artifact_kind_all = UNIV"
proof -
  have "k \<in> set artifact_kind_all" for k
    by (cases k) (simp_all add: artifact_kind_all_def)
  then show ?thesis by blast
qed

section \<open>Validity windows\<close>

record TimeWindow =
  tw_not_before :: i64
  tw_not_after :: i64

definition UNLIMITED :: i64 where "UNLIMITED = 0"

definition tw_new :: "i64 \<Rightarrow> i64 \<Rightarrow> TimeWindow" where
  "tw_new nb na = \<lparr>tw_not_before = nb, tw_not_after = na\<rparr>"

definition tw_unbounded :: TimeWindow where
  "tw_unbounded = tw_new i64_min UNLIMITED"

definition tw_is_unlimited :: "TimeWindow \<Rightarrow> bool" where
  "tw_is_unlimited w \<longleftrightarrow> tw_not_after w = UNLIMITED"

definition tw_contains :: "TimeWindow \<Rightarrow> i64 \<Rightarrow> bool" where
  "tw_contains w now =
     (if now < tw_not_before w then False
      else tw_is_unlimited w \<or> now < tw_not_after w)"

definition tw_is_expired :: "TimeWindow \<Rightarrow> i64 \<Rightarrow> bool" where
  "tw_is_expired w now \<longleftrightarrow> \<not> tw_is_unlimited w \<and> now \<ge> tw_not_after w"

definition tw_is_not_yet_valid :: "TimeWindow \<Rightarrow> i64 \<Rightarrow> bool" where
  "tw_is_not_yet_valid w now \<longleftrightarrow> now < tw_not_before w"

definition tw_remaining :: "TimeWindow \<Rightarrow> i64 \<Rightarrow> i64 option" where
  "tw_remaining w now =
     (if tw_is_unlimited w then None
      else let left = sat_sub (tw_not_after w) now
           in Some (if left < 0 then 0 else left))"

definition tw_is_well_formed :: "TimeWindow \<Rightarrow> bool" where
  "tw_is_well_formed w \<longleftrightarrow> tw_is_unlimited w \<or> tw_not_before w < tw_not_after w"

lemmas tw_defs =
  UNLIMITED_def tw_new_def tw_unbounded_def tw_is_unlimited_def tw_contains_def
  tw_is_expired_def tw_is_not_yet_valid_def tw_remaining_def tw_is_well_formed_def

lemma tw_contains_iff:
  "tw_contains w now \<longleftrightarrow> \<not> tw_is_not_yet_valid w now \<and> \<not> tw_is_expired w now"
  by (auto simp: tw_defs)

lemma tw_wf_exclusive:
  "tw_is_well_formed w \<Longrightarrow> \<not> (tw_is_not_yet_valid w now \<and> tw_is_expired w now)"
  by (auto simp: tw_defs)

lemma tw_wf_inhabited: "tw_is_well_formed w \<Longrightarrow> \<exists>now. tw_contains w now"
  by (rule exI [of _ "tw_not_before w"]) (auto simp: tw_defs)

lemma tw_expired_stays: "tw_is_expired w now \<Longrightarrow> now \<le> later \<Longrightarrow> tw_is_expired w later"
  by (auto simp: tw_defs)

lemma tw_remaining_zero_iff:
  "in_i64 (tw_not_after w - now) \<Longrightarrow> tw_remaining w now = Some 0 \<longleftrightarrow> tw_is_expired w now"
  by (auto simp: tw_defs sat_sub_def sat_i64_id Let_def)

section \<open>Resolved entitlements\<close>

type_synonym LimitValue = i64

definition LIMIT_UNLIMITED :: LimitValue where "LIMIT_UNLIMITED = -1"

datatype VersionScope =
    Unlimited | SemverRange string | ReleasedBefore i64 | Pinned "string list"

record SubscriptionHint =
  hint_state :: HintState
  hint_current_period_end :: i64
  hint_fallback_progress_months :: "u32 option"
  hint_fallback_required_months :: "u32 option"

record Entitlements =
  ent_features :: "string bset"
  ent_limits :: "(string, LimitValue) bmap"
  ent_tier_id :: string
  ent_tier_label :: string
  ent_catalog_version :: u32
  ent_version_scope :: "VersionScope option"
  ent_subscription_hint :: "SubscriptionHint option"

definition has_feature :: "Entitlements \<Rightarrow> string \<Rightarrow> bool" where
  "has_feature e f \<longleftrightarrow> f \<in> set (ent_features e)"

definition ent_limit :: "Entitlements \<Rightarrow> string \<Rightarrow> LimitValue option" where
  "ent_limit e k = bmap_get (ent_limits e) k"

definition ent_is_unlimited :: "Entitlements \<Rightarrow> string \<Rightarrow> bool" where
  "ent_is_unlimited e k \<longleftrightarrow> ent_limit e k = Some LIMIT_UNLIMITED"

section \<open>Identifiers\<close>

text \<open>
  The macro \<open>byte_id!\<close> declares \<open>LicenseId\<close>, \<open>MachineId\<close>, \<open>EpochId\<close> and \<open>Digest\<close> as byte
  arrays of a fixed width; the width is the argument \<open>len\<close> of \<open>from_slice\<close>.
\<close>

type_synonym LicenseId = bytes
type_synonym MachineId = bytes
type_synonym EpochId = bytes
type_synonym Digest = bytes
type_synonym Fingerprint = bytes
type_synonym SuiteId = bytes

definition LICENSE_ID_LEN :: nat where "LICENSE_ID_LEN = 16"
definition MACHINE_ID_LEN :: nat where "MACHINE_ID_LEN = 16"
definition EPOCH_ID_LEN :: nat where "EPOCH_ID_LEN = 8"
definition DIGEST_LEN :: nat where "DIGEST_LEN = 32"
definition SUITE_ID_LEN :: nat where "SUITE_ID_LEN = 4"

definition from_slice :: "nat \<Rightarrow> bytes \<Rightarrow> bytes option" where
  "from_slice len b = (if length b \<noteq> len then None else Some b)"

definition HEX :: string where "HEX = ''0123456789abcdef''"

definition push_hex :: "string \<Rightarrow> u8 \<Rightarrow> string" where
  "push_hex s b = s @ [HEX ! unat (drop_bit 4 b)] @ [HEX ! unat (b AND 0x0f)]"

definition to_hex :: "bytes \<Rightarrow> string" where
  "to_hex bs = foldl push_hex [] bs"

definition suite_from_u32 :: "32 word \<Rightarrow> bytes" where
  "suite_from_u32 v =
     [ucast (drop_bit 24 v), ucast (drop_bit 16 v), ucast (drop_bit 8 v), ucast v]"

fun suite_to_u32 :: "bytes \<Rightarrow> 32 word" where
  "suite_to_u32 [a, b, c, d] =
     push_bit 24 (ucast a) OR push_bit 16 (ucast b) OR push_bit 8 (ucast c) OR ucast d"
| "suite_to_u32 _ = 0"

lemma suite_to_from_u32: "suite_to_u32 (suite_from_u32 v) = v"
proof (rule bit_word_eqI)
  fix n
  assume "n < LENGTH(32)"
  then show "bit (suite_to_u32 (suite_from_u32 v)) n = bit v n"
    by (cases "n < 8"; cases "n < 16"; cases "n < 24") (simp_all add: suite_from_u32_def bit_simps less_diff_conv2)
qed

lemma hex_index_bounds: "unat (drop_bit 4 (b::u8)) < 16" "unat (b AND 0x0f) < 16"
proof -
  show "unat (drop_bit 4 b) < 16"
    using unsigned_less [of b, where ?'a = nat]
    by (simp add: drop_bit_eq_div unat_div_distrib less_mult_imp_div_less)
  have "b AND 0x0f \<le> 0x0f" by (rule word_and_le1)
  then show "unat (b AND 0x0f) < 16" by (simp add: word_le_nat_alt)
qed

end
