(* ===== verification/Text_Ops.thy ===== *)
theory Text_Ops
  imports Prelude
begin

text \<open>
  The operations of Rust's \<open>str\<close> that the sources use: splitting, trimming, prefixes and
  the parsing of unsigned decimal numbers.  A Rust string is the list of its UTF-8 bytes,
  each a HOL \<open>char\<close>: comparison, length and byte access are exact on every string.  The
  operations that look at characters (white space, letter case) are modelled on the ASCII
  characters; a longer UTF-8 sequence is neither white space nor a letter here.
\<close>

definition is_whitespace :: "char \<Rightarrow> bool" where
  "is_whitespace c \<longleftrightarrow>
     (let n = (of_char c :: nat) in 9 \<le> n \<and> n \<le> 13 \<or> n = 32)"

definition trim :: "string \<Rightarrow> string" where
  "trim s = rev (dropWhile is_whitespace (rev (dropWhile is_whitespace s)))"

text \<open>\<open>split\<close>: the pieces between separators, at least one.\<close>

fun split_on :: "(char \<Rightarrow> bool) \<Rightarrow> string \<Rightarrow> string list" where
  "split_on p [] = [[]]"
| "split_on p (c # cs) =
     (if p c then [] # split_on p cs
      else case split_on p cs of
             [] \<Rightarrow> [[c]]
           | w # ws \<Rightarrow> (c # w) # ws)"

definition split_whitespace :: "string \<Rightarrow> string list" where
  "split_whitespace s = filter (\<lambda>w. w \<noteq> []) (split_on is_whitespace s)"

definition strip_prefix :: "string \<Rightarrow> string \<Rightarrow> string option" where
  "strip_prefix p s = (if take (length p) s = p then Some (drop (length p) s) else None)"

definition to_lowercase :: "char \<Rightarrow> char" where
  "to_lowercase c =
     (let n = (of_char c :: nat) in if 65 \<le> n \<and> n \<le> 90 then char_of (n + 32) else c)"

definition to_uppercase :: "char \<Rightarrow> char" where
  "to_uppercase c =
     (let n = (of_char c :: nat) in if 97 \<le> n \<and> n \<le> 122 then char_of (n - 32) else c)"

definition u64_max :: nat where "u64_max = 18446744073709551615"

definition digit_value :: "char \<Rightarrow> nat option" where
  "digit_value c =
     (let n = (of_char c :: nat) in if 48 \<le> n \<and> n \<le> 57 then Some (n - 48) else None)"

fun parse_digits :: "nat \<Rightarrow> string \<Rightarrow> nat option" where
  "parse_digits acc [] = Some acc"
| "parse_digits acc (c # cs) =
     (case digit_value c of
        None \<Rightarrow> None
      | Some d \<Rightarrow> if acc * 10 + d > u64_max then None else parse_digits (acc * 10 + d) cs)"

definition parse_u64 :: "string \<Rightarrow> nat option" where
  "parse_u64 s =
     (case s of
        [] \<Rightarrow> None
      | c # cs \<Rightarrow> if c = CHR ''+'' then (if cs = [] then None else parse_digits 0 cs)
                else parse_digits 0 s)"

section \<open>Splitting\<close>

lemma split_on_nonempty [simp]: "split_on p s \<noteq> []"
  by (cases s) (auto split: list.splits)

lemma split_on_none: "\<forall>c \<in> set s. \<not> p c \<Longrightarrow> split_on p s = [s]"
  by (induction s) auto

lemma split_on_append:
  "\<forall>c \<in> set s. \<not> p c \<Longrightarrow> p x \<Longrightarrow> split_on p (s @ x # t) = s # split_on p t"
  by (induction s) auto

text \<open>The pieces contain no separator, and joining them gives the text back.\<close>

lemma split_on_pieces: "w \<in> set (split_on p s) \<Longrightarrow> c \<in> set w \<Longrightarrow> \<not> p c"
  by (induction s arbitrary: w) (fastforce split: if_splits list.splits)+

lemma split_on_join: "join [x] (split_on (\<lambda>c. c = x) s) = s"
proof (induction s)
  case Nil
  then show ?case by simp
next
  case (Cons c s)
  obtain w ws where "split_on (\<lambda>c. c = x) s = w # ws"
    using split_on_nonempty neq_Nil_conv by metis
  with Cons show ?case by (cases ws) auto
qed

section \<open>Decimal numbers\<close>

lemma digit_value_digit [simp]: "d < 10 \<Longrightarrow> digit_value (digit d) = Some d"
  by (auto simp: digit_value_def digit_def nth_Cons' less_Suc_eq eval_nat_numeral split: if_splits)

lemma parse_digits_append:
  "parse_digits acc (s @ t) = (case parse_digits acc s of None \<Rightarrow> None | Some a \<Rightarrow> parse_digits a t)"
  by (induction s arbitrary: acc) (auto split: option.splits)

lemma parse_digits_show: "n \<le> u64_max \<Longrightarrow> parse_digits 0 (show_nat n) = Some n"
proof (induction n rule: show_nat.induct)
  case (1 n)
  show ?case
  proof (cases "n < 10")
    case True
    with "1.prems" show ?thesis by (simp add: show_nat.simps [of n])
  next
    case False
    have "n div 10 \<le> u64_max" using "1.prems" by linarith
    with "1.IH" False have "parse_digits 0 (show_nat (n div 10)) = Some (n div 10)" by simp
    with "1.prems" False show ?thesis by (simp add: show_nat.simps [of n] parse_digits_append)
  qed
qed

definition is_digit :: "char \<Rightarrow> bool" where
  "is_digit c \<longleftrightarrow> digit_value c \<noteq> None"

lemma digit_is_digit: "d < 10 \<Longrightarrow> is_digit (digit d)"
  by (simp add: is_digit_def)

lemma show_nat_digits: "c \<in> set (show_nat n) \<Longrightarrow> is_digit c"
proof (induction n rule: show_nat.induct)
  case (1 n)
  then show ?case
    by (cases "n < 10") (auto simp: show_nat.simps [of n] digit_is_digit)
qed

lemma is_digit_plain:
  "is_digit c \<Longrightarrow> \<not> is_whitespace c \<and> c \<noteq> CHR ''+'' \<and> c \<noteq> CHR ''-'' \<and> c \<noteq> CHR ''.''"
  by (auto simp: is_digit_def digit_value_def is_whitespace_def Let_def split: if_splits)

lemma parse_u64_show [simp]: "n \<le> u64_max \<Longrightarrow> parse_u64 (show_nat n) = Some n"
proof -
  assume "n \<le> u64_max"
  moreover obtain c cs where "show_nat n = c # cs" by (meson neq_Nil_conv show_nat_nonempty)
  moreover from this have "c \<noteq> CHR ''+''"
    using show_nat_digits [of c n] is_digit_plain by simp
  ultimately show ?thesis using parse_digits_show [of n] by (simp add: parse_u64_def)
qed

lemma trim_id: "\<forall>c \<in> set s. \<not> is_whitespace c \<Longrightarrow> trim s = s"
proof -
  assume s: "\<forall>c \<in> set s. \<not> is_whitespace c"
  have "dropWhile is_whitespace t = t" if "\<forall>c \<in> set t. \<not> is_whitespace c" for t
    using that by (cases t) auto
  from this [of s] this [of "rev s"] s show ?thesis by (simp add: trim_def)
qed

lemma trim_show_nat [simp]: "trim (show_nat n) = show_nat n"
  using show_nat_digits is_digit_plain by (intro trim_id) blast

lemma parse_digits_bound: "parse_digits acc s = Some n \<Longrightarrow> acc \<le> u64_max \<Longrightarrow> n \<le> u64_max"
  by (induction s arbitrary: acc) (auto split: option.splits if_splits)

lemma parse_u64_bound: "parse_u64 s = Some n \<Longrightarrow> n \<le> u64_max"
  using parse_digits_bound [of 0 s] parse_digits_bound [of 0 "tl s"]
  by (auto simp: parse_u64_def simp del: parse_digits.simps split: list.splits if_splits)

section \<open>Words of a text\<close>

lemma of_char_char_of [simp]: "n < 256 \<Longrightarrow> of_char (char_of n) = (n::nat)"
  by simp

lemma to_lowercase_idem [simp]: "to_lowercase (to_lowercase c) = to_lowercase c"
  by (auto simp: to_lowercase_def Let_def)

lemma to_lowercase_whitespace [simp]: "is_whitespace (to_lowercase c) = is_whitespace c"
  by (auto simp: to_lowercase_def is_whitespace_def Let_def)

lemma split_whitespace_Nil [simp]: "split_whitespace [] = []"
  by (simp add: split_whitespace_def)

lemma split_whitespace_Cons_space [simp]:
  "is_whitespace c \<Longrightarrow> split_whitespace (c # s) = split_whitespace s"
  by (simp add: split_whitespace_def)

lemma split_whitespace_word:
  "\<forall>c \<in> set w. \<not> is_whitespace c \<Longrightarrow> w \<noteq> [] \<Longrightarrow> split_whitespace w = [w]"
  by (simp add: split_whitespace_def split_on_none)

lemma split_whitespace_append:
  "\<forall>c \<in> set w. \<not> is_whitespace c \<Longrightarrow> w \<noteq> [] \<Longrightarrow> is_whitespace x \<Longrightarrow>
   split_whitespace (w @ x # s) = w # split_whitespace s"
  by (simp add: split_whitespace_def split_on_append)

lemma split_whitespace_words:
  "w \<in> set (split_whitespace s) \<Longrightarrow> w \<noteq> [] \<and> (\<forall>c \<in> set w. \<not> is_whitespace c)"
  by (auto simp: split_whitespace_def dest: split_on_pieces)

text \<open>Splitting undoes joining with a blank.\<close>

lemma split_join_words:
  assumes "\<forall>w \<in> set ws. w \<noteq> [] \<and> (\<forall>c \<in> set w. \<not> is_whitespace c)"
  shows "split_whitespace (join '' '' ws) = ws"
  using assms
proof (induction "'' ''" ws rule: join.induct)
  case (2 x)
  then show ?case by (simp add: split_whitespace_word)
next
  case (3 x y ys)
  then show ?case by (simp add: split_whitespace_append is_whitespace_def)
qed simp

text \<open>Appending one character to a text.\<close>

lemma split_on_snoc:
  "split_on p (s @ [c]) =
    (if p c then split_on p s @ [[]] else butlast (split_on p s) @ [last (split_on p s) @ [c]])"
proof (induction s)
  case Nil
  then show ?case by simp
next
  case (Cons a s)
  obtain w ws where "split_on p s = w # ws" using split_on_nonempty neq_Nil_conv by metis
  with Cons show ?case by (cases ws) auto
qed

lemma last_split_on: "last (split_on p s) = [] \<longleftrightarrow> s = [] \<or> p (last s)"
  by (cases s rule: rev_cases) (auto simp: split_on_snoc)

lemma split_whitespace_snoc:
  "split_whitespace (s @ [c]) =
    (if is_whitespace c then split_whitespace s
     else if s = [] \<or> is_whitespace (last s) then split_whitespace s @ [[c]]
     else butlast (split_whitespace s) @ [last (split_whitespace s) @ [c]])"
proof (cases "split_on is_whitespace s" rule: rev_cases)
  case Nil
  then show ?thesis by simp
next
  case (snoc ws w)
  have "w = [] \<longleftrightarrow> s = [] \<or> is_whitespace (last s)"
    using last_split_on [of is_whitespace s] snoc by simp
  with snoc show ?thesis by (simp add: split_whitespace_def split_on_snoc)
qed

lemma split_whitespace_empty: "s \<noteq> [] \<Longrightarrow> \<not> is_whitespace (last s) \<Longrightarrow> split_whitespace s \<noteq> []"
  by (cases s rule: rev_cases) (auto simp: split_whitespace_snoc)

lemma split_whitespace_trim: "split_whitespace (trim s) = split_whitespace s"
proof -
  have left: "split_whitespace (dropWhile is_whitespace t) = split_whitespace t" for t
    by (induction t) simp_all
  have right: "split_whitespace (rev (dropWhile is_whitespace (rev t))) = split_whitespace t" for t
    by (induction t rule: rev_induct) (simp_all add: split_whitespace_snoc)
  show ?thesis by (simp add: trim_def left right)
qed

end
