(* ===== verification/Cbor.thy ===== *)
theory Cbor
  imports Types Text_Ops "HOL-Library.Multiset"
begin

text \<open>
  \<open>copylocker-suite/src/cbor.rs\<close>: the canonical CBOR writer and the strict reader that
  every signed artifact goes through.  The reader works on the bytes that remain, so the
  position of the sources is the part of the input already dropped.  A text value holds
  the UTF-8 bytes of its string.  The reader is shown to accept exactly the writer's output
  on canonical values, and the interpretation \<open>cbor_wire\<close> makes it a strict codec.
\<close>

section \<open>Values\<close>

datatype CborValue =
    Uint u64
  | Nint u64
  | Bytes bytes
  | Text bytes
  | Array "CborValue list"
  | Map "(CborValue \<times> CborValue) list"
  | Bool bool
  | Null

datatype CodecError =
    Malformed | MissingField nat | TypeMismatch nat | DepthExceeded | TooLong | NotCanonical
  | TrailingBytes | UnknownDiscriminant

fun codec_error_display :: "CodecError \<Rightarrow> string" where
  "codec_error_display Malformed = ''malformed encoding''"
| "codec_error_display (MissingField k) = ''missing required field '' @ show_nat k"
| "codec_error_display (TypeMismatch k) = ''wrong type for field '' @ show_nat k"
| "codec_error_display DepthExceeded = ''nesting depth limit exceeded''"
| "codec_error_display TooLong = ''length limit exceeded''"
| "codec_error_display NotCanonical = ''encoding is not canonical CBOR''"
| "codec_error_display TrailingBytes = ''trailing bytes after value''"
| "codec_error_display UnknownDiscriminant = ''unknown enum discriminant''"

definition cbor_int :: "i64 \<Rightarrow> CborValue" where
  "cbor_int v = (if v < 0 then Nint (nat (- (v + 1))) else Uint (nat v))"

fun as_int :: "CborValue \<Rightarrow> i64 option" where
  "as_int (Uint v) = (if int v \<le> i64_max then Some (int v) else None)"
| "as_int (Nint v) = (if int v \<le> i64_max then Some (- int v - 1) else None)"
| "as_int _ = None"

fun as_uint :: "CborValue \<Rightarrow> u64 option" where
  "as_uint (Uint v) = Some v"
| "as_uint _ = None"

fun as_bytes :: "CborValue \<Rightarrow> bytes option" where
  "as_bytes (Bytes b) = Some b"
| "as_bytes _ = None"

fun as_text :: "CborValue \<Rightarrow> bytes option" where
  "as_text (Text t) = Some t"
| "as_text _ = None"

fun as_array :: "CborValue \<Rightarrow> CborValue list option" where
  "as_array (Array a) = Some a"
| "as_array _ = None"

fun as_map :: "CborValue \<Rightarrow> (CborValue \<times> CborValue) list option" where
  "as_map (Map m) = Some m"
| "as_map _ = None"

fun as_bool :: "CborValue \<Rightarrow> bool option" where
  "as_bool (Bool b) = Some b"
| "as_bool _ = None"

fun is_null :: "CborValue \<Rightarrow> bool" where
  "is_null Null = True"
| "is_null _ = False"

definition cbor_get :: "CborValue \<Rightarrow> u64 \<Rightarrow> CborValue option" where
  "cbor_get v k =
     (case as_map v of
        None \<Rightarrow> None
      | Some m \<Rightarrow> map_option snd (find (\<lambda>(ek, _). as_uint ek = Some k) m))"

section \<open>Writing\<close>

text \<open>Big-endian bytes of a number, and the number of big-endian bytes.\<close>

fun to_be_bytes :: "nat \<Rightarrow> nat \<Rightarrow> bytes" where
  "to_be_bytes 0 n = []"
| "to_be_bytes (Suc k) n = to_be_bytes k (n div 256) @ [word_of_nat n]"

definition from_be_bytes :: "bytes \<Rightarrow> nat" where
  "from_be_bytes bs = foldl (\<lambda>acc b. acc * 256 + unat b) 0 bs"

definition write_head :: "u8 \<Rightarrow> u64 \<Rightarrow> bytes" where
  "write_head major arg =
     (let m = push_bit 5 major in
      if arg < 24 then [m OR word_of_nat arg]
      else if arg \<le> 255 then [m OR 24, word_of_nat arg]
      else if arg \<le> 65535 then (m OR 25) # to_be_bytes 2 arg
      else if arg \<le> 4294967295 then (m OR 26) # to_be_bytes 4 arg
      else (m OR 27) # to_be_bytes 8 arg)"

fun to_canonical :: "CborValue \<Rightarrow> bytes" where
  "to_canonical (Uint v) = write_head 0 v"
| "to_canonical (Nint v) = write_head 1 v"
| "to_canonical (Bytes b) = write_head 2 (length b) @ b"
| "to_canonical (Text t) = write_head 3 (length t) @ t"
| "to_canonical (Array a) = write_head 4 (length a) @ concat (map to_canonical a)"
| "to_canonical (Map m) =
     (let encoded = sort_key fst (map (\<lambda>(k, v). (to_canonical k, to_canonical v)) m)
      in write_head 5 (length encoded) @ concat (map (\<lambda>(k, v). k @ v) encoded))"
| "to_canonical (Bool b) = [if b then 0xf5 else 0xf4]"
| "to_canonical Null = [0xf6]"

section \<open>Reading\<close>

record Limits =
  lim_max_depth :: nat
  lim_max_items :: nat
  lim_max_string :: nat

definition DEFAULT_MAX_DEPTH :: nat where "DEFAULT_MAX_DEPTH = 16"

definition limits_default :: Limits where
  "limits_default =
     \<lparr>lim_max_depth = DEFAULT_MAX_DEPTH, lim_max_items = 4096, lim_max_string = 64 * 1024\<rparr>"

definition take_bytes :: "nat \<Rightarrow> bytes \<Rightarrow> (CodecError, bytes \<times> bytes) result" where
  "take_bytes n buf = (if n \<le> length buf then Inr (take n buf, drop n buf) else Inl Malformed)"

definition take_be :: "nat \<Rightarrow> bytes \<Rightarrow> (CodecError, u64 \<times> bytes) result" where
  "take_be n buf =
     (case take_bytes n buf of Inl e \<Rightarrow> Inl e | Inr (b, rest) \<Rightarrow> Inr (from_be_bytes b, rest))"

definition head_arg :: "u8 \<Rightarrow> bytes \<Rightarrow> (CodecError, u64 \<times> bytes) result" where
  "head_arg ai buf =
     (if ai \<le> 23 then Inr (unat ai, buf)
      else if ai = 24 then take_be 1 buf
      else if ai = 25 then take_be 2 buf
      else if ai = 26 then take_be 4 buf
      else if ai = 27 then take_be 8 buf
      else Inl Malformed)"

fun read_head :: "bytes \<Rightarrow> (CodecError, (u8 \<times> u64) \<times> bytes) result" where
  "read_head [] = Inl Malformed"
| "read_head (ib # buf) =
     (case head_arg (ib AND 0x1f) buf of
        Inl e \<Rightarrow> Inl e
      | Inr (arg, rest) \<Rightarrow> Inr ((drop_bit 5 ib, arg), rest))"

text \<open>Which byte sequences are UTF-8, as \<open>core::str::from_utf8\<close> decides it.\<close>

definition cont_byte :: "u8 \<Rightarrow> bool" where
  "cont_byte b \<longleftrightarrow> 0x80 \<le> b \<and> b \<le> 0xbf"

fun utf8_valid :: "bytes \<Rightarrow> bool" where
  "utf8_valid [] = True"
| "utf8_valid (a # bs) =
     (if a \<le> 0x7f then utf8_valid bs
      else case bs of [] \<Rightarrow> False | b # cs \<Rightarrow>
        if 0xc2 \<le> a \<and> a \<le> 0xdf then cont_byte b \<and> utf8_valid cs
        else case cs of [] \<Rightarrow> False | c # ds \<Rightarrow>
          if a = 0xe0 then 0xa0 \<le> b \<and> b \<le> 0xbf \<and> cont_byte c \<and> utf8_valid ds
          else if 0xe1 \<le> a \<and> a \<le> 0xec \<or> 0xee \<le> a \<and> a \<le> 0xef
          then cont_byte b \<and> cont_byte c \<and> utf8_valid ds
          else if a = 0xed then 0x80 \<le> b \<and> b \<le> 0x9f \<and> cont_byte c \<and> utf8_valid ds
          else case ds of [] \<Rightarrow> False | d # es \<Rightarrow>
            cont_byte c \<and> cont_byte d \<and> utf8_valid es \<and>
            (a = 0xf0 \<and> 0x90 \<le> b \<and> b \<le> 0xbf \<or>
             0xf1 \<le> a \<and> a \<le> 0xf3 \<and> cont_byte b \<or>
             a = 0xf4 \<and> 0x80 \<le> b \<and> b \<le> 0x8f))"

definition read_string ::
  "Limits \<Rightarrow> u64 \<Rightarrow> bytes \<Rightarrow> (CodecError, bytes \<times> bytes) result"
where
  "read_string lim arg buf =
     (if arg > lim_max_string lim then Inl TooLong else take_bytes arg buf)"

definition count :: "Limits \<Rightarrow> u64 \<Rightarrow> (CodecError, nat) result" where
  "count lim arg = (if arg > lim_max_items lim then Inl TooLong else Inr arg)"

function (sequential)
  read_value :: "Limits \<Rightarrow> nat \<Rightarrow> bytes \<Rightarrow> (CodecError, CborValue \<times> bytes) result"
and read_items :: "Limits \<Rightarrow> nat \<Rightarrow> nat \<Rightarrow> bytes \<Rightarrow> (CodecError, CborValue list \<times> bytes) result"
and read_entries ::
  "Limits \<Rightarrow> nat \<Rightarrow> nat \<Rightarrow> (CborValue \<times> CborValue) list \<Rightarrow> bytes
   \<Rightarrow> (CodecError, (CborValue \<times> CborValue) list \<times> bytes) result"
where
  "read_value lim depth buf =
     (if depth > lim_max_depth lim then Inl DepthExceeded
      else case read_head buf of
        Inl e \<Rightarrow> Inl e
      | Inr ((major, arg), rest) \<Rightarrow>
          if major = 0 then Inr (Uint arg, rest)
          else if major = 1 then Inr (Nint arg, rest)
          else if major = 2 then
            (case read_string lim arg rest of
               Inl e \<Rightarrow> Inl e
             | Inr (raw, rest') \<Rightarrow> Inr (Bytes raw, rest'))
          else if major = 3 then
            (case read_string lim arg rest of
               Inl e \<Rightarrow> Inl e
             | Inr (raw, rest') \<Rightarrow>
                 if utf8_valid raw then Inr (Text raw, rest') else Inl Malformed)
          else if major = 4 then
            (case count lim arg of
               Inl e \<Rightarrow> Inl e
             | Inr n \<Rightarrow>
                 (case read_items lim (depth + 1) n rest of
                    Inl e \<Rightarrow> Inl e
                  | Inr (items, rest') \<Rightarrow> Inr (Array items, rest')))
          else if major = 5 then
            (case count lim arg of
               Inl e \<Rightarrow> Inl e
             | Inr n \<Rightarrow>
                 (case read_entries lim (depth + 1) n [] rest of
                    Inl e \<Rightarrow> Inl e
                  | Inr (entries, rest') \<Rightarrow> Inr (Map entries, rest')))
          else if major = 7 then
            (if arg = 20 then Inr (Bool False, rest)
             else if arg = 21 then Inr (Bool True, rest)
             else if arg = 22 then Inr (Null, rest)
             else Inl Malformed)
          else Inl Malformed)"
| "read_items lim depth 0 buf = Inr ([], buf)"
| "read_items lim depth (Suc n) buf =
     (case read_value lim depth buf of
        Inl e \<Rightarrow> Inl e
      | Inr (v, rest) \<Rightarrow>
          (case read_items lim depth n rest of
             Inl e \<Rightarrow> Inl e
           | Inr (vs, rest') \<Rightarrow> Inr (v # vs, rest')))"
| "read_entries lim depth 0 entries buf = Inr (entries, buf)"
| "read_entries lim depth (Suc n) entries buf =
     (case read_value lim depth buf of
        Inl e \<Rightarrow> Inl e
      | Inr (k, rest) \<Rightarrow>
          if k \<in> fst ` set entries then Inl NotCanonical
          else case read_value lim depth rest of
                 Inl e \<Rightarrow> Inl e
               | Inr (v, rest') \<Rightarrow> read_entries lim depth n (entries @ [(k, v)]) rest')"
  by pat_completeness auto
termination
  by (relation "measures
      [case_sum (\<lambda>(lim, depth, buf). lim_max_depth lim + 2 - depth)
         (case_sum (\<lambda>(lim, depth, n, buf). lim_max_depth lim + 2 - depth)
                   (\<lambda>(lim, depth, n, es, buf). lim_max_depth lim + 2 - depth)),
       case_sum (\<lambda>_. 0) (case_sum (\<lambda>(lim, depth, n, buf). n + 1) (\<lambda>(lim, depth, n, es, buf). n + 1))]")
    auto

declare read_value.simps [simp del]

definition decode_canonical :: "bytes \<Rightarrow> Limits \<Rightarrow> (CodecError, CborValue) result" where
  "decode_canonical bs lim =
     (case read_value lim 0 bs of
        Inl e \<Rightarrow> Inl e
      | Inr (v, rest) \<Rightarrow>
          if rest \<noteq> [] then Inl TrailingBytes
          else if to_canonical v \<noteq> bs then Inl NotCanonical
          else Inr v)"

section \<open>Building maps\<close>

type_synonym MapBuilder = "(CborValue \<times> CborValue) list"

definition put :: "u64 \<Rightarrow> CborValue \<Rightarrow> MapBuilder \<Rightarrow> MapBuilder" where
  "put k v mb = mb @ [(Uint k, v)]"

definition put_opt :: "u64 \<Rightarrow> CborValue option \<Rightarrow> MapBuilder \<Rightarrow> MapBuilder" where
  "put_opt k ov mb = (case ov of None \<Rightarrow> mb | Some v \<Rightarrow> put k v mb)"

definition build :: "MapBuilder \<Rightarrow> CborValue" where
  "build mb = Map mb"

definition finish :: "MapBuilder \<Rightarrow> bytes" where
  "finish mb = to_canonical (build mb)"

section \<open>Heads\<close>

lemma unat_byte: "unat (word_of_nat n :: u8) = n mod 256"
  by (simp add: unsigned_of_nat take_bit_eq_mod)

lemma length_to_be_bytes [simp]: "length (to_be_bytes k n) = k"
  by (induction k arbitrary: n) simp_all

lemma from_be_bytes_snoc: "from_be_bytes (bs @ [b]) = from_be_bytes bs * 256 + unat b"
  by (simp add: from_be_bytes_def)

lemma from_to_be_bytes: "n < 256 ^ k \<Longrightarrow> from_be_bytes (to_be_bytes k n) = n"
proof (induction k arbitrary: n)
  case 0
  then show ?case by (simp add: from_be_bytes_def)
next
  case (Suc k)
  have "n div 256 < 256 ^ k" using Suc.prems by (simp add: less_mult_imp_div_less mult.commute)
  with Suc.IH show ?case by (simp add: from_be_bytes_snoc unat_byte)
qed

lemma from_be_bytes_bound: "from_be_bytes bs < 256 ^ length bs"
proof (induction bs rule: rev_induct)
  case Nil
  then show ?case by (simp add: from_be_bytes_def)
next
  case (snoc b bs)
  have "unat b < 256" using unsigned_less [of b, where ?'a = nat] by simp
  with snoc show ?case by (simp add: from_be_bytes_snoc)
qed

lemma bit_below: "bit (w::u8) n \<Longrightarrow> unat w < 2 ^ k \<Longrightarrow> n < k"
  by (metis bit_take_bit_iff bit_unsigned_iff possible_bit_nat take_bit_nat_eq_self)

lemma head_byte:
  fixes m a :: u8
  assumes "m < 8" "a < 32"
  shows "drop_bit 5 (push_bit 5 m OR a) = m" "(push_bit 5 m OR a) AND 0x1f = a"
proof -
  have bm: "bit m n \<Longrightarrow> n < 3" and ba: "bit a n \<Longrightarrow> n < 5" for n
    using bit_below [of m n 3] bit_below [of a n 5] assms by (simp_all add: word_less_nat_alt)
  have mask: "(0x1f :: u8) = mask 5" by (simp add: mask_eq_exp_minus_1)
  show "drop_bit 5 (push_bit 5 m OR a) = m"
  proof (rule bit_word_eqI)
    fix n
    show "bit (drop_bit 5 (push_bit 5 m OR a)) n = bit m n"
      using bm [of n] ba [of "5 + n"] by (auto simp: bit_simps)
  qed
  show "(push_bit 5 m OR a) AND 0x1f = a"
    unfolding mask by (rule bit_word_eqI) (use ba in \<open>auto simp: bit_simps\<close>)
qed

lemma read_head_byte:
  assumes "m < 8" "a < 32"
  shows "read_head ((push_bit 5 m OR a) # buf) =
    (case head_arg a buf of Inl e \<Rightarrow> Inl e | Inr (arg, rest) \<Rightarrow> Inr ((m, arg), rest))"
  by (simp only: read_head.simps head_byte [OF assms])

lemma take_be_to_be: "arg < 256 ^ k \<Longrightarrow> take_be k (to_be_bytes k arg @ rest) = Inr (arg, rest)"
  by (simp add: take_be_def take_bytes_def from_to_be_bytes)

lemma take_be_one: "arg < 256 \<Longrightarrow> take_be 1 (word_of_nat arg # rest) = Inr (arg, rest)"
  by (simp add: take_be_def take_bytes_def from_be_bytes_def unat_byte)

lemma read_write_head:
  assumes "m < 8" "arg \<le> u64_max"
  shows "read_head (write_head m arg @ rest) = Inr ((m, arg), rest)"
proof -
  have small: "(word_of_nat arg :: u8) < 32 \<and> (word_of_nat arg :: u8) \<le> 23 \<and> unat (word_of_nat arg :: u8) = arg"
    if "arg < 24"
    using that by (simp add: word_less_nat_alt word_le_nat_alt unat_byte)
  consider "arg < 24" | "24 \<le> arg" "arg \<le> 255" | "255 < arg" "arg \<le> 65535"
    | "65535 < arg" "arg \<le> 4294967295" | "4294967295 < arg" by linarith
  then show ?thesis
    using assms small take_be_one [of arg rest]
    by cases (simp_all add: write_head_def Let_def read_head_byte head_arg_def
        take_be_to_be u64_max_def del: read_head.simps)
qed

lemma head_arg_bound: "head_arg ai buf = Inr (arg, rest) \<Longrightarrow> arg \<le> u64_max"
proof -
  have be: "arg \<le> u64_max" if "take_be k buf = Inr (arg, rest)" "k \<le> 8" for k
  proof -
    from that(1) have "arg < 256 ^ k"
      using from_be_bytes_bound [of "take k buf"]
      by (auto simp: take_be_def take_bytes_def min_def split: if_splits)
    also have "(256::nat) ^ k \<le> 256 ^ 8" using that(2) by (intro power_increasing) auto
    finally show ?thesis by (simp add: u64_max_def)
  qed
  assume "head_arg ai buf = Inr (arg, rest)"
  moreover have "unat ai \<le> u64_max"
    using unsigned_less [of ai, where ?'a = nat] by (simp add: u64_max_def)
  ultimately show ?thesis using be by (auto simp: head_arg_def split: if_splits)
qed

lemma read_head_bound: "read_head buf = Inr ((m, arg), rest) \<Longrightarrow> arg \<le> u64_max"
  by (cases buf) (auto dest: head_arg_bound split: sum.splits)

section \<open>Canonical values\<close>

text \<open>
  \<open>within lim d v\<close>: the value, at nesting depth \<open>d\<close>, respects the limits of the reader and
  the ranges of the types.  \<open>canonical v\<close>: the entries of every map are listed in
  strictly ascending order of their encoded keys.
\<close>

fun within :: "Limits \<Rightarrow> nat \<Rightarrow> CborValue \<Rightarrow> bool" where
  "within lim d (Uint v) \<longleftrightarrow> d \<le> lim_max_depth lim \<and> v \<le> u64_max"
| "within lim d (Nint v) \<longleftrightarrow> d \<le> lim_max_depth lim \<and> v \<le> u64_max"
| "within lim d (Bytes b) \<longleftrightarrow>
     d \<le> lim_max_depth lim \<and> length b \<le> lim_max_string lim \<and> length b \<le> u64_max"
| "within lim d (Text t) \<longleftrightarrow>
     d \<le> lim_max_depth lim \<and> length t \<le> lim_max_string lim \<and> length t \<le> u64_max \<and> utf8_valid t"
| "within lim d (Array a) \<longleftrightarrow>
     d \<le> lim_max_depth lim \<and> length a \<le> lim_max_items lim \<and> length a \<le> u64_max \<and>
     list_all (within lim (d + 1)) a"
| "within lim d (Map m) \<longleftrightarrow>
     d \<le> lim_max_depth lim \<and> length m \<le> lim_max_items lim \<and> length m \<le> u64_max \<and>
     list_all (\<lambda>(k, v). within lim (d + 1) k \<and> within lim (d + 1) v) m"
| "within lim d (Bool b) \<longleftrightarrow> d \<le> lim_max_depth lim"
| "within lim d Null \<longleftrightarrow> d \<le> lim_max_depth lim"

fun canonical :: "CborValue \<Rightarrow> bool" where
  "canonical (Array a) = list_all canonical a"
| "canonical (Map m) \<longleftrightarrow>
     sorted_wrt (<) (map (\<lambda>(k, v). to_canonical k) m) \<and>
     list_all (\<lambda>(k, v). canonical k \<and> canonical v) m"
| "canonical _ = True"

text \<open>What the reader makes of the writer's output: every map in the order of its encoded keys.\<close>

fun canon :: "CborValue \<Rightarrow> CborValue" where
  "canon (Array a) = Array (map canon a)"
| "canon (Map m) =
     Map (map snd (sort_key fst (map (\<lambda>(k, v). (to_canonical k, (canon k, canon v))) m)))"
| "canon v = v"

fun nodup :: "CborValue \<Rightarrow> bool" where
  "nodup (Array a) = list_all nodup a"
| "nodup (Map m) \<longleftrightarrow>
     list_all (\<lambda>(k, v). nodup k \<and> nodup v) m \<and> distinct (map (\<lambda>(k, v). canon k) m)"
| "nodup _ = True"

lemma insort_key_map: "insort_key f (g x) (map g xs) = map g (insort_key (\<lambda>x. f (g x)) x xs)"
  by (induction xs) auto

lemma sort_key_map: "sort_key f (map g xs) = map g (sort_key (\<lambda>x. f (g x)) xs)"
  by (induction xs) (simp_all add: insort_key_map)

definition by_key :: "(CborValue \<times> CborValue) list \<Rightarrow> (CborValue \<times> CborValue) list" where
  "by_key m = sort_key (\<lambda>(k, v). to_canonical k) m"

lemma by_key_simps [simp]:
  "set (by_key m) = set m" "length (by_key m) = length m"
  "list_all P (by_key m) = list_all P m"
  by (simp_all add: by_key_def list_all_iff)

lemma distinct_by_key [simp]: "distinct (map f (by_key m)) = distinct (map f m)"
  by (rule mset_eq_imp_distinct_iff) (simp add: by_key_def)

lemma to_canonical_Map:
  "to_canonical (Map m) =
     write_head 5 (length m) @ concat (map (\<lambda>(k, v). to_canonical k @ to_canonical v) (by_key m))"
  by (simp add: Let_def sort_key_map by_key_def case_prod_unfold o_def)

lemma canon_Map: "canon (Map m) = Map (map (\<lambda>(k, v). (canon k, canon v)) (by_key m))"
  by (simp add: sort_key_map by_key_def case_prod_unfold o_def)

section \<open>Reading back what was written\<close>

abbreviation read_back :: "CborValue \<Rightarrow> bytes \<Rightarrow> (CodecError, CborValue \<times> bytes) result" where
  "read_back v rest \<equiv> (if nodup v then Inr (canon v, rest) else Inl NotCanonical)"

lemma read_items_back:
  assumes "\<And>x rest. x \<in> set xs \<Longrightarrow> read_value lim d (to_canonical x @ rest) = read_back x rest"
  shows "read_items lim d (length xs) (concat (map to_canonical xs) @ rest) =
    (if list_all nodup xs then Inr (map canon xs, rest) else Inl NotCanonical)"
  using assms by (induction xs) simp_all

lemma read_entries_back:
  assumes "\<And>k v rest. (k, v) \<in> set m \<Longrightarrow>
      read_value lim d (to_canonical k @ rest) = read_back k rest \<and>
      read_value lim d (to_canonical v @ rest) = read_back v rest"
    and "distinct (map fst es)"
  shows "read_entries lim d (length m) es
      (concat (map (\<lambda>(k, v). to_canonical k @ to_canonical v) m) @ rest) =
    (if list_all (\<lambda>(k, v). nodup k \<and> nodup v) m \<and>
        distinct (map fst es @ map (\<lambda>(k, v). canon k) m)
     then Inr (es @ map (\<lambda>(k, v). (canon k, canon v)) m, rest) else Inl NotCanonical)"
  using assms
proof (induction m arbitrary: es)
  case Nil
  then show ?case by simp
next
  case (Cons e m)
  obtain k v where e: "e = (k, v)" by fastforce
  have kv: "read_value lim d (to_canonical k @ r) = read_back k r"
    "read_value lim d (to_canonical v @ r) = read_back v r" for r
    using Cons.prems(1) [of k v r] by (simp_all add: e)
  have IH: "distinct (map fst es') \<Longrightarrow> read_entries lim d (length m) es'
      (concat (map (\<lambda>(k, v). to_canonical k @ to_canonical v) m) @ rest) =
    (if list_all (\<lambda>(k, v). nodup k \<and> nodup v) m \<and>
        distinct (map fst es' @ map (\<lambda>(k, v). canon k) m)
     then Inr (es' @ map (\<lambda>(k, v). (canon k, canon v)) m, rest) else Inl NotCanonical)" for es'
    by (rule Cons.IH) (rule Cons.prems(1), simp)
  show ?case
  proof (cases "nodup k \<and> canon k \<notin> fst ` set es \<and> nodup v")
    case True
    with Cons.prems(2) IH [of "es @ [(canon k, canon v)]"] show ?thesis
      by (auto simp: e kv)
  next
    case False
    then show ?thesis by (auto simp: e kv)
  qed
qed

lemma read_value_back:
  "within lim d v \<Longrightarrow> read_value lim d (to_canonical v @ rest) = read_back v rest"
proof (induction v arbitrary: d rest rule: to_canonical.induct)
  case (5 a)
  have "read_items lim (d + 1) (length a) (concat (map to_canonical a) @ rest) =
      (if list_all nodup a then Inr (map canon a, rest) else Inl NotCanonical)"
    using 5 by (intro read_items_back) (auto simp: list_all_iff)
  with 5 show ?case by (simp add: read_value.simps read_write_head count_def)
next
  case (6 m)
  have "read_value lim (d + 1) (to_canonical k @ r) = read_back k r \<and>
      read_value lim (d + 1) (to_canonical v @ r) = read_back v r" if "(k, v) \<in> set (by_key m)" for k v r
    using 6 that by (auto simp: list_all_iff)
  note read_entries_back [of "by_key m" lim "d + 1" "[]" rest, OF this]
  with 6 show ?case
    by (simp add: to_canonical_Map canon_Map read_value.simps read_write_head count_def
        del: to_canonical.simps canon.simps)
qed (auto simp: read_value.simps read_write_head read_string_def take_bytes_def head_arg_def)

text \<open>Everything the reader returns is within its limits.\<close>

lemma read_within:
  "read_value lim d buf = Inr (v, rest) \<Longrightarrow> within lim d v"
  "read_items lim d n buf = Inr (vs, rest) \<Longrightarrow> length vs = n \<and> list_all (within lim d) vs"
  "read_entries lim d n es buf = Inr (es', rest) \<Longrightarrow>
     list_all (\<lambda>(k, v). within lim d k \<and> within lim d v) es \<Longrightarrow>
     length es' = length es + n \<and> list_all (\<lambda>(k, v). within lim d k \<and> within lim d v) es'"
proof (induction lim d buf and lim d n buf and lim d n es buf
    arbitrary: v rest and vs rest and es' rest
    rule: read_value_read_items_read_entries.induct)
  case (1 lim d buf)
  from "1.prems" obtain m arg r where d: "\<not> d > lim_max_depth lim" and h: "read_head buf = Inr ((m, arg), r)"
    by (auto simp: read_value.simps [of lim d buf] split: if_splits sum.splits)
  note bound = read_head_bound [OF h]
  note IHs = "1.IH" [OF d h, simplified]
  show ?case
    using "1.prems" d h bound IHs
    by (auto simp: read_value.simps [of lim d buf] read_string_def take_bytes_def count_def
        split: if_splits sum.splits)
qed (fastforce split: sum.splits if_splits)+

section \<open>The reader accepts exactly the canonical encodings\<close>

lemma to_canonical_inject:
  assumes "within lim d v" "within lim d w" "nodup v" "nodup w" "canon v = v" "canon w = w"
    and "to_canonical v = to_canonical w"
  shows "v = w"
  using read_value_back [OF assms(1), of "[]"] read_value_back [OF assms(2), of "[]"] assms(3-)
  by simp

lemma list_all_pairD: "list_all (\<lambda>(k, v). P k v) m \<Longrightarrow> (k, v) \<in> set m \<Longrightarrow> P k v"
  by (auto simp: list_all_iff)

lemma sorted_by_key:
  "sorted_wrt (<) (map (\<lambda>(k, v). to_canonical k) m) \<Longrightarrow> by_key m = m"
  unfolding by_key_def by (rule sort_key_id_if_sorted) (simp add: strict_sorted_iff)

text \<open>A value listed in canonical order is what the reader makes of its encoding.\<close>

lemma canonical_fixed: "within lim d v \<Longrightarrow> canonical v \<Longrightarrow> canon v = v \<and> nodup v"
proof (induction v arbitrary: d rule: canonical.induct)
  case (1 a)
  then have "\<forall>x \<in> set a. canon x = x \<and> nodup x" by (auto simp: list_all_iff)
  then show ?case by (auto simp: list_all_iff intro: map_idI)
next
  case (2 m)
  have sub: "canon k = k \<and> nodup k \<and> canon v = v \<and> nodup v" if "(k, v) \<in> set m" for k v
  proof -
    have "list_all (\<lambda>(k, v). within lim (d + 1) k \<and> within lim (d + 1) v) m"
      "list_all (\<lambda>(k, v). canonical k \<and> canonical v) m"
      using "2.prems" by simp_all
    from this [THEN list_all_pairD, OF that] "2.IH" [OF that refl] show ?thesis by blast
  qed
  have keys: "map (\<lambda>(k, v). canon k) m = map fst m"
    and vals: "map (\<lambda>(k, v). (canon k, canon v)) m = m"
    using sub by (auto intro!: map_idI)
  from "2.prems"(2) have s: "sorted_wrt (<) (map (\<lambda>(k, v). to_canonical k) m)" by simp
  then have "distinct (map (to_canonical \<circ> fst) m)"
    by (simp add: strict_sorted_iff case_prod_unfold o_def)
  then have "distinct (map fst m)" by (metis distinct_map map_map)
  moreover have "list_all (\<lambda>(k, v). nodup k \<and> nodup v) m" using sub by (auto simp: list_all_iff)
  ultimately show ?case
    using vals s by (simp add: canon_Map sorted_by_key keys del: canon.simps map_eq_conv)
qed simp_all

lemma sorted_keys_by_key: "sorted (map (\<lambda>(k, v). to_canonical k) (by_key m))"
  by (simp add: by_key_def)

lemma by_key_id: "sorted (map (\<lambda>(k, v). to_canonical k) m) \<Longrightarrow> by_key m = m"
  unfolding by_key_def by (rule sort_key_id_if_sorted)

lemma map_fixed: "map f xs = xs \<Longrightarrow> x \<in> set xs \<Longrightarrow> f x = x"
  by (metis map_eq_conv map_ident)

lemma to_canonical_canon: "to_canonical (canon v) = to_canonical v"
proof (induction v rule: canon.induct)
  case (1 a)
  then have "map (to_canonical \<circ> canon) a = map to_canonical a" by simp
  then show ?case by (simp only: canon.simps to_canonical.simps map_map length_map)
next
  case (2 m)
  let ?f = "\<lambda>(k, v). (canon k, canon v)"
  have sub: "to_canonical (canon k) = to_canonical k \<and> to_canonical (canon v) = to_canonical v"
    if "(k, v) \<in> set m" for k v
    using 2 that by auto
  have keys: "map (\<lambda>(k, v). to_canonical k) (map ?f (by_key m)) = map (\<lambda>(k, v). to_canonical k) (by_key m)"
    and both: "map (\<lambda>(k, v). to_canonical k @ to_canonical v) (map ?f (by_key m)) =
      map (\<lambda>(k, v). to_canonical k @ to_canonical v) (by_key m)"
    using sub by auto
  have "by_key (map ?f (by_key m)) = map ?f (by_key m)"
    by (rule by_key_id) (simp only: keys sorted_keys_by_key)
  then show ?case
    by (simp only: canon_Map to_canonical_Map both length_map by_key_simps)
qed simp_all

lemma fixed_canonical: "within lim d v \<Longrightarrow> canon v = v \<Longrightarrow> nodup v \<Longrightarrow> canonical v"
proof (induction v arbitrary: d rule: canonical.induct)
  case (1 a)
  then show ?case by (auto simp: list_all_iff dest: map_fixed)
next
  case (2 m)
  let ?f = "\<lambda>(k, v). (canon k, canon v)"
  let ?enc = "\<lambda>(k, v). to_canonical k"
  from "2.prems"(2) have fx: "map ?f (by_key m) = m"
    by (simp add: canon_Map del: canon.simps)
  have "map ?enc m = map ?enc (map ?f (by_key m))" by (simp only: fx)
  also have "\<dots> = map ?enc (by_key m)" by (auto simp: to_canonical_canon)
  finally have sorted: "sorted (map ?enc m)" by (simp only: sorted_keys_by_key)
  then have "map ?f m = m" using fx by (simp add: by_key_id)
  then have fixed: "canon k = k \<and> canon v = v" if "(k, v) \<in> set m" for k v
    using map_fixed [of ?f m "(k, v)"] that by simp
  have subs: "within lim (d + 1) k \<and> within lim (d + 1) v \<and> nodup k \<and> nodup v" if "(k, v) \<in> set m" for k v
  proof -
    have "list_all (\<lambda>(k, v). within lim (d + 1) k \<and> within lim (d + 1) v) m"
      "list_all (\<lambda>(k, v). nodup k \<and> nodup v) m"
      using "2.prems"(1,3) by simp_all
    from this [THEN list_all_pairD, OF that] show ?thesis by simp
  qed
  have "inj_on to_canonical (fst ` set m)"
  proof (rule inj_onI)
    fix k k'
    assume "k \<in> fst ` set m" "k' \<in> fst ` set m" "to_canonical k = to_canonical k'"
    then obtain v v' where "(k, v) \<in> set m" "(k', v') \<in> set m" by auto
    note kv = fixed [OF this(1)] subs [OF this(1)] fixed [OF this(2)] subs [OF this(2)]
    from kv have "within lim (d + 1) k" "within lim (d + 1) k'" "nodup k" "nodup k'"
      "canon k = k" "canon k' = k'" by blast+
    then show "k = k'" using \<open>to_canonical k = to_canonical k'\<close> by (rule to_canonical_inject)
  qed
  moreover have "map (\<lambda>(k, v). canon k) m = map fst m" using fixed by auto
  then have "distinct (map fst m)" using "2.prems"(3) by (metis nodup.simps(2))
  ultimately have "distinct (map ?enc m)"
    by (auto simp: case_prod_unfold distinct_map inj_on_def)
  with sorted have "sorted_wrt (<) (map ?enc m)" by (simp add: strict_sorted_iff)
  moreover have "canonical k \<and> canonical v" if "(k, v) \<in> set m" for k v
    using "2.IH" [OF that refl] fixed [OF that] subs [OF that] by blast
  ultimately show ?case by (auto simp: list_all_iff)
qed simp_all

definition cbor_valid :: "Limits \<Rightarrow> CborValue \<Rightarrow> bool" where
  "cbor_valid lim v \<longleftrightarrow> within lim 0 v \<and> canonical v"

lemma decode_canonical_iff:
  "decode_canonical bs lim = Inr v \<longleftrightarrow> cbor_valid lim v \<and> bs = to_canonical v"
proof
  assume "decode_canonical bs lim = Inr v"
  then have r: "read_value lim 0 bs = Inr (v, [])" and bs: "to_canonical v = bs"
    by (auto simp: decode_canonical_def split: sum.splits if_splits)
  from r have w: "within lim 0 v" by (rule read_within(1))
  from read_value_back [OF w, of "[]"] r bs have "canon v = v" "nodup v"
    by (auto split: if_splits)
  with w bs show "cbor_valid lim v \<and> bs = to_canonical v"
    using fixed_canonical by (auto simp: cbor_valid_def)
next
  assume "cbor_valid lim v \<and> bs = to_canonical v"
  then show "decode_canonical bs lim = Inr v"
    using read_value_back [of lim 0 v "[]"] canonical_fixed [of lim 0 v]
    by (auto simp: cbor_valid_def decode_canonical_def)
qed

text \<open>Writing any value within the limits and reading it back orders its maps.\<close>

lemma decode_to_canonical:
  assumes "within lim 0 v" "nodup v"
  shows "decode_canonical (to_canonical v) lim = Inr (canon v)"
  using read_value_back [OF assms(1), of "[]"] assms(2)
  by (simp add: decode_canonical_def to_canonical_canon)

interpretation cbor_wire: strict_codec to_canonical "\<lambda>bs. result_ok (decode_canonical bs lim)"
    "cbor_valid lim" for lim
  by standard (simp_all add: decode_canonical_iff)

interpretation cbor_i64: codec cbor_int as_int in_i64
  by standard (auto simp: cbor_int_def sat_defs)

section \<open>Reading is bounded by its input\<close>

text \<open>How many values a value consists of, and how deep they nest.\<close>

fun cbor_nodes :: "CborValue \<Rightarrow> nat" where
  "cbor_nodes (Array a) = 1 + sum_list (map cbor_nodes a)"
| "cbor_nodes (Map m) = 1 + sum_list (map (\<lambda>(k, v). cbor_nodes k + cbor_nodes v) m)"
| "cbor_nodes _ = 1"

fun cbor_depth :: "CborValue \<Rightarrow> nat" where
  "cbor_depth (Array a) = 1 + fold max (map cbor_depth a) 0"
| "cbor_depth (Map m) = 1 + fold max (map (\<lambda>(k, v). max (cbor_depth k) (cbor_depth v)) m) 0"
| "cbor_depth _ = 1"

lemma take_bytes_shorter: "take_bytes n buf = Inr (b, rest) \<Longrightarrow> length rest \<le> length buf"
  by (auto simp: take_bytes_def split: if_splits)

lemma head_arg_shorter: "head_arg ai buf = Inr (arg, rest) \<Longrightarrow> length rest \<le> length buf"
  by (auto simp: head_arg_def take_be_def split: if_splits sum.splits dest: take_bytes_shorter)

lemma read_head_shorter: "read_head buf = Inr (h, rest) \<Longrightarrow> length rest < length buf"
  by (cases buf) (auto simp: le_imp_less_Suc split: sum.splits dest: head_arg_shorter)

lemma read_string_shorter: "read_string lim n buf = Inr (b, rest) \<Longrightarrow> length rest \<le> length buf"
  by (auto simp: read_string_def split: if_splits dest: take_bytes_shorter)

lemma read_consumes:
  "read_value lim d buf = Inr (v, rest) \<Longrightarrow> cbor_nodes v + length rest \<le> length buf"
  "read_items lim d n buf = Inr (vs, rest) \<Longrightarrow> sum_list (map cbor_nodes vs) + length rest \<le> length buf"
  "read_entries lim d n es buf = Inr (es', rest) \<Longrightarrow>
     sum_list (map (\<lambda>(k, v). cbor_nodes k + cbor_nodes v) es') + length rest \<le>
     sum_list (map (\<lambda>(k, v). cbor_nodes k + cbor_nodes v) es) + length buf"
proof (induction lim d buf and lim d n buf and lim d n es buf
    arbitrary: v rest and vs rest and es' rest
    rule: read_value_read_items_read_entries.induct)
  case (1 lim d buf)
  from "1.prems" obtain m arg r where d: "\<not> d > lim_max_depth lim" and h: "read_head buf = Inr ((m, arg), r)"
    by (auto simp: read_value.simps [of lim d buf] split: if_splits sum.splits)
  note IHs = "1.IH" [OF d h, simplified]
  show ?case
    using "1.prems" d h read_head_shorter [OF h] IHs
    by (auto simp: read_value.simps [of lim d buf] count_def split: if_splits sum.splits
        dest!: read_string_shorter) fastforce+
qed (fastforce split: sum.splits if_splits)+

lemma fold_max_le: "fold max xs (a::nat) \<le> b \<longleftrightarrow> a \<le> b \<and> (\<forall>x \<in> set xs. x \<le> b)"
  by (induction xs arbitrary: a) auto

lemma within_depth: "within lim d v \<Longrightarrow> cbor_depth v + d \<le> lim_max_depth lim + 1"
proof (induction lim d v rule: within.induct)
  case (5 lim d a)
  then have "\<forall>x \<in> set a. cbor_depth x \<le> lim_max_depth lim - d" by (fastforce simp: list_all_iff)
  with 5 show ?case using fold_max_le [of "map cbor_depth a" 0 "lim_max_depth lim - d"] by auto
next
  case (6 lim d m)
  then have "\<forall>(k, v) \<in> set m. max (cbor_depth k) (cbor_depth v) \<le> lim_max_depth lim - d"
    by (fastforce simp: list_all_iff)
  with 6 show ?case
    using fold_max_le [of "map (\<lambda>(k, v). max (cbor_depth k) (cbor_depth v)) m" 0 "lim_max_depth lim - d"] by auto
qed simp_all

section \<open>Properties\<close>

text \<open>
  C10. The strict reader accepts a byte string exactly when it is the canonical encoding of a
  value within the limits whose map keys ascend, and then returns that value: every value
  has one accepted encoding, so no signed artifact has a second form.
\<close>

theorem cbor_reader_exact:
  "decode_canonical bs lim = Inr v \<longleftrightarrow> cbor_valid lim v \<and> to_canonical v = bs"
  using cbor_wire.dec_Some_iff [of bs lim v] by simp

text \<open>
  The writer ignores the order in which the entries of a map were put: any two
  arrangements of entries with distinct encoded keys give the same bytes.
\<close>

theorem cbor_writer_order_independent:
  assumes "mset m = mset m'" and "distinct (map (\<lambda>(k, v). to_canonical k) m)"
  shows "to_canonical (Map m) = to_canonical (Map m')"
proof -
  have "inj_on (\<lambda>(k, v). to_canonical k) (set m)" using assms(2) by (simp add: distinct_map)
  then have "sort_key (\<lambda>(k, v). to_canonical k) m = by_key m'"
    by (intro sort_key_inj_key_eq sorted_keys_by_key) (simp_all add: by_key_def assms(1))
  then have "by_key m = by_key m'" by (simp add: by_key_def)
  then show ?thesis
    using mset_eq_length [OF assms(1)] by (simp only: to_canonical_Map)
qed

theorem cbor_writer_order_independent_witness:
  "to_canonical (Map [(Uint 2, Null), (Uint 1, Bool True)]) =
   to_canonical (Map [(Uint 1, Bool True), (Uint 2, Null)])"
proof (rule cbor_writer_order_independent)
  show "mset [(Uint 2, Null), (Uint 1, Bool True)] = mset [(Uint 1, Bool True), (Uint 2, Null)]"
    by (simp only: mset.simps add_mset_commute)
  show "distinct (map (\<lambda>(k, v). to_canonical k) [(Uint 2, Null), (Uint 1, Bool True)])"
    by code_simp
qed

text \<open>
  C27. Reading ends, after work the attacker has to pay for in bytes: every value the reader
  produces, nested ones included, consumes at least one byte of the input, so the number of
  values never exceeds the bytes received whatever counts the heads announce, and nesting never
  passes the limit on depth.
\<close>

theorem cbor_reader_bounded:
  "(read_value lim d bs = Inr (v, rest) \<longrightarrow>
      cbor_nodes v + length rest \<le> length bs \<and> length rest < length bs \<and> cbor_depth v + d \<le> lim_max_depth lim + 1) \<and>
   (decode_canonical bs lim = Inr w \<longrightarrow> cbor_nodes w \<le> length bs \<and> cbor_depth w \<le> lim_max_depth lim + 1)"
proof -
  have "0 < cbor_nodes v" by (cases v) simp_all
  moreover have "read_value lim 0 bs = Inr (w, [])" if "decode_canonical bs lim = Inr w"
    using that by (auto simp: decode_canonical_def split: sum.splits if_splits)
  ultimately show ?thesis
    using read_consumes(1) [of lim d bs v rest] read_consumes(1) [of lim 0 bs w "[]"]
      within_depth [OF read_within(1)] by fastforce
qed

theorem cbor_reader_bounded_witness:
  "let lim = \<lparr>lim_max_depth = 2, lim_max_items = 4, lim_max_string = 4\<rparr>; w = Array [Uint 1, Array [Uint 2]] in
   decode_canonical [0x82, 1, 0x81, 2] lim = Inr w \<and> cbor_nodes w \<le> 4 \<and> cbor_depth w \<le> 3"
proof -
  let ?lim = "\<lparr>lim_max_depth = 2, lim_max_items = 4, lim_max_string = 4\<rparr>" and ?w = "Array [Uint 1, Array [Uint 2]]"
  have "decode_canonical [0x82, 1, 0x81, 2] ?lim = Inr ?w" by code_simp
  with cbor_reader_bounded [of ?lim 0 "[0x82, 1, 0x81, 2]" ?w "[]" ?w] show ?thesis by (simp add: Let_def)
qed

end
