(* ===== verification/Wire.thy ===== *)
theory Wire
  imports Cbor
begin

text \<open>
  The vocabulary of the wire protocol: \<open>CryptoError\<close> (\<open>copylocker-suite\<close>), \<open>ProtoError\<close>
  and the typed field accessors (\<open>copylocker-proto/src/error.rs\<close>, \<open>field.rs\<close>), and the
  UTF-8 bytes of a string.  A field accessor is shown to find what a map builder put.
\<close>

section \<open>Errors\<close>

datatype CryptoError = Invalid | BadLength | OutputTooLong | HybridStripDetected | RngFailure

fun crypto_error_display :: "CryptoError \<Rightarrow> string" where
  "crypto_error_display Invalid = ''cryptographic verification failed''"
| "crypto_error_display BadLength = ''input length invalid for algorithm''"
| "crypto_error_display OutputTooLong = ''requested key material exceeds KDF limit''"
| "crypto_error_display HybridStripDetected = ''hybrid signature component stripping detected''"
| "crypto_error_display RngFailure = ''randomness source failed''"

text \<open>At the boundary a malformed artifact is not told apart from a forged one.\<close>

fun crypto_from_codec :: "CodecError \<Rightarrow> CryptoError" where
  "crypto_from_codec _ = Invalid"

datatype ProtoError =
    Codec CodecError | Crypto CryptoError | UnsupportedProtoVersion nat | UnsupportedSuite
  | ArtifactKindMismatch | RootPinMismatch | OutsideValidityWindow | EpochRevoked | UnknownEpoch
  | MonotonicityViolation | NonceMismatch | MachineMismatch | FieldOutOfRange nat
  | MalformedLicenseKey

fun proto_error_display :: "ProtoError \<Rightarrow> string" where
  "proto_error_display (Codec e) = ''encoding error: '' @ codec_error_display e"
| "proto_error_display (Crypto e) = ''crypto error: '' @ crypto_error_display e"
| "proto_error_display (UnsupportedProtoVersion v) = ''unsupported protocol version '' @ show_nat v"
| "proto_error_display UnsupportedSuite = ''unsupported crypto suite''"
| "proto_error_display ArtifactKindMismatch = ''artifact kind mismatch''"
| "proto_error_display RootPinMismatch = ''epoch certificate issuer is not a pinned root''"
| "proto_error_display OutsideValidityWindow = ''outside validity window''"
| "proto_error_display ProtoError.EpochRevoked = ''signing epoch revoked''"
| "proto_error_display UnknownEpoch = ''no certificate for referenced epoch''"
| "proto_error_display MonotonicityViolation = ''monotonic counter moved backwards''"
| "proto_error_display NonceMismatch = ''nonce echo mismatch''"
| "proto_error_display MachineMismatch = ''artifact bound to a different machine''"
| "proto_error_display (FieldOutOfRange k) = ''field '' @ show_nat k @ '' out of range''"
| "proto_error_display MalformedLicenseKey = ''malformed license key''"

section \<open>Strings and bytes\<close>

definition str_bytes :: "string \<Rightarrow> bytes" where
  "str_bytes s = map (\<lambda>c. word_of_nat (of_char c)) s"

definition bytes_str :: "bytes \<Rightarrow> string" where
  "bytes_str b = map (\<lambda>w. char_of (unat w)) b"

lemma unat_char: "unat (word_of_nat (of_char c) :: u8) = of_char c"
  by (simp add: unat_byte)

lemma bytes_str_bytes [simp]: "bytes_str (str_bytes s) = s"
  by (simp add: bytes_str_def str_bytes_def o_def unat_char)

lemma str_bytes_inject [simp]: "str_bytes s = str_bytes t \<longleftrightarrow> s = t"
  by (metis bytes_str_bytes)

lemma length_str_bytes [simp]: "length (str_bytes s) = length s"
  by (simp add: str_bytes_def)

lemma ascii_utf8: "\<forall>c \<in> set s. (of_char c :: nat) < 128 \<Longrightarrow> utf8_valid (str_bytes s)"
proof (induction s)
  case Nil
  then show ?case by (simp add: str_bytes_def)
next
  case (Cons c s)
  have "(word_of_nat (of_char c) :: u8) \<le> 0x7f"
    using Cons.prems by (simp add: word_le_nat_alt unat_char)
  with Cons show ?case by (simp add: str_bytes_def)
qed

abbreviation CText :: "string \<Rightarrow> CborValue" where
  "CText s \<equiv> Text (str_bytes s)"

section \<open>Field accessors\<close>

definition as_str :: "CborValue \<Rightarrow> string option" where
  "as_str v = map_option bytes_str (as_text v)"

definition ok_or :: "'a option \<Rightarrow> 'e \<Rightarrow> ('e, 'a) result" where
  "ok_or o' e = (case o' of None \<Rightarrow> Inl e | Some a \<Rightarrow> Inr a)"

definition field_req :: "CborValue \<Rightarrow> u64 \<Rightarrow> (ProtoError, CborValue) result" where
  "field_req m k = ok_or (cbor_get m k) (Codec (MissingField (k mod 256)))"

definition field_opt :: "CborValue \<Rightarrow> u64 \<Rightarrow> CborValue option" where
  "field_opt m k =
     (case cbor_get m k of
        Some v \<Rightarrow> if is_null v then None else Some v
      | None \<Rightarrow> None)"

definition mismatch :: "u64 \<Rightarrow> ProtoError" where
  "mismatch k = Codec (TypeMismatch (k mod 256))"

text \<open>A required field read with a partial reader.\<close>

definition field_with ::
  "(CborValue \<Rightarrow> 'a option) \<Rightarrow> CborValue \<Rightarrow> u64 \<Rightarrow> (ProtoError, 'a) result"
where
  "field_with rd m k =
     (case field_req m k of Inl e \<Rightarrow> Inl e | Inr v \<Rightarrow> ok_or (rd v) (mismatch k))"

definition field_opt_with ::
  "(CborValue \<Rightarrow> 'a option) \<Rightarrow> CborValue \<Rightarrow> u64 \<Rightarrow> (ProtoError, 'a option) result"
where
  "field_opt_with rd m k =
     (case field_opt m k of None \<Rightarrow> Inr None | Some v \<Rightarrow> ok_or (map_option Some (rd v)) (mismatch k))"

definition field_uint :: "CborValue \<Rightarrow> u64 \<Rightarrow> (ProtoError, u64) result" where
  "field_uint m k = field_with as_uint m k"

definition field_narrow :: "nat \<Rightarrow> CborValue \<Rightarrow> u64 \<Rightarrow> (ProtoError, nat) result" where
  "field_narrow mx m k =
     (case field_uint m k of
        Inl e \<Rightarrow> Inl e
      | Inr n \<Rightarrow> if n \<le> mx then Inr n else Inl (FieldOutOfRange (k mod 256)))"

definition field_u8 :: "CborValue \<Rightarrow> u64 \<Rightarrow> (ProtoError, nat) result" where
  "field_u8 m k = field_narrow 255 m k"

definition field_u32 :: "CborValue \<Rightarrow> u64 \<Rightarrow> (ProtoError, u32) result" where
  "field_u32 m k = field_narrow u32_max m k"

definition field_int :: "CborValue \<Rightarrow> u64 \<Rightarrow> (ProtoError, i64) result" where
  "field_int m k = field_with as_int m k"

definition field_opt_uint :: "CborValue \<Rightarrow> u64 \<Rightarrow> (ProtoError, u64 option) result" where
  "field_opt_uint m k = field_opt_with as_uint m k"

definition field_bytes :: "CborValue \<Rightarrow> u64 \<Rightarrow> (ProtoError, bytes) result" where
  "field_bytes m k = field_with as_bytes m k"

definition field_opt_bytes :: "CborValue \<Rightarrow> u64 \<Rightarrow> (ProtoError, bytes option) result" where
  "field_opt_bytes m k = field_opt_with as_bytes m k"

definition field_fixed :: "nat \<Rightarrow> CborValue \<Rightarrow> u64 \<Rightarrow> (ProtoError, bytes) result" where
  "field_fixed n m k =
     (case field_bytes m k of
        Inl e \<Rightarrow> Inl e
      | Inr b \<Rightarrow> if length b = n then Inr b else Inl (FieldOutOfRange (k mod 256)))"

definition field_text :: "CborValue \<Rightarrow> u64 \<Rightarrow> (ProtoError, string) result" where
  "field_text m k = field_with as_str m k"

definition field_opt_text :: "CborValue \<Rightarrow> u64 \<Rightarrow> (ProtoError, string option) result" where
  "field_opt_text m k = field_opt_with as_str m k"

text \<open>\<open>map(..).collect()\<close> into a \<open>Result\<close>: the first error, or all the values.\<close>

fun try_map :: "('a \<Rightarrow> ('e, 'b) result) \<Rightarrow> 'a list \<Rightarrow> ('e, 'b list) result" where
  "try_map f [] = Inr []"
| "try_map f (x # xs) =
     (case f x of
        Inl e \<Rightarrow> Inl e
      | Inr y \<Rightarrow> (case try_map f xs of Inl e \<Rightarrow> Inl e | Inr ys \<Rightarrow> Inr (y # ys)))"

definition field_text_array :: "CborValue \<Rightarrow> u64 \<Rightarrow> (ProtoError, string list) result" where
  "field_text_array m k =
     (case field_with as_array m k of
        Inl e \<Rightarrow> Inl e
      | Inr arr \<Rightarrow> try_map (\<lambda>v. ok_or (as_str v) (mismatch k)) arr)"

definition text_bytes_entry ::
  "u64 \<Rightarrow> CborValue \<times> CborValue \<Rightarrow> (ProtoError, string \<times> bytes) result"
where
  "text_bytes_entry key e =
     (case as_str (fst e) of None \<Rightarrow> Inl (mismatch key) | Some k \<Rightarrow>
      case as_bytes (snd e) of None \<Rightarrow> Inl (mismatch key) | Some v \<Rightarrow> Inr (k, v))"

definition field_text_bytes_map ::
  "CborValue \<Rightarrow> u64 \<Rightarrow> (ProtoError, (string, bytes) bmap) result"
where
  "field_text_bytes_map m key =
     (case field_with as_map m key of
        Inl e \<Rightarrow> Inl e
      | Inr entries \<Rightarrow>
          (case try_map (text_bytes_entry key) entries of
             Inl e \<Rightarrow> Inl e
           | Inr kvs \<Rightarrow> Inr (foldl (\<lambda>acc (k, v). bmap_insert k v acc) [] kvs)))"

definition enc_text_bytes_map :: "(string, bytes) bmap \<Rightarrow> CborValue" where
  "enc_text_bytes_map m = Map (map (\<lambda>(k, v). (CText k, Bytes v)) m)"

definition field_opt_text_bytes_map ::
  "CborValue \<Rightarrow> u64 \<Rightarrow> (ProtoError, (string, bytes) bmap option) result"
where
  "field_opt_text_bytes_map m key =
     (case field_opt m key of
        None \<Rightarrow> Inr None
      | Some _ \<Rightarrow> (case field_text_bytes_map m key of Inl e \<Rightarrow> Inl e | Inr b \<Rightarrow> Inr (Some b)))"

definition field_fixed_array :: "nat \<Rightarrow> CborValue \<Rightarrow> u64 \<Rightarrow> (ProtoError, bytes list) result" where
  "field_fixed_array n m k =
     (case field_with as_array m k of
        Inl e \<Rightarrow> Inl e
      | Inr arr \<Rightarrow>
          try_map (\<lambda>v. case as_bytes v of
                       None \<Rightarrow> Inl (mismatch k)
                     | Some b \<Rightarrow> if length b = n then Inr b else Inl (FieldOutOfRange (k mod 256))) arr)"

definition field_suite_id :: "CborValue \<Rightarrow> u64 \<Rightarrow> (ProtoError, bytes) result" where
  "field_suite_id m k = field_fixed 4 m k"

definition field_license_id :: "CborValue \<Rightarrow> u64 \<Rightarrow> (ProtoError, bytes) result" where
  "field_license_id m k = field_fixed 16 m k"

definition field_machine_id :: "CborValue \<Rightarrow> u64 \<Rightarrow> (ProtoError, bytes) result" where
  "field_machine_id m k = field_fixed 16 m k"

definition field_epoch_id :: "CborValue \<Rightarrow> u64 \<Rightarrow> (ProtoError, bytes) result" where
  "field_epoch_id m k = field_fixed 8 m k"

definition field_fingerprint :: "CborValue \<Rightarrow> u64 \<Rightarrow> (ProtoError, bytes) result" where
  "field_fingerprint m k = field_bytes m k"

section \<open>Protocol constants\<close>

definition PROTO_VER :: nat where "PROTO_VER = 1"
definition MAX_CBOR_DEPTH :: nat where "MAX_CBOR_DEPTH = 16"
definition MAX_BODY_BYTES :: nat where "MAX_BODY_BYTES = 16 * 1024"

definition CLIENT_LIMITS :: Limits where
  "CLIENT_LIMITS = \<lparr>lim_max_depth = MAX_CBOR_DEPTH, lim_max_items = 1024, lim_max_string = 16 * 1024\<rparr>"

definition BULK_LIMITS :: Limits where
  "BULK_LIMITS = \<lparr>lim_max_depth = MAX_CBOR_DEPTH, lim_max_items = 65536, lim_max_string = 1024 * 1024\<rparr>"

text \<open>The \<open>?\<close> operator: an error ends the computation.\<close>

fun bind_ok :: "('e, 'a) result \<Rightarrow> ('a \<Rightarrow> ('e, 'b) result) \<Rightarrow> ('e, 'b) result" where
  "bind_ok (Inl e) f = Inl e"
| "bind_ok (Inr a) f = f a"

lemma bind_ok_Inr_iff: "bind_ok r f = Inr b \<longleftrightarrow> (\<exists>a. r = Inr a \<and> f a = Inr b)"
  by (cases r) simp_all

section \<open>What a builder put is what the accessors find\<close>

lemma ok_or_simps [simp]: "ok_or None e = Inl e" "ok_or (Some a) e = Inr a"
  by (simp_all add: ok_or_def)

lemma ok_or_Inr_iff [simp]: "ok_or r e = Inr a \<longleftrightarrow> r = Some a"
  by (cases r) simp_all

lemma as_str_CText [simp]: "as_str (CText s) = Some s"
  by (simp add: as_str_def)

lemma cbor_get_Nil [simp]: "cbor_get (Map []) k = None"
  by (simp add: cbor_get_def)

lemma cbor_get_Cons [simp]:
  "cbor_get (Map ((Uint j, v) # m)) k = (if j = k then Some v else cbor_get (Map m) k)"
  by (simp add: cbor_get_def)

lemma cbor_get_append:
  "cbor_get (Map (m @ n)) k = (case cbor_get (Map m) k of Some v \<Rightarrow> Some v | None \<Rightarrow> cbor_get (Map n) k)"
  by (induction m) (auto simp: cbor_get_def)

lemma try_map_ok: "(\<And>x. x \<in> set xs \<Longrightarrow> f x = Inr (g x)) \<Longrightarrow> try_map f xs = Inr (map g xs)"
  by (induction xs) simp_all

lemma try_map_text: "try_map (\<lambda>v. ok_or (as_str v) e) (map CText ss) = Inr ss"
  by (induction ss) simp_all

lemmas field_defs =
  field_req_def field_opt_def field_with_def field_opt_with_def field_uint_def field_narrow_def
  field_u8_def field_u32_def field_int_def field_opt_uint_def field_bytes_def field_opt_bytes_def
  field_fixed_def field_text_def field_opt_text_def field_suite_id_def field_license_id_def
  field_machine_id_def field_epoch_id_def field_fingerprint_def

end
