(* ===== verification/Wire_Fields.thy ===== *)
theory Wire_Fields
  imports Wire Ordered
begin

text \<open>
  Maps keyed by small integers, as every signed or transported record uses them: the fields
  of a record in the order the sources put them, what the accessors find in such a map once
  it has been written and read back, and the interface \<open>wire_record\<close> of a record with an
  encoder and a decoder (the \<open>artifact_impl!\<close> macro of \<open>artifacts.rs\<close>).
\<close>

section \<open>Fields of a record\<close>

definition put_all :: "(u64 \<times> CborValue option) list \<Rightarrow> CborValue" where
  "put_all fs = build (foldl (\<lambda>mb (k, ov). put_opt k ov mb) [] fs)"

definition entries_of :: "(u64 \<times> CborValue option) list \<Rightarrow> (CborValue \<times> CborValue) list" where
  "entries_of fs = concat (map (\<lambda>(k, ov). case ov of None \<Rightarrow> [] | Some v \<Rightarrow> [(Uint k, v)]) fs)"

lemma put_all_entries: "put_all fs = Map (entries_of fs)"
proof -
  have "foldl (\<lambda>mb (k, ov). put_opt k ov mb) mb fs = mb @ entries_of fs" for mb
    by (induction fs arbitrary: mb) (auto simp: entries_of_def put_opt_def put_def split: option.splits)
  then show ?thesis by (simp add: put_all_def build_def)
qed

lemma as_map_fields [simp]: "as_map (put_all fs) = Some (entries_of fs)"
  by (simp add: put_all_entries)

lemma entries_keys: "distinct (map fst fs) \<Longrightarrow> distinct (map fst (entries_of fs))"
proof (induction fs)
  case (Cons f fs)
  have "fst ` set (entries_of gs) \<subseteq> Uint ` fst ` set gs" for gs
    by (force simp: entries_of_def split: option.splits)
  with Cons show ?case by (force simp: entries_of_def split: option.splits prod.splits)
qed (simp add: entries_of_def)

lemma cbor_get_map_of: "cbor_get (Map m) k = map_of m (Uint k)"
proof -
  have "as_uint e = Some k \<longleftrightarrow> e = Uint k" for e by (cases e) auto
  then have "find (\<lambda>(ek, _). as_uint ek = Some k) m = find (\<lambda>e. fst e = Uint k) m"
    by (simp add: case_prod_unfold)
  moreover have "map_option snd (find (\<lambda>e. fst e = a) m) = map_of m a" for a
    by (induction m) auto
  ultimately show ?thesis by (simp add: cbor_get_def)
qed

definition field_value :: "(u64 \<times> CborValue option) list \<Rightarrow> u64 \<Rightarrow> CborValue option" where
  "field_value fs k = (case map_of fs k of None \<Rightarrow> None | Some ov \<Rightarrow> ov)"

lemma field_value_Cons [simp]:
  "field_value [] k = None"
  "field_value ((j, ov) # fs) k = (if j = k then ov else field_value fs k)"
  by (simp_all add: field_value_def)

lemma map_of_entries: "distinct (map fst fs) \<Longrightarrow> map_of (entries_of fs) (Uint k) = field_value fs k"
proof (induction fs)
  case (Cons f fs)
  obtain j ov where f: "f = (j, ov)" by fastforce
  have "field_value fs j = None" using Cons.prems f
    by (force simp: field_value_def split: option.splits dest: map_of_SomeD)
  with Cons f show ?case by (auto simp: entries_of_def split: option.splits)
qed (simp add: entries_of_def)

lemma get_fields: "distinct (map fst fs) \<Longrightarrow> cbor_get (put_all fs) k = field_value fs k"
  by (simp add: put_all_entries cbor_get_map_of map_of_entries)

text \<open>After writing and reading, every field holds its value in reading order.\<close>

lemma get_canon_fields:
  assumes "distinct (map fst fs)"
  shows "cbor_get (canon (put_all fs)) k = map_option canon (field_value fs k)"
proof -
  let ?m = "entries_of fs"
  have keys: "canon (fst e) = fst e" if "e \<in> set ?m" for e
    using that by (auto simp: entries_of_def split: option.splits)
  have "distinct (map fst (by_key ?m))" using entries_keys [OF assms] by simp
  then have same: "map_of (by_key ?m) = map_of ?m"
    using entries_keys [OF assms] by (intro map_of_inject_set [THEN iffD2]) simp_all
  have "map (\<lambda>(k, v). (canon k, canon v)) (by_key ?m) = map (\<lambda>(k, v). (k, canon v)) (by_key ?m)"
    using keys by (intro map_cong) (auto simp: split_beta)
  then have "map_of (map (\<lambda>(k, v). (canon k, canon v)) (by_key ?m)) (Uint k) = map_option canon (map_of (by_key ?m) (Uint k))"
    by (simp only: map_of_map o_apply)
  then show ?thesis
    by (simp only: put_all_entries canon_Map cbor_get_map_of same map_of_entries [OF assms])
qed

lemma as_map_canon_fields: "\<exists>m. as_map (canon (put_all fs)) = Some m"
  by (simp add: put_all_entries canon_Map del: canon.simps)

lemma nodup_fields:
  assumes "distinct (map fst fs)" "list_all (\<lambda>(k, ov). pred_option nodup ov) fs"
  shows "nodup (put_all fs)"
proof -
  have keys: "canon (fst e) = fst e \<and> nodup (fst e) \<and> nodup (snd e)" if "e \<in> set (entries_of fs)" for e
    using that assms(2) by (force simp: entries_of_def list_all_iff split: option.splits)
  then have "map (\<lambda>(k, v). canon k) (entries_of fs) = map fst (entries_of fs)"
    by (intro map_cong) auto
  then have "distinct (map (\<lambda>(k, v). canon k) (entries_of fs))"
    using entries_keys [OF assms(1)] by (simp only:)
  with keys show ?thesis by (auto simp: put_all_entries list_all_iff)
qed

lemma within_put_all:
  assumes "length fs \<le> lim_max_items lim" "lim_max_items lim \<le> u64_max"
  shows "within lim 0 (put_all fs) \<longleftrightarrow>
    list_all (\<lambda>(k, ov). pred_option (\<lambda>v. within lim 1 (Uint k) \<and> within lim 1 v) ov) fs"
proof -
  have "length (entries_of fs) \<le> length fs"
    by (induction fs) (auto simp: entries_of_def split: option.splits)
  moreover have "list_all (\<lambda>(k, v). P k \<and> Q v) (entries_of fs) \<longleftrightarrow>
      list_all (\<lambda>(k, ov). pred_option (\<lambda>v. P (Uint k) \<and> Q v) ov) fs" for P Q
    by (induction fs) (auto simp: entries_of_def split: option.splits)
  ultimately show ?thesis using assms by (simp add: put_all_entries)
qed

text \<open>What is written determines every field.\<close>

lemma put_all_determines:
  assumes "to_canonical (put_all fs) = to_canonical (put_all gs)"
    and "within lim 0 (put_all fs)" "within lim 0 (put_all gs)" "nodup (put_all fs)" "nodup (put_all gs)"
    and "distinct (map fst fs)" "distinct (map fst gs)"
  shows "map_option canon (field_value fs k) = map_option canon (field_value gs k)"
proof -
  have "canon (put_all fs) = canon (put_all gs)"
    using read_value_back [OF assms(2), of "[]"] read_value_back [OF assms(3), of "[]"] assms(1,4,5) by simp
  then show ?thesis using get_canon_fields [OF assms(6)] get_canon_fields [OF assms(7)] by metis
qed

section \<open>Maps keyed by text or numbers\<close>

lemma canon_plain_keys:
  assumes "bmap_wf m" "\<And>k. canon (kenc k) = kenc k"
  shows "\<exists>kvs. canon (Map (map (\<lambda>(k, v). (kenc k, enc v)) m)) = Map (map (\<lambda>(k, v). (kenc k, canon (enc v))) kvs) \<and>
    bmap_copy kvs [] = m \<and> set kvs = set m \<and> distinct (map fst kvs)"
proof -
  define kvs where "kvs = sort_key (\<lambda>kv. to_canonical (kenc (fst kv))) m"
  have e: "by_key (map (\<lambda>(k, v). (kenc k, enc v)) m) = map (\<lambda>(k, v). (kenc k, enc v)) kvs"
    by (simp add: by_key_def kvs_def sort_key_map case_prod_unfold)
  have set: "set kvs = set m" by (simp add: kvs_def)
  have "mset (map fst kvs) = mset (map fst m)" by (simp add: kvs_def)
  then have distinct: "distinct (map fst kvs)"
    using assms(1) by (metis bmap_wf_def mset_eq_imp_distinct_iff strict_sorted_iff)
  then have "bmap_copy kvs [] = m" using assms(1) set by (intro bmap_copy_entries)
  moreover have "canon (Map (map (\<lambda>(k, v). (kenc k, enc v)) m)) = Map (map (\<lambda>(k, v). (kenc k, canon (enc v))) kvs)"
    unfolding canon_Map e by (auto simp: assms(2))
  ultimately show ?thesis using set distinct by blast
qed

lemma nodup_plain_keys:
  assumes "bmap_wf m" "\<And>k. canon (kenc k) = kenc k" "inj kenc" "\<And>k. nodup (kenc k)"
    and "\<And>k v. (k, v) \<in> set m \<Longrightarrow> nodup (enc v)"
  shows "nodup (Map (map (\<lambda>(k, v). (kenc k, enc v)) m))"
proof -
  have "map (\<lambda>(k, v). canon k) (map (\<lambda>(k, v). (kenc k, enc v)) m) = map kenc (map fst m)"
    by (auto simp: assms(2))
  moreover have "distinct (map fst m)" using assms(1) by (simp add: bmap_wf_def strict_sorted_iff)
  ultimately have "distinct (map (\<lambda>(k, v). canon k) (map (\<lambda>(k, v). (kenc k, enc v)) m))"
    using assms(3) by (simp only: distinct_map [of kenc]) (simp add: inj_on_def)
  with assms(4,5) show ?thesis by (auto simp: list_all_iff)
qed

lemma inj_CText: "inj CText" and inj_Uint: "inj Uint"
  by (simp_all add: inj_def)

lemma canon_CText: "canon (CText s) = CText s" and canon_Uint: "canon (Uint n) = Uint n"
  by simp_all

lemma text_bytes_map_canon:
  assumes "bmap_wf m" "cbor_get v key = Some (canon (enc_text_bytes_map m))"
  shows "field_text_bytes_map v key = Inr m"
proof -
  obtain kvs where c: "canon (enc_text_bytes_map m) = Map (map (\<lambda>(k, v). (CText k, canon (Bytes v))) kvs)"
    and m: "bmap_copy kvs [] = m"
    using canon_plain_keys [OF assms(1), where kenc = CText and enc = Bytes, OF canon_CText] unfolding enc_text_bytes_map_def by blast
  have "try_map (text_bytes_entry key) (map (\<lambda>(k, v). (CText k, Bytes v)) kvs) = Inr kvs"
    by (induction kvs) (auto simp: text_bytes_entry_def)
  with m assms(2) show ?thesis
    by (simp add: field_text_bytes_map_def field_with_def field_req_def c bmap_copy_def)
qed

lemma nodup_text_bytes_map: "bmap_wf m \<Longrightarrow> nodup (enc_text_bytes_map m)"
  unfolding enc_text_bytes_map_def by (rule nodup_plain_keys) (simp_all add: inj_CText)

lemma canon_comp [simp]:
  "canon \<circ> (\<lambda>s. CText s) = (\<lambda>s. CText s)" "canon \<circ> Bytes = Bytes" "canon \<circ> Uint = Uint" "canon \<circ> Bool = Bool"
  by (simp_all add: fun_eq_iff)

lemma nodup_array [simp]: "list_all nodup (map CText ss)" "list_all nodup (map Bytes bs)"
  by (simp_all add: list_all_iff)

lemma canon_cbor_int [simp]: "canon (cbor_int n) = cbor_int n" "nodup (cbor_int n)" "is_null (cbor_int n) = False"
  by (simp_all add: cbor_int_def)

lemma as_int_int [simp]: "in_i64 n \<Longrightarrow> as_int (cbor_int n) = Some n"
  by (rule cbor_i64.dec_enc)

section \<open>Optional fields\<close>

definition field_opt_decode ::
  "(CborValue \<Rightarrow> (ProtoError, 'a) result) \<Rightarrow> CborValue \<Rightarrow> u64 \<Rightarrow> (ProtoError, 'a option) result"
where
  "field_opt_decode dec v k =
     (case field_opt v k of None \<Rightarrow> Inr None | Some x \<Rightarrow> bind_ok (dec x) (\<lambda>a. Inr (Some a)))"

definition field_opt_narrow :: "nat \<Rightarrow> CborValue \<Rightarrow> u64 \<Rightarrow> (ProtoError, nat option) result" where
  "field_opt_narrow mx v k =
     bind_ok (field_opt_uint v k)
       (\<lambda>o'. case o' of
                None \<Rightarrow> Inr None
              | Some n \<Rightarrow> if n \<le> mx then Inr (Some n) else Inl (FieldOutOfRange k))"

definition opt_read :: "(CborValue \<Rightarrow> 'a option) \<Rightarrow> u64 \<Rightarrow> CborValue option \<Rightarrow> (ProtoError, 'a option) result" where
  "opt_read rd k g =
     (case g of
        None \<Rightarrow> Inr None
      | Some v \<Rightarrow> if is_null v then Inr None else ok_or (map_option Some (rd v)) (mismatch k))"

lemma field_opt_with_read: "field_opt_with rd v k = opt_read rd k (cbor_get v k)"
  by (auto simp: field_opt_with_def field_opt_def opt_read_def split: option.splits)

lemma opt_read_back [simp]:
  "opt_read as_uint k (map_option Uint n) = Inr n"
  "opt_read as_str k (map_option CText s) = Inr s"
  "opt_read as_bytes k (map_option Bytes b) = Inr b"
  "opt_read as_bool k (map_option Bool c) = Inr c"
  by (cases n; cases s; cases b; cases c; simp add: opt_read_def)+

lemma opt_narrow_back:
  "pred_option (\<lambda>n. n \<le> mx) n \<Longrightarrow> cbor_get v k = map_option Uint n \<Longrightarrow> field_opt_narrow mx v k = Inr n"
  by (cases n) (simp_all add: field_opt_narrow_def field_opt_uint_def field_opt_with_read opt_read_def)

lemma opt_decode_back:
  assumes "cbor_get v k = map_option enc a" "\<And>x. a = Some x \<Longrightarrow> dec (enc x) = Inr x \<and> \<not> is_null (enc x)"
  shows "field_opt_decode dec v k = Inr a"
  using assms by (cases a) (simp_all add: field_opt_decode_def field_opt_def)

lemma opt_text_bytes_map_canon:
  assumes "pred_option bmap_wf m" "cbor_get v key = map_option (\<lambda>x. canon (enc_text_bytes_map x)) m"
  shows "field_opt_text_bytes_map v key = Inr m"
proof (cases m)
  case None
  with assms(2) show ?thesis by (simp add: field_opt_text_bytes_map_def field_opt_def)
next
  case (Some x)
  moreover have "\<not> is_null (canon (enc_text_bytes_map x))" by (simp add: enc_text_bytes_map_def)
  ultimately show ?thesis
    using assms text_bytes_map_canon [of x v key] by (simp add: field_opt_text_bytes_map_def field_opt_def)
qed

lemma try_map_fixed:
  "list_all (\<lambda>b. length b = n) bs \<Longrightarrow>
   try_map (\<lambda>v. case as_bytes v of None \<Rightarrow> Inl e | Some b \<Rightarrow> if length b = n then Inr b else Inl e') (map Bytes bs) = Inr bs"
  by (induction bs) simp_all

lemma try_map_bytes: "try_map (\<lambda>v. ok_or (as_bytes v) e) (map Bytes bs) = Inr bs"
  by (induction bs) simp_all

lemmas map_canon_option [simp] = option.map_comp [of canon]
lemmas pred_nodup_option [simp] = option.pred_map [of nodup]

lemma nodup_comp [simp]:
  "pred_option (nodup \<circ> (\<lambda>s. CText s)) s" "pred_option (nodup \<circ> Bytes) b"
  "pred_option (nodup \<circ> Uint) n" "pred_option (nodup \<circ> Bool) c"
  by (simp_all add: option.pred_set)

lemmas read_defs =
  field_req_def field_with_def field_opt_with_read field_uint_def field_narrow_def field_u8_def
  field_u32_def field_int_def field_opt_uint_def field_bytes_def field_opt_bytes_def field_fixed_def
  field_text_def field_opt_text_def field_suite_id_def field_license_id_def field_machine_id_def
  field_epoch_id_def field_fingerprint_def field_text_array_def field_fixed_array_def
  try_map_text try_map_fixed try_map_bytes

section \<open>Bounded decoding\<close>

text \<open>
  Every decoder of a message from outside bounds the input first; some then insist on the
  number of entries.
\<close>

definition decode_bounded :: "nat \<Rightarrow> Limits \<Rightarrow> bytes \<Rightarrow> (ProtoError, CborValue) result" where
  "decode_bounded mx limits bs =
     (if length bs > mx then Inl (Codec TooLong) else map_err Codec (decode_canonical bs limits))"

definition has_entries :: "nat \<Rightarrow> CborValue \<Rightarrow> bool" where
  "has_entries n v \<longleftrightarrow> (case as_map v of None \<Rightarrow> False | Some m \<Rightarrow> length m = n)"

lemma decode_bounded_written:
  assumes "length (to_canonical v) \<le> mx" "within limits 0 v" "nodup v"
  shows "decode_bounded mx limits (to_canonical v) = Inr (canon v)"
  using assms by (simp add: decode_bounded_def decode_to_canonical)

lemma has_entries_canon: "has_entries n (canon (put_all fs)) \<longleftrightarrow> length (entries_of fs) = n"
  by (simp add: has_entries_def put_all_entries canon_Map del: canon.simps)

lemma length_put_all:
  "length (to_canonical (put_all fs)) =
     length (write_head 5 (length (entries_of fs))) +
     sum_list (map (\<lambda>(k, v). length (to_canonical k) + length (to_canonical v)) (entries_of fs))"
proof -
  let ?len = "\<lambda>(k, v). length (to_canonical k) + length (to_canonical v)"
  have "mset (map ?len (by_key m)) = mset (map ?len m)" for m by (simp add: by_key_def)
  then have "sum_list (map ?len (by_key m)) = sum_list (map ?len m)" for m by (metis sum_mset_sum_list)
  then show ?thesis
    by (simp add: put_all_entries to_canonical_Map length_concat o_def case_prod_unfold del: to_canonical.simps)
qed

section \<open>Records on the wire\<close>

definition record_encode :: "('a \<Rightarrow> CborValue) \<Rightarrow> 'a \<Rightarrow> bytes" where
  "record_encode to_value a = to_canonical (to_value a)"

definition record_parse ::
  "(CborValue \<Rightarrow> (ProtoError, 'a) result) \<Rightarrow> CborValue \<Rightarrow> (ProtoError, 'a) result"
where
  "record_parse from_value v = (if as_map v = None then Inl (Codec Malformed) else from_value v)"

definition record_decode ::
  "(CborValue \<Rightarrow> (ProtoError, 'a) result) \<Rightarrow> Limits \<Rightarrow> bytes \<Rightarrow> (ProtoError, 'a) result"
where
  "record_decode from_value limits bs =
     bind_ok (map_err Codec (decode_canonical bs limits)) (record_parse from_value)"

fun codec_of_proto :: "ProtoError \<Rightarrow> CodecError" where
  "codec_of_proto (Codec c) = c"
| "codec_of_proto _ = Malformed"

definition from_canonical ::
  "(CborValue \<Rightarrow> (ProtoError, 'a) result) \<Rightarrow> Limits \<Rightarrow> bytes \<Rightarrow> (CodecError, 'a) result"
where
  "from_canonical from_value limits bs =
     bind_ok (decode_canonical bs limits) (\<lambda>v. map_err codec_of_proto (record_parse from_value v))"

text \<open>
  What a record promises: its fields have the ranges of their types (\<open>ok\<close>), its value has
  no duplicate keys, and its decoder inverts its encoder on what the reader returns.
\<close>

locale wire_record =
  fixes to_value :: "'a \<Rightarrow> CborValue"
    and from_value :: "CborValue \<Rightarrow> (ProtoError, 'a) result"
    and limits :: Limits
    and ok :: "'a \<Rightarrow> bool"
  assumes value_nodup: "ok a \<Longrightarrow> nodup (to_value a)"
    and value_map: "\<exists>m. as_map (canon (to_value a)) = Some m"
    and value_back: "ok a \<Longrightarrow> from_value (canon (to_value a)) = Inr a"
begin

abbreviation fits :: "'a \<Rightarrow> bool" where
  "fits a \<equiv> ok a \<and> within limits 0 (to_value a)"

lemma parse_back: "ok a \<Longrightarrow> record_parse from_value (canon (to_value a)) = Inr a"
  using value_map [of a] value_back [of a] by (auto simp: record_parse_def)

lemma decode_encode: "fits a \<Longrightarrow> record_decode from_value limits (record_encode to_value a) = Inr a"
  by (simp add: record_decode_def record_encode_def decode_to_canonical value_nodup parse_back)

lemma from_canonical_encode: "fits a \<Longrightarrow> from_canonical from_value limits (record_encode to_value a) = Inr a"
  by (simp add: from_canonical_def record_encode_def decode_to_canonical value_nodup parse_back)

end

sublocale wire_record \<subseteq> codec "record_encode to_value" "\<lambda>bs. result_ok (record_decode from_value limits bs)" fits
proof
  fix a assume "fits a"
  then show "result_ok (record_decode from_value limits (record_encode to_value a)) = Some a"
    unfolding decode_encode [OF \<open>fits a\<close>] by simp
qed

end
