(* ===== verification/Device.thy ===== *)
theory Device
  imports Wire_Fields
begin

text \<open>
  Device attributes and fingerprints: \<open>copylocker-suite/src/device.rs\<close> (normalisation and
  the canonical bytes a fingerprint is computed over), the transport encoding of attributes
  in \<open>copylocker-proto/src/requests.rs\<close>, and the weighted similarity of
  \<open>copylocker-suite-std/src/fingerprint.rs\<close>.  The HMAC of the fingerprint is a parameter.
\<close>

section \<open>Attributes\<close>

datatype AttrValue = Absent | Text string | Set "string list" | Int i64

definition TAG_ABSENT :: nat where "TAG_ABSENT = 0"
definition TAG_TEXT :: nat where "TAG_TEXT = 1"
definition TAG_SET :: nat where "TAG_SET = 2"
definition TAG_INT :: nat where "TAG_INT = 3"

lemmas tag_defs = TAG_ABSENT_def TAG_TEXT_def TAG_SET_def TAG_INT_def

fun encode_attr :: "AttrValue \<Rightarrow> CborValue" where
  "encode_attr Absent = Array [Uint TAG_ABSENT]"
| "encode_attr (AttrValue.Text t) = Array [Uint TAG_TEXT, CText t]"
| "encode_attr (Set items) = Array [Uint TAG_SET, Array (map CText items)]"
| "encode_attr (AttrValue.Int n) = Array [Uint TAG_INT, cbor_int n]"

definition text_step :: "string \<times> bool \<Rightarrow> char \<Rightarrow> string \<times> bool" where
  "text_step st ch =
     (let (out, pending_space) = st in
      if is_whitespace ch then (out, True)
      else (out @ (if pending_space \<and> out \<noteq> [] then '' '' else []) @ [to_lowercase ch], False))"

definition normalise :: "string \<Rightarrow> string" where
  "normalise raw = fst (foldl text_step ([], False) (trim raw))"

definition attr_text :: "string \<Rightarrow> AttrValue" where
  "attr_text raw = AttrValue.Text (normalise raw)"

definition attr_set :: "string list \<Rightarrow> AttrValue" where
  "attr_set items = Set (remdups_adj (sort (filter (\<lambda>s. s \<noteq> []) (map normalise items))))"

datatype EnvClass = Bare | VirtualMachine | Container | Browser

fun env_class_as_str :: "EnvClass \<Rightarrow> string" where
  "env_class_as_str Bare = ''bare''"
| "env_class_as_str VirtualMachine = ''vm''"
| "env_class_as_str Container = ''container''"
| "env_class_as_str Browser = ''browser''"

type_synonym DeviceAttrs = "(string, AttrValue) bmap"

definition ATTR_ENV_CLASS :: string where "ATTR_ENV_CLASS = ''env_class''"

definition attrs_insert :: "string \<Rightarrow> AttrValue \<Rightarrow> DeviceAttrs \<Rightarrow> DeviceAttrs" where
  "attrs_insert k v a = bmap_insert k v a"

definition set_env_class :: "EnvClass \<Rightarrow> DeviceAttrs \<Rightarrow> DeviceAttrs" where
  "set_env_class c a = attrs_insert ATTR_ENV_CLASS (attr_text (env_class_as_str c)) a"

definition env_class :: "DeviceAttrs \<Rightarrow> EnvClass" where
  "env_class a =
     (case bmap_get a ATTR_ENV_CLASS of
        Some (AttrValue.Text t) \<Rightarrow>
          if t = ''vm'' then VirtualMachine
          else if t = ''container'' then Container
          else if t = ''browser'' then Browser
          else Bare
      | _ \<Rightarrow> Bare)"

definition get_present :: "DeviceAttrs \<Rightarrow> string \<Rightarrow> AttrValue option" where
  "get_present a k =
     (case bmap_get a k of
        None \<Rightarrow> None
      | Some Absent \<Rightarrow> None
      | Some v \<Rightarrow> Some v)"

definition attrs_value :: "DeviceAttrs \<Rightarrow> CborValue" where
  "attrs_value a = Map (map (\<lambda>(k, v). (CText k, encode_attr v)) a)"

definition canonical_bytes :: "DeviceAttrs \<Rightarrow> bytes" where
  "canonical_bytes a = to_canonical (attrs_value a)"

section \<open>Fingerprints and similarity\<close>

definition hmac_compute ::
  "(bytes \<Rightarrow> (bytes \<Rightarrow> bytes) option) \<Rightarrow> bytes \<Rightarrow> DeviceAttrs \<Rightarrow> Fingerprint"
where
  "hmac_compute new_from_slice salt a =
     (case new_from_slice salt of
        None \<Rightarrow> replicate 32 0
      | Some mac \<Rightarrow> mac (canonical_bytes a))"

definition WEIGHTS :: "(string \<times> nat) list" where
  "WEIGHTS =
     [(''machine_guid'', 40), (''cpu_id'', 15), (''board_serial'', 15), (''disk_serial'', 10),
      (''os_install_id'', 10), (''platform_uuid'', 45), (''hw_model_serial'', 20),
      (''boot_volume_uuid'', 15), (''machine_id'', 40), (''dmi_product_uuid'', 20),
      (''rootfs_uuid'', 15), (''web_device_id'', 60), (''ua_platform'', 15),
      (''hardware_concurrency'', 10), (''mac_addrs'', 10), (''hostname'', 5), (''timezone'', 5)]"

fun value_score :: "AttrValue \<Rightarrow> AttrValue \<Rightarrow> nat" where
  "value_score (AttrValue.Text x) (AttrValue.Text y) = (if x = y then 1 else 0) * 100"
| "value_score (AttrValue.Int x) (AttrValue.Int y) = (if x = y then 1 else 0) * 100"
| "value_score (Set x) (Set y) =
     (if x = [] \<and> y = [] then 100
      else let inter = length (filter (\<lambda>i. i \<in> set y) x);
               un = length x + length y - inter
           in if un = 0 then 100
              else let q = inter * 100 div un in if q \<le> 255 then q else 100)"
| "value_score _ _ = 0"

definition hmac_step :: "DeviceAttrs \<Rightarrow> DeviceAttrs \<Rightarrow> nat \<times> nat \<Rightarrow> string \<times> nat \<Rightarrow> nat \<times> nat" where
  "hmac_step a b acc kw =
     (let (total, matched) = acc; (key, weight) = kw in
      case (get_present a key, get_present b key) of
        (None, None) \<Rightarrow> (total, matched)
      | (Some x, Some y) \<Rightarrow> (total + weight, matched + weight * value_score x y div 100)
      | _ \<Rightarrow> (total + weight, matched))"

text \<open>The score of the accumulated weights, \<open>0\<close> when nothing was comparable.\<close>

definition score_of :: "nat \<times> nat \<Rightarrow> nat" where
  "score_of acc =
     (let (total, matched) = acc in
      if total = 0 then 0
      else let q = matched * 100 div total in if q \<le> 255 then q else 100)"

definition hmac_similarity :: "DeviceAttrs \<Rightarrow> DeviceAttrs \<Rightarrow> nat" where
  "hmac_similarity a b = score_of (foldl (hmac_step a b) (0, 0) WEIGHTS)"

section \<open>Transport of attributes\<close>

definition encode_attrs :: "DeviceAttrs \<Rightarrow> CborValue" where
  "encode_attrs a =
     Map (map (\<lambda>(k, v).
       (CText k,
        case v of
          Absent \<Rightarrow> Array [Uint 0]
        | AttrValue.Text t \<Rightarrow> Array [Uint 1, CText t]
        | Set items \<Rightarrow> Array [Uint 2, Array (map CText items)]
        | AttrValue.Int n \<Rightarrow> Array [Uint 3, cbor_int n])) a)"

abbreviation malformed :: ProtoError where "malformed \<equiv> Codec Malformed"

definition decode_attr :: "CborValue \<Rightarrow> (ProtoError, AttrValue) result" where
  "decode_attr val =
     (case as_array val of None \<Rightarrow> Inl malformed | Some arr \<Rightarrow>
      case (case arr of [] \<Rightarrow> None | t # _ \<Rightarrow> as_uint t) of None \<Rightarrow> Inl malformed | Some tag \<Rightarrow>
      case (tag, case arr of _ # p # _ \<Rightarrow> Some p | _ \<Rightarrow> None) of
        (t, None) \<Rightarrow> if t = 0 then Inr Absent else Inl (Codec UnknownDiscriminant)
      | (t, Some p) \<Rightarrow>
          if t = 1 then
            (case as_str p of None \<Rightarrow> Inl malformed | Some s \<Rightarrow> Inr (AttrValue.Text s))
          else if t = 2 then
            (case as_array p of None \<Rightarrow> Inl malformed | Some items \<Rightarrow>
             case try_map (\<lambda>i. ok_or (as_str i) malformed) items of
               Inl e \<Rightarrow> Inl e
             | Inr v \<Rightarrow> Inr (Set v))
          else if t = 3 then
            (case as_int p of None \<Rightarrow> Inl malformed | Some n \<Rightarrow> Inr (AttrValue.Int n))
          else Inl (Codec UnknownDiscriminant))"

definition decode_attrs_step ::
  "DeviceAttrs \<Rightarrow> CborValue \<times> CborValue \<Rightarrow> (ProtoError, DeviceAttrs) result"
where
  "decode_attrs_step out e =
     (case as_str (fst e) of None \<Rightarrow> Inl malformed | Some key \<Rightarrow>
      case decode_attr (snd e) of Inl err \<Rightarrow> Inl err | Inr v \<Rightarrow> Inr (attrs_insert key v out))"

definition decode_attrs :: "CborValue \<Rightarrow> (ProtoError, DeviceAttrs) result" where
  "decode_attrs v =
     (case as_map v of None \<Rightarrow> Inl malformed | Some entries \<Rightarrow> try_fold decode_attrs_step [] entries)"

section \<open>Normalisation\<close>

text \<open>Normalising a text is lower-casing its words and joining them with single blanks.\<close>

definition words_text :: "string \<Rightarrow> string" where
  "words_text s = join '' '' (map (map to_lowercase) (split_whitespace s))"

lemma join_append_word:
  "ws \<noteq> [] \<Longrightarrow> join sep (ws @ [w]) = join sep ws @ sep @ w"
  by (induction sep ws rule: join.induct) simp_all

lemma join_extend_last:
  "ws \<noteq> [] \<Longrightarrow> join sep (butlast ws @ [last ws @ w]) = join sep ws @ w"
proof (induction sep ws rule: join.induct)
  case (3 sep x y ys)
  then show ?case by (cases ys) simp_all
qed simp_all

lemma words_text_eq_Nil: "words_text s = [] \<longleftrightarrow> split_whitespace s = []"
proof -
  have "join '' '' ws = [] \<longleftrightarrow> ws = []" if "\<forall>w \<in> set ws. w \<noteq> []" for ws
    using that by (cases "('' '', ws)" rule: join.cases) auto
  from this [of "map (map to_lowercase) (split_whitespace s)"] show ?thesis
    by (auto simp: words_text_def dest: split_whitespace_words)
qed

text \<open>After reading a prefix, the output is the normal form of the prefix.\<close>

lemma text_fold:
  "foldl text_step ([], False) s = (words_text s, s \<noteq> [] \<and> is_whitespace (last s))"
proof (induction s rule: rev_induct)
  case Nil
  then show ?case by (simp add: words_text_def)
next
  case (snoc c s)
  let ?ws = "map (map to_lowercase) (split_whitespace s)"
  consider "is_whitespace c" | "\<not> is_whitespace c" "s = [] \<or> is_whitespace (last s)"
    | "\<not> is_whitespace c" "s \<noteq> []" "\<not> is_whitespace (last s)" by blast
  then show ?case
  proof cases
    case 1
    with snoc show ?thesis by (simp add: text_step_def words_text_def split_whitespace_snoc)
  next
    case 2
    with snoc words_text_eq_Nil [of s] show ?thesis
      by (cases "split_whitespace s = []")
        (auto simp: text_step_def split_whitespace_snoc join_append_word words_text_def)
  next
    case 3
    then have ne: "?ws \<noteq> []" using split_whitespace_empty by simp
    have "join '' '' (butlast ?ws @ [map to_lowercase (last (split_whitespace s)) @ [to_lowercase c]])
        = join '' '' ?ws @ [to_lowercase c]"
      using join_extend_last [OF ne, of "'' ''" "[to_lowercase c]"] ne by (simp add: last_map)
    with 3 snoc show ?thesis
      by (simp add: text_step_def split_whitespace_snoc words_text_def map_butlast)
  qed
qed

lemma normalise_words: "normalise s = words_text s"
  by (simp add: normalise_def text_fold words_text_def split_whitespace_trim)

lemma normalise_idem: "normalise (normalise s) = normalise s"
proof -
  have "split_whitespace (words_text s) = map (map to_lowercase) (split_whitespace s)"
    unfolding words_text_def
    by (rule split_join_words) (auto dest: split_whitespace_words)
  then show ?thesis by (simp add: normalise_words words_text_def [of "words_text s"] o_def) (simp add: words_text_def)
qed

section \<open>Similarity\<close>

text \<open>A normalised value: sets are sorted and free of duplicates, as \<open>attr_set\<close> builds them.\<close>

fun attr_normal :: "AttrValue \<Rightarrow> bool" where
  "attr_normal (Set items) = bset_wf items"
| "attr_normal _ = True"

definition attrs_normal :: "DeviceAttrs \<Rightarrow> bool" where
  "attrs_normal a \<longleftrightarrow> (\<forall>k v. bmap_get a k = Some v \<longrightarrow> attr_normal v)"

lemma sorted_dedup: "sorted xs \<Longrightarrow> sorted_wrt (<) (remdups_adj xs)"
proof (induction xs rule: remdups_adj.induct)
  case (3 x y xs)
  then show ?case
    by (cases "x = y") (auto simp: strict_sorted_iff order.strict_iff_order)
qed simp_all

lemma attr_set_normal: "attr_normal (attr_set items)"
  by (simp add: attr_set_def bset_wf_def sorted_dedup)

lemma get_present_normal: "attrs_normal a \<Longrightarrow> get_present a k = Some v \<Longrightarrow> attr_normal v"
  by (auto simp: get_present_def attrs_normal_def split: option.splits AttrValue.splits)

lemma get_present_not_Absent: "get_present a k \<noteq> Some Absent"
  by (simp add: get_present_def split: option.splits AttrValue.splits)

lemma inter_length:
  assumes "distinct x" "distinct y"
  shows "length (filter (\<lambda>i. i \<in> set y) x) = card (set x \<inter> set y)"
    and "length x + length y - card (set x \<inter> set y) = card (set x \<union> set y)"
proof -
  have "length (filter (\<lambda>i. i \<in> set y) x) = card (set (filter (\<lambda>i. i \<in> set y) x))"
    by (rule distinct_card [symmetric]) (simp add: assms)
  also have "set (filter (\<lambda>i. i \<in> set y) x) = set x \<inter> set y" by auto
  finally show i: "length (filter (\<lambda>i. i \<in> set y) x) = card (set x \<inter> set y)" .
  have "card (set x) + card (set y) = card (set x \<union> set y) + card (set x \<inter> set y)"
    by (rule card_Un_Int) simp_all
  with assms show "length x + length y - card (set x \<inter> set y) = card (set x \<union> set y)"
    by (simp add: distinct_card)
qed

text \<open>On normalised sets the score is the Jaccard index in percent.\<close>

definition jaccard :: "'a list \<Rightarrow> 'a list \<Rightarrow> nat" where
  "jaccard x y =
     (if x = [] \<and> y = [] then 100 else card (set x \<inter> set y) * 100 div card (set x \<union> set y))"

lemma percent_le: "(m::nat) \<le> t \<Longrightarrow> m * 100 div t \<le> 100"
  using div_le_mono [of "m * 100" "t * 100" t] by (cases "t = 0") simp_all

lemma jaccard_le: "jaccard x y \<le> 100"
proof -
  have "card (set x \<inter> set y) \<le> card (set x \<union> set y)" by (rule card_mono) auto
  then show ?thesis by (simp add: jaccard_def percent_le)
qed

lemma jaccard_commute: "jaccard x y = jaccard y x"
  by (auto simp: jaccard_def Int_commute Un_commute)

lemma value_score_Set:
  assumes "bset_wf x" "bset_wf y"
  shows "value_score (Set x) (Set y) = jaccard x y"
proof -
  have d: "distinct x" "distinct y" using assms by (simp_all add: bset_wf_def strict_sorted_iff)
  show ?thesis
    using jaccard_le [of x y]
    by (simp add: inter_length [OF d] jaccard_def Let_def del: diff_is_0_eq split: if_splits)
qed

lemma value_score_le: "attr_normal v \<Longrightarrow> attr_normal w \<Longrightarrow> value_score v w \<le> 100"
  by (cases v; cases w) (simp_all add: value_score_Set jaccard_le del: value_score.simps(3))

lemma value_score_commute: "attr_normal v \<Longrightarrow> attr_normal w \<Longrightarrow> value_score v w = value_score w v"
  by (cases v; cases w) (simp_all add: value_score_Set jaccard_commute del: value_score.simps(3))

lemma value_score_self: "attr_normal v \<Longrightarrow> v \<noteq> Absent \<Longrightarrow> value_score v v = 100"
  by (cases v) (simp_all add: value_score_Set jaccard_def del: value_score.simps(3))

text \<open>
  What the server relies on from a similarity: a percentage, symmetric, and full for a
  device compared with itself once it reports a weighted attribute.
\<close>

definition reports_weighted :: "DeviceAttrs \<Rightarrow> bool" where
  "reports_weighted a \<longleftrightarrow> (\<exists>(k, w) \<in> set WEIGHTS. get_present a k \<noteq> None)"

locale similarity_scheme =
  fixes similarity :: "DeviceAttrs \<Rightarrow> DeviceAttrs \<Rightarrow> nat"
  assumes sim_le: "attrs_normal a \<Longrightarrow> attrs_normal b \<Longrightarrow> similarity a b \<le> 100"
    and sim_commute: "attrs_normal a \<Longrightarrow> attrs_normal b \<Longrightarrow> similarity a b = similarity b a"
    and sim_self: "attrs_normal a \<Longrightarrow> reports_weighted a \<Longrightarrow> similarity a a = 100"

text \<open>Both schemes of the sources accumulate weights over the same table.\<close>

lemma score_of_le: "m \<le> t \<Longrightarrow> score_of (t, m) \<le> 100"
  using percent_le [of m t] by (simp add: score_of_def)

lemma score_of_full: "t \<noteq> 0 \<Longrightarrow> score_of (t, t) = 100"
  by (simp add: score_of_def)

lemma foldl_score_le:
  assumes "\<And>t m k w. m \<le> t \<Longrightarrow> snd (f (t, m) (k, w)) \<le> fst (f (t, m) (k, w))"
    and "m \<le> t"
  shows "snd (foldl f (t, m) kws) \<le> fst (foldl f (t, m) kws)"
  using assms(2)
proof (induction kws arbitrary: t m)
  case (Cons kw kws)
  obtain k w where "kw = (k, w)" by fastforce
  with assms(1) [OF Cons.prems, of k w] Cons.IH [of "snd (f (t, m) kw)" "fst (f (t, m) kw)"]
  show ?case by simp
qed simp

lemma foldl_score_self:
  fixes f :: "nat \<times> nat \<Rightarrow> 'k \<times> nat \<Rightarrow> nat \<times> nat"
  assumes step: "\<And>t k w. f (t, t) (k, w) = (if P k then (t + w, t + w) else (t, t))"
    and "\<forall>(k, w) \<in> set kws. w > 0"
  shows "fst (foldl f (t, t) kws) = snd (foldl f (t, t) kws) \<and>
    (t > 0 \<or> (\<exists>(k, w) \<in> set kws. P k) \<longrightarrow> fst (foldl f (t, t) kws) > 0)"
  using assms(2)
proof (induction kws arbitrary: t)
  case (Cons kw kws)
  obtain k w where kw: "kw = (k, w)" by fastforce
  have w: "w > 0" and rest: "\<forall>(k, w) \<in> set kws. w > 0" using Cons.prems kw by auto
  from Cons.IH [OF rest, of t] Cons.IH [OF rest, of "t + w"] w show ?case
    by (auto simp: kw step)
qed simp

lemma weights_positive: "\<forall>(k, w) \<in> set WEIGHTS. w > 0"
  by (simp add: WEIGHTS_def)

lemma hmac_step_le:
  assumes "attrs_normal a" "attrs_normal b" "m \<le> t"
  shows "snd (hmac_step a b (t, m) (k, w)) \<le> fst (hmac_step a b (t, m) (k, w))"
proof -
  have "w * value_score x y div 100 \<le> w" if "get_present a k = Some x" "get_present b k = Some y" for x y
  proof -
    have "value_score x y \<le> 100"
      using that assms get_present_normal by (intro value_score_le) blast+
    then have "w * value_score x y div 100 \<le> w * 100 div 100" by (intro div_le_mono mult_le_mono2)
    then show ?thesis by simp
  qed
  with assms(3) show ?thesis
    by (auto simp: hmac_step_def add_mono split: option.splits)
qed

lemma hmac_step_commute:
  "attrs_normal a \<Longrightarrow> attrs_normal b \<Longrightarrow> hmac_step a b acc kw = hmac_step b a acc kw"
  using value_score_commute get_present_normal
  by (cases acc; cases kw) (fastforce simp: hmac_step_def split: option.splits)

lemma hmac_step_self:
  assumes "attrs_normal a"
  shows "hmac_step a a (t, t) (k, w) = (if get_present a k \<noteq> None then (t + w, t + w) else (t, t))"
proof (cases "get_present a k")
  case (Some v)
  then have "v \<noteq> Absent" using get_present_not_Absent [of a k] by auto
  with Some show ?thesis
    using value_score_self [OF get_present_normal [OF assms Some]] by (simp add: hmac_step_def)
qed (simp add: hmac_step_def)

interpretation hmac_scheme: similarity_scheme hmac_similarity
proof
  fix a b
  assume ab: "attrs_normal a" "attrs_normal b"
  have "snd (foldl (hmac_step a b) (0, 0) WEIGHTS) \<le> fst (foldl (hmac_step a b) (0, 0) WEIGHTS)"
    by (rule foldl_score_le) (simp_all add: hmac_step_le [OF ab])
  then show "hmac_similarity a b \<le> 100"
    using score_of_le by (metis hmac_similarity_def prod.collapse)
  have "hmac_step a b = hmac_step b a" using hmac_step_commute [OF ab] by blast
  then show "hmac_similarity a b = hmac_similarity b a" by (simp add: hmac_similarity_def)
next
  fix a
  assume a: "attrs_normal a" and "reports_weighted a"
  then have "fst (foldl (hmac_step a a) (0, 0) WEIGHTS) = snd (foldl (hmac_step a a) (0, 0) WEIGHTS) \<and>
      fst (foldl (hmac_step a a) (0, 0) WEIGHTS) > 0"
    using foldl_score_self [of "hmac_step a a", OF hmac_step_self [OF a] weights_positive, of 0]
    by (auto simp: reports_weighted_def)
  then show "hmac_similarity a a = 100"
    using score_of_full by (metis hmac_similarity_def not_less_zero prod.collapse)
qed

section \<open>Attributes as bytes\<close>

text \<open>The ranges of the Rust types: strings are UTF-8, integers are \<open>i64\<close>, lengths fit a \<open>u64\<close>.\<close>

definition str_ok :: "string \<Rightarrow> bool" where
  "str_ok s \<longleftrightarrow> utf8_valid (str_bytes s) \<and> length s \<le> u64_max"

fun attr_ok :: "AttrValue \<Rightarrow> bool" where
  "attr_ok Absent = True"
| "attr_ok (AttrValue.Text t) = str_ok t"
| "attr_ok (Set items) \<longleftrightarrow> list_all str_ok items \<and> length items \<le> u64_max"
| "attr_ok (AttrValue.Int n) = in_i64 n"

definition attrs_ok :: "DeviceAttrs \<Rightarrow> bool" where
  "attrs_ok a \<longleftrightarrow> bmap_wf a \<and> length a \<le> u64_max \<and> list_all (\<lambda>(k, v). str_ok k \<and> attr_ok v) a"

definition wide_limits :: Limits where
  "wide_limits = \<lparr>lim_max_depth = 16, lim_max_items = u64_max, lim_max_string = u64_max\<rparr>"

lemma encode_attr_canon [simp]: "canon (encode_attr v) = encode_attr v" "nodup (encode_attr v)"
  by (cases v; simp add: list_all_iff)+

lemma cbor_int_within: "in_i64 n \<Longrightarrow> d \<le> lim_max_depth lim \<Longrightarrow> within lim d (cbor_int n)"
  by (auto simp: cbor_int_def sat_defs u64_max_def)

lemma encode_attr_within: "attr_ok v \<Longrightarrow> within wide_limits 1 (encode_attr v)"
  by (cases v)
    (auto simp: wide_limits_def str_ok_def tag_defs u64_max_def list_all_iff intro!: cbor_int_within)

lemma decode_encode_attr: "attr_ok v \<Longrightarrow> decode_attr (encode_attr v) = Inr v"
  by (cases v) (auto simp: decode_attr_def tag_defs try_map_text cbor_i64.dec_enc)

lemma encode_attr_inject:
  assumes "attr_ok v" "attr_ok w" "encode_attr v = encode_attr w"
  shows "v = w"
  using decode_encode_attr [OF assms(1)] decode_encode_attr [OF assms(2)] assms(3)
  by (metis sum.inject(2))

text \<open>The two encoders of the sources agree.\<close>

lemma encode_attrs_value: "encode_attrs a = attrs_value a"
proof -
  have "(case v of Absent \<Rightarrow> Array [Uint 0] | AttrValue.Text t \<Rightarrow> Array [Uint 1, CText t]
      | Set items \<Rightarrow> Array [Uint 2, Array (map CText items)]
      | AttrValue.Int n \<Rightarrow> Array [Uint 3, cbor_int n]) = encode_attr v" for v
    by (cases v) (simp_all add: tag_defs)
  then show ?thesis by (simp add: encode_attrs_def attrs_value_def)
qed

lemma attrs_ok_D:
  "attrs_ok a \<Longrightarrow> (k, v) \<in> set a \<Longrightarrow> str_ok k \<and> attr_ok v"
  using list_all_pairD [of "\<lambda>k v. str_ok k \<and> attr_ok v" a k v] by (simp add: attrs_ok_def)

lemma attrs_value_within: "attrs_ok a \<Longrightarrow> within wide_limits 0 (attrs_value a)"
proof -
  assume a: "attrs_ok a"
  have "within wide_limits 1 (CText k) \<and> within wide_limits 1 (encode_attr v)" if "(k, v) \<in> set a" for k v
    using attrs_ok_D [OF a that] encode_attr_within [of v] by (simp add: wide_limits_def str_ok_def)
  then have "list_all (\<lambda>(k, v). within wide_limits 1 k \<and> within wide_limits 1 v)
      (map (\<lambda>(k, v). (CText k, encode_attr v)) a)"
    unfolding list_all_iff by fastforce
  with a show ?thesis by (simp add: attrs_value_def attrs_ok_def) (simp add: wide_limits_def)
qed

lemma attrs_value_nodup: "attrs_ok a \<Longrightarrow> nodup (attrs_value a)"
proof -
  assume "attrs_ok a"
  then have "distinct (map fst a)" by (simp add: attrs_ok_def bmap_wf_def strict_sorted_iff)
  moreover have "map (\<lambda>(k, v). canon k) (map (\<lambda>(k, v). (CText k, encode_attr v)) a) = map CText (map fst a)"
    by auto
  moreover have "inj CText" by (simp add: inj_def)
  ultimately show ?thesis
    by (auto simp: attrs_value_def list_all_iff distinct_map inj_on_def split: prod.splits)
qed

lemma attrs_value_canon: "canon (attrs_value a) = Map (by_key (map (\<lambda>(k, v). (CText k, encode_attr v)) a))"
proof -
  have "canon (attrs_value a) = Map (map (\<lambda>(k, v). (canon k, canon v)) (by_key (map (\<lambda>(k, v). (CText k, encode_attr v)) a)))"
    unfolding attrs_value_def by (rule canon_Map)
  also have "map (\<lambda>(k, v). (canon k, canon v)) (by_key (map (\<lambda>(k, v). (CText k, encode_attr v)) a))
      = by_key (map (\<lambda>(k, v). (CText k, encode_attr v)) a)"
    by (rule map_idI) auto
  finally show ?thesis .
qed

lemma canonical_bytes_inject:
  assumes "attrs_ok a" "attrs_ok b" "canonical_bytes a = canonical_bytes b"
  shows "a = b"
proof -
  let ?e = "\<lambda>(k, v). (CText k, encode_attr v)"
  have "decode_canonical (canonical_bytes a) wide_limits = Inr (canon (attrs_value a))"
    "decode_canonical (canonical_bytes b) wide_limits = Inr (canon (attrs_value b))"
    using assms(1,2) by (simp_all add: canonical_bytes_def decode_to_canonical attrs_value_within attrs_value_nodup)
  with assms(3) have "by_key (map ?e a) = by_key (map ?e b)" by (simp add: attrs_value_canon)
  then have "set (by_key (map ?e a)) = set (by_key (map ?e b))" by (rule arg_cong)
  then have "?e ` set a = ?e ` set b" by (simp only: by_key_simps set_map)
  moreover have "inj_on ?e (set a \<union> set b)"
  proof (rule inj_onI)
    fix x y
    assume x: "x \<in> set a \<union> set b" and y: "y \<in> set a \<union> set b" and eq: "?e x = ?e y"
    have ok: "attr_ok (snd z)" if "z \<in> set a \<union> set b" for z
      using that attrs_ok_D [OF assms(1), of "fst z" "snd z"] attrs_ok_D [OF assms(2), of "fst z" "snd z"]
      by auto
    from eq have "fst x = fst y" "encode_attr (snd x) = encode_attr (snd y)"
      by (simp_all add: case_prod_unfold)
    with encode_attr_inject [OF ok [OF x] ok [OF y]] show "x = y" by (simp add: prod_eq_iff)
  qed
  ultimately have "set b = set a" by (simp add: inj_on_Un_image_eq_iff)
  moreover have wf: "bmap_wf a" "bmap_wf b" using assms by (simp_all add: attrs_ok_def)
  moreover have d: "distinct (map fst b)" using wf(2) by (simp add: bmap_wf_def strict_sorted_iff)
  ultimately have "bmap_copy b [] = a" by (intro bmap_copy_entries)
  moreover have "bmap_copy b [] = b" using wf(2) d refl by (rule bmap_copy_entries)
  ultimately show ?thesis by (rule trans [OF sym])
qed

lemma decode_attrs_step_ok:
  "attr_ok v \<Longrightarrow> decode_attrs_step out (CText k, encode_attr v) = Inr (bmap_insert k v out)"
  by (simp add: decode_attrs_step_def decode_encode_attr attrs_insert_def)

lemma decode_attrs_fold:
  assumes "\<And>k v. (k, v) \<in> set kvs \<Longrightarrow> attr_ok v"
  shows "try_fold decode_attrs_step out (map (\<lambda>(k, v). (CText k, encode_attr v)) kvs) = Inr (bmap_copy kvs out)"
  using assms
proof (induction kvs arbitrary: out)
  case (Cons kv kvs)
  obtain k v where kv: "kv = (k, v)" by fastforce
  with Cons.prems have "attr_ok v" by (metis list.set_intros(1))
  moreover have "try_fold decode_attrs_step (bmap_insert k v out) (map (\<lambda>(k, v). (CText k, encode_attr v)) kvs)
      = Inr (bmap_copy kvs (bmap_insert k v out))"
    by (rule Cons.IH) (metis Cons.prems list.set_intros(2))
  ultimately show ?case by (simp add: kv decode_attrs_step_ok bmap_copy_def)
qed (simp add: bmap_copy_def)

lemma decode_attrs_canon:
  assumes "attrs_ok a"
  shows "decode_attrs (canon (encode_attrs a)) = Inr a"
proof -
  let ?e = "\<lambda>(k, v). (CText k, encode_attr v)"
  define kvs where "kvs = sort_key (\<lambda>kv. to_canonical (fst (?e kv))) a"
  have e: "by_key (map ?e a) = map ?e kvs"
    by (simp add: by_key_def kvs_def sort_key_map case_prod_unfold)
  have set: "set kvs = set a" by (simp add: kvs_def)
  have "mset (map fst kvs) = mset (map fst a)" by (simp add: kvs_def)
  then have "distinct (map fst kvs)"
    using assms by (metis attrs_ok_def bmap_wf_def mset_eq_imp_distinct_iff strict_sorted_iff)
  then have "bmap_copy kvs [] = a"
    using assms set by (intro bmap_copy_entries) (simp_all add: attrs_ok_def)
  moreover have "try_fold decode_attrs_step [] (map ?e kvs) = Inr (bmap_copy kvs [])"
    using attrs_ok_D [OF assms] set by (intro decode_attrs_fold) blast
  ultimately show ?thesis
    by (simp add: decode_attrs_def encode_attrs_value attrs_value_canon e)
qed

section \<open>Properties\<close>

definition demo_attrs :: DeviceAttrs where
  "demo_attrs = [(''hostname'', AttrValue.Text ''box''), (''mac_addrs'', Set [''aa'', ''bb''])]"

lemma demo_attrs_ok: "attrs_ok demo_attrs" "attrs_normal demo_attrs" "reports_weighted demo_attrs"
proof -
  have "str_ok ''hostname''" "str_ok ''box''" "str_ok ''mac_addrs''" "str_ok ''aa''" "str_ok ''bb''"
    by (simp_all add: str_ok_def u64_max_def ascii_utf8)
  then show "attrs_ok demo_attrs"
    by (simp add: attrs_ok_def demo_attrs_def bmap_wf_def u64_max_def)
  show "attrs_normal demo_attrs"
    by (auto simp: attrs_normal_def demo_attrs_def bset_wf_def split: if_splits)
  show "reports_weighted demo_attrs"
    by (simp add: reports_weighted_def WEIGHTS_def demo_attrs_def get_present_def)
qed

text \<open>
  C31. The bytes a fingerprint is computed over determine the attributes: two attribute maps
  with the same canonical bytes are equal, so a missing attribute, a text \<open>1\<close> and a number
  \<open>1\<close>, or two orders of insertion never collide before hashing.
\<close>

theorem fingerprint_input_injective:
  assumes "attrs_ok a" "attrs_ok b"
  shows "canonical_bytes a = canonical_bytes b \<longleftrightarrow> a = b"
  using canonical_bytes_inject [OF assms] by blast

theorem fingerprint_input_injective_witness:
  "canonical_bytes demo_attrs \<noteq> canonical_bytes [(''hostname'', AttrValue.Text ''box'')]"
proof -
  have "attrs_ok [(''hostname'', AttrValue.Text ''box'')]"
    by (simp add: attrs_ok_def bmap_wf_def str_ok_def u64_max_def ascii_utf8)
  from fingerprint_input_injective [OF demo_attrs_ok(1) this] show ?thesis
    by (simp add: demo_attrs_def)
qed

text \<open>
  Attributes survive transport: encoding them, writing the canonical bytes, reading them
  strictly and decoding gives the same attribute map.
\<close>

theorem attrs_transport_roundtrip:
  assumes "attrs_ok a"
  shows "\<exists>v. decode_canonical (to_canonical (encode_attrs a)) wide_limits = Inr v \<and> decode_attrs v = Inr a"
  using decode_to_canonical [OF attrs_value_within [OF assms] attrs_value_nodup [OF assms]]
    decode_attrs_canon [OF assms]
  by (simp add: encode_attrs_value)

theorem attrs_transport_roundtrip_witness:
  "\<exists>v. decode_canonical (to_canonical (encode_attrs demo_attrs)) wide_limits = Inr v \<and>
     decode_attrs v = Inr demo_attrs"
  by (rule attrs_transport_roundtrip [OF demo_attrs_ok(1)])

text \<open>
  Normalisation is a normal form: it lower-cases the words of a text and joins them with
  single blanks, and normalising twice changes nothing.
\<close>

theorem normalise_normal_form:
  "normalise s = words_text s \<and> normalise (normalise s) = normalise s"
  by (simp add: normalise_words [symmetric] normalise_idem)



text \<open>
  The decoder keeps a set as the client sent it, duplicates included, and then the score
  is not a percentage: repeating one address makes two attribute maps 200 percent similar.
\<close>

theorem duplicate_set_exceeds_percentage:
  "decode_attrs (Map [(CText ''mac_addrs'', Array [Uint 2, Array [CText ''aa'', CText ''aa'']])])
     = Inr [(''mac_addrs'', Set [''aa'', ''aa''])] \<and>
   hmac_similarity [(''mac_addrs'', Set [''aa'', ''aa''])] [(''mac_addrs'', Set [''aa''])] = 200"
  by (intro conjI; code_simp)

end
