(* ===== verification/Matching.thy ===== *)
theory Matching
  imports Device
begin

text \<open>
  \<open>copylocker-server-core/src/fingerprint_match.rs\<close>: matching a returning device against
  the activations of a licence, and the default similarity of \<open>activate.rs\<close>.  The
  similarity is a parameter of the matching functions (the trait \<open>FingerprintScheme\<close>); the
  locale \<open>byte_similarity\<close> states the one thing they need of it, and both schemes of the
  sources provide it.
\<close>

section \<open>Matching\<close>

datatype MatchOutcome = Exact | Tolerant nat | Distinct nat

fun reuses_seat :: "MatchOutcome \<Rightarrow> bool" where
  "reuses_seat Exact = True"
| "reuses_seat (Tolerant _) = True"
| "reuses_seat (Distinct _) = False"

fun requires_reissue :: "MatchOutcome \<Rightarrow> bool" where
  "requires_reissue (Tolerant _) = True"
| "requires_reissue _ = False"

type_synonym similarity = "DeviceAttrs \<Rightarrow> DeviceAttrs \<Rightarrow> nat"

type_synonym candidate = "Fingerprint \<times> DeviceAttrs option"

definition match_device ::
  "similarity \<Rightarrow> Fingerprint \<Rightarrow> Fingerprint \<Rightarrow> DeviceAttrs option \<Rightarrow> DeviceAttrs option \<Rightarrow> nat \<Rightarrow> MatchOutcome"
where
  "match_device sim stored_fp incoming_fp stored_attrs incoming_attrs tolerance =
     (if stored_fp = incoming_fp then Exact
      else case (stored_attrs, incoming_attrs) of
             (Some a, Some b) \<Rightarrow>
               (let score = sim a b
                in if score \<ge> tolerance then Tolerant score else Distinct score)
           | _ \<Rightarrow> Distinct 0)"

fun outcome_rank :: "MatchOutcome \<Rightarrow> nat" where
  "outcome_rank Exact = 255"
| "outcome_rank (Tolerant score) = score"
| "outcome_rank (Distinct score) = score"

fun best_from ::
  "similarity \<Rightarrow> Fingerprint \<Rightarrow> DeviceAttrs option \<Rightarrow> nat \<Rightarrow> nat \<Rightarrow> (nat \<times> MatchOutcome \<times> nat) option
   \<Rightarrow> candidate list \<Rightarrow> (nat \<times> MatchOutcome \<times> nat) option"
where
  "best_from sim fp attrs tolerance i best [] = best"
| "best_from sim fp attrs tolerance i best (c # cs) =
     (let outcome = match_device sim (fst c) fp (snd c) attrs tolerance;
          rank = outcome_rank outcome;
          better = (case best of None \<Rightarrow> True | Some (_, _, r) \<Rightarrow> rank > r);
          best' = (if better then Some (i, outcome, rank) else best)
      in if rank = 255 then best'
         else best_from sim fp attrs tolerance (i + 1) best' cs)"

definition best_match ::
  "similarity \<Rightarrow> candidate list \<Rightarrow> Fingerprint \<Rightarrow> DeviceAttrs option \<Rightarrow> nat \<Rightarrow> (nat \<times> MatchOutcome) option"
where
  "best_match sim candidates fp attrs tolerance =
     map_option (\<lambda>(i, outcome, _). (i, outcome)) (best_from sim fp attrs tolerance 0 None candidates)"

section \<open>The default similarity\<close>

definition default_compute :: "bytes \<Rightarrow> DeviceAttrs \<Rightarrow> Fingerprint" where
  "default_compute salt attrs = []"

definition default_weights :: "(string \<times> nat) list" where
  "default_weights =
     [(''machine_guid'', 40), (''cpu_id'', 15), (''board_serial'', 15), (''disk_serial'', 10),
      (''os_install_id'', 10), (''platform_uuid'', 45), (''hw_model_serial'', 20),
      (''boot_volume_uuid'', 15), (''machine_id'', 40), (''dmi_product_uuid'', 20),
      (''rootfs_uuid'', 15), (''web_device_id'', 60), (''ua_platform'', 15),
      (''hardware_concurrency'', 10), (''mac_addrs'', 10), (''hostname'', 5), (''timezone'', 5)]"

definition default_step :: "DeviceAttrs \<Rightarrow> DeviceAttrs \<Rightarrow> nat \<times> nat \<Rightarrow> string \<times> nat \<Rightarrow> nat \<times> nat" where
  "default_step a b acc kw =
     (let (total, matched) = acc; (key, weight) = kw in
      case (get_present a key, get_present b key) of
        (None, None) \<Rightarrow> (total, matched)
      | (Some x, Some y) \<Rightarrow> (total + weight, if x = y then matched + weight else matched)
      | _ \<Rightarrow> (total + weight, matched))"

definition default_similarity :: "DeviceAttrs \<Rightarrow> DeviceAttrs \<Rightarrow> nat" where
  "default_similarity a b = score_of (foldl (default_step a b) (0, 0) default_weights)"

lemma default_weights_eq: "default_weights = WEIGHTS"
  by (simp add: default_weights_def WEIGHTS_def)

lemma default_step_le:
  "m \<le> t \<Longrightarrow> snd (default_step a b (t, m) (k, w)) \<le> fst (default_step a b (t, m) (k, w))"
  by (simp add: default_step_def split: option.splits)

lemma default_step_commute: "default_step a b acc kw = default_step b a acc kw"
  by (cases acc; cases kw) (auto simp: default_step_def split: option.splits)

lemma default_step_self:
  "default_step a a (t, t) (k, w) = (if get_present a k \<noteq> None then (t + w, t + w) else (t, t))"
  by (simp add: default_step_def split: option.splits)

lemma default_similarity_le: "default_similarity a b \<le> 100"
proof -
  have "snd (foldl (default_step a b) (0, 0) default_weights) \<le>
      fst (foldl (default_step a b) (0, 0) default_weights)"
    by (rule foldl_score_le) (simp_all add: default_step_le)
  then show ?thesis using score_of_le by (metis default_similarity_def prod.collapse)
qed

interpretation default_scheme: similarity_scheme default_similarity
proof
  fix a b
  show "default_similarity a b \<le> 100" by (rule default_similarity_le)
  have "default_step a b = default_step b a" using default_step_commute by blast
  then show "default_similarity a b = default_similarity b a" by (simp add: default_similarity_def)
next
  fix a
  assume "reports_weighted a"
  then have "fst (foldl (default_step a a) (0, 0) WEIGHTS) = snd (foldl (default_step a a) (0, 0) WEIGHTS) \<and>
      fst (foldl (default_step a a) (0, 0) WEIGHTS) > 0"
    using foldl_score_self [of "default_step a a", OF default_step_self weights_positive, of 0]
    by (auto simp: reports_weighted_def)
  then show "default_similarity a a = 100"
    using score_of_full by (metis default_similarity_def default_weights_eq not_less_zero prod.collapse)
qed

section \<open>The strongest candidate\<close>

locale byte_similarity =
  fixes sim :: similarity
  assumes sim_u8: "sim a b \<le> 255"
begin

abbreviation outcome_of :: "Fingerprint \<Rightarrow> DeviceAttrs option \<Rightarrow> nat \<Rightarrow> candidate \<Rightarrow> MatchOutcome" where
  "outcome_of fp attrs tol c \<equiv> match_device sim (fst c) fp (snd c) attrs tol"

lemma rank_le: "outcome_rank (outcome_of fp attrs tol c) \<le> 255"
  by (auto simp: match_device_def Let_def sim_u8 split: option.splits)

text \<open>\<open>strongest cs o\<close>: what the loop has found after looking at the candidates \<open>cs\<close>.\<close>

definition strongest ::
  "Fingerprint \<Rightarrow> DeviceAttrs option \<Rightarrow> nat \<Rightarrow> candidate list \<Rightarrow> (nat \<times> MatchOutcome \<times> nat) option \<Rightarrow> bool"
where
  "strongest fp attrs tol cs best \<longleftrightarrow>
     (case best of
        None \<Rightarrow> cs = []
      | Some (i, outcome, rank) \<Rightarrow>
          i < length cs \<and> outcome = outcome_of fp attrs tol (cs ! i) \<and> rank = outcome_rank outcome \<and>
          (\<forall>c \<in> set cs. outcome_rank (outcome_of fp attrs tol c) \<le> rank))"

lemma strongest_snoc:
  assumes "strongest fp attrs tol cs best"
  shows "strongest fp attrs tol (cs @ [c])
    (if (case best of None \<Rightarrow> True | Some (_, _, r) \<Rightarrow> outcome_rank (outcome_of fp attrs tol c) > r)
     then Some (length cs, outcome_of fp attrs tol c, outcome_rank (outcome_of fp attrs tol c)) else best)"
  using assms
  by (fastforce simp: strongest_def nth_append split: option.splits)

lemma best_from_strongest:
  "strongest fp attrs tol seen best \<Longrightarrow>
   strongest fp attrs tol (seen @ cs) (best_from sim fp attrs tol (length seen) best cs)"
proof (induction cs arbitrary: seen best)
  case Nil
  then show ?case by simp
next
  case (Cons c cs)
  let ?o = "outcome_of fp attrs tol c"
  let ?best = "if (case best of None \<Rightarrow> True | Some (_, _, r) \<Rightarrow> outcome_rank ?o > r)
     then Some (length seen, ?o, outcome_rank ?o) else best"
  have step: "strongest fp attrs tol (seen @ [c]) ?best"
    using Cons.prems by (rule strongest_snoc)
  show ?case
  proof (cases "outcome_rank ?o = 255")
    case True
    from step obtain i o' r where b: "?best = Some (i, o', r)"
      by (cases ?best) (auto simp: strongest_def)
    with step have "i < length (seen @ [c])" "o' = outcome_of fp attrs tol ((seen @ [c]) ! i)"
      "r = outcome_rank o'" "outcome_rank ?o \<le> r"
      by (auto simp: strongest_def)
    moreover from this have "r = 255" using True rank_le by (metis le_antisym)
    moreover have "(seen @ [c]) ! i = (seen @ c # cs) ! i"
      using \<open>i < length (seen @ [c])\<close> by (simp add: nth_append nth_Cons')
    ultimately have "strongest fp attrs tol (seen @ c # cs) (Some (i, o', r))"
      using rank_le by (simp add: strongest_def)
    with True b show ?thesis by (simp add: Let_def)
  next
    case False
    with Cons.IH [OF step] show ?thesis by (simp add: Let_def)
  qed
qed

lemma best_match_strongest:
  "case best_match sim cs fp attrs tol of
     None \<Rightarrow> cs = []
   | Some (i, outcome) \<Rightarrow> i < length cs \<and> outcome = outcome_of fp attrs tol (cs ! i) \<and>
       (\<forall>c \<in> set cs. outcome_rank (outcome_of fp attrs tol c) \<le> outcome_rank outcome)"
  using best_from_strongest [of fp attrs tol "[]" None cs]
  by (auto simp: best_match_def strongest_def split: option.splits)

text \<open>With a positive tolerance the strongest candidate reuses a seat when any candidate does.\<close>

lemma reuse_iff_rank:
  assumes "0 < tol" "tol \<le> 255"
  shows "reuses_seat (outcome_of fp attrs tol c) \<longleftrightarrow> tol \<le> outcome_rank (outcome_of fp attrs tol c)"
  using assms by (auto simp: match_device_def Let_def split: option.splits)

lemma best_match_reuses_iff:
  assumes "0 < tol" "tol \<le> 255"
  shows "(\<exists>i outcome. best_match sim cs fp attrs tol = Some (i, outcome) \<and> reuses_seat outcome) \<longleftrightarrow>
    (\<exists>c \<in> set cs. reuses_seat (outcome_of fp attrs tol c))"
proof (cases "best_match sim cs fp attrs tol")
  case None
  then show ?thesis using best_match_strongest [of cs fp attrs tol] by simp
next
  case (Some p)
  obtain i outcome where p: "p = (i, outcome)" by fastforce
  note best = best_match_strongest [of cs fp attrs tol, unfolded Some p, simplified]
  then have "cs ! i \<in> set cs" by simp
  moreover have "reuses_seat outcome \<longleftrightarrow> tol \<le> outcome_rank outcome"
    using best reuse_iff_rank [OF assms, where fp = fp and attrs = attrs and c = "cs ! i"] by simp
  moreover have "tol \<le> outcome_rank outcome" if "c \<in> set cs" "reuses_seat (outcome_of fp attrs tol c)" for c
    using that best reuse_iff_rank [OF assms] order_trans by blast
  ultimately show ?thesis using best by (auto simp: Some p)
qed

text \<open>A device that reports a stored fingerprint is recognised whatever its attributes.\<close>

lemma exact_reuses:
  assumes "tol \<le> 255" "c \<in> set cs" "fst c = fp"
  shows "\<exists>i outcome. best_match sim cs fp attrs tol = Some (i, outcome) \<and> reuses_seat outcome"
proof -
  note best = best_match_strongest [of cs fp attrs tol]
  from best assms(2) obtain i outcome where eq: "best_match sim cs fp attrs tol = Some (i, outcome)"
    by (cases "best_match sim cs fp attrs tol") auto
  have "outcome_rank (outcome_of fp attrs tol c) = 255" using assms(3) by (simp add: match_device_def)
  with best eq assms(2) have "255 \<le> outcome_rank (outcome_of fp attrs tol (cs ! i))"
    and o: "outcome = outcome_of fp attrs tol (cs ! i)" by force+
  then have "reuses_seat outcome" using assms(1)
    by (auto simp: match_device_def Let_def split: option.splits if_splits)
  with eq show ?thesis by blast
qed

end

lemma score_of_u8: "score_of acc \<le> 255"
  by (auto simp: score_of_def Let_def split: prod.splits)

interpretation hmac_bytes: byte_similarity hmac_similarity
  by standard (simp add: hmac_similarity_def score_of_u8)

interpretation default_bytes: byte_similarity default_similarity
  by standard (simp add: default_similarity_def score_of_u8)

section \<open>Properties\<close>



end
