(* ===== verification/Catalog.thy ===== *)
theory Catalog
  imports Types "HOL-Library.Sublist"
begin

text \<open>
  \<open>copylocker-server-core/src/catalog.rs\<close>: features, groups and tiers, pattern expansion,
  structural validation and the rules a successor catalog must keep.  The depth-first
  \<open>walk_group\<close> is a pair of mutually recursive functions, one for the call and one for
  its loop over the included groups; both terminate because the depth is bounded.  The
  lemmas show that validation rules out cycles and over-deep nesting, makes every
  reference resolve, and that published identifiers survive any number of evolutions.
\<close>

section \<open>Data\<close>

record Feature =
  feature_id :: string
  feature_label :: string
  feature_description :: "string option"
  feature_deprecated_at :: "i64 option"

record GroupMembers =
  gm_includes :: "string list"
  gm_features :: "string list"

record FeatureGroup =
  group_id :: string
  group_label :: string
  group_members :: GroupMembers

record Tier =
  tier_id :: string
  tier_label :: string
  tier_rank :: int
  tier_groups :: "string list"
  tier_features :: "string list"
  tier_limits :: "(string, LimitValue) bmap"
  tier_archived_at :: "i64 option"

record Catalog =
  cat_product_id :: string
  cat_version :: u32
  cat_features :: "Feature list"
  cat_groups :: "FeatureGroup list"
  cat_tiers :: "Tier list"

datatype CatalogError =
    DuplicateId string
  | UnknownReference string string
  | CyclicGroup string
  | DepthExceeded string
  | FeatureIdRemoved string
  | LimitKeyRemoved string
  | VersionNotAdvanced u32 u32
  | BadGlob string

definition MAX_GROUP_DEPTH :: nat where "MAX_GROUP_DEPTH = 8"

section \<open>Lookup and pattern expansion\<close>

definition cat_feature :: "Catalog \<Rightarrow> string \<Rightarrow> Feature option" where
  "cat_feature c fid = find (\<lambda>f. feature_id f = fid) (cat_features c)"

definition cat_group :: "Catalog \<Rightarrow> string \<Rightarrow> FeatureGroup option" where
  "cat_group c gid = find (\<lambda>g. group_id g = gid) (cat_groups c)"

definition cat_tier :: "Catalog \<Rightarrow> string \<Rightarrow> Tier option" where
  "cat_tier c tid = find (\<lambda>t. tier_id t = tid) (cat_tiers c)"

definition feature_ids :: "Catalog \<Rightarrow> string bset" where
  "feature_ids c = bset_of_list (map feature_id (cat_features c))"

definition trim_end_matches :: "char \<Rightarrow> string \<Rightarrow> string" where
  "trim_end_matches ch s = rev (dropWhile (\<lambda>x. x = ch) (rev s))"

definition expand_pattern :: "Catalog \<Rightarrow> string \<Rightarrow> (CatalogError, string list) result" where
  "expand_pattern c pattern =
     (let star_count = length (filter (\<lambda>ch. ch = CHR ''*'') pattern)
      in if star_count = 0 then
           (if cat_feature c pattern \<noteq> None then Inr [pattern]
            else Inl (UnknownReference ''pattern'' pattern))
         else if star_count = 1 \<and> last pattern = CHR ''*'' then
           (let pre = trim_end_matches (CHR ''*'') pattern
            in Inr (map feature_id (filter (\<lambda>f. prefix pre (feature_id f)) (cat_features c))))
         else Inl (BadGlob pattern))"

section \<open>Validation\<close>

fun check_unique :: "string list \<Rightarrow> string list \<Rightarrow> (CatalogError, unit) result" where
  "check_unique seen [] = Inr ()"
| "check_unique seen (i # is) =
     (if i \<in> set seen then Inl (DuplicateId i) else check_unique (i # seen) is)"

fun blame_from :: "string \<Rightarrow> CatalogError \<Rightarrow> CatalogError" where
  "blame_from owner (UnknownReference src dst) = UnknownReference owner dst"
| "blame_from owner other = other"

definition check_group_ref :: "Catalog \<Rightarrow> string \<Rightarrow> string \<Rightarrow> (CatalogError, unit) result" where
  "check_group_ref c owner inc =
     (if cat_group c inc = None then Inl (UnknownReference owner inc) else Inr ())"

definition check_pattern_ref :: "Catalog \<Rightarrow> string \<Rightarrow> string \<Rightarrow> (CatalogError, unit) result" where
  "check_pattern_ref c owner pat =
     (case map_err (blame_from owner) (expand_pattern c pat) of
        Inl e \<Rightarrow> Inl e | Inr ids \<Rightarrow> Inr ())"

definition check_group_refs :: "Catalog \<Rightarrow> FeatureGroup \<Rightarrow> (CatalogError, unit) result" where
  "check_group_refs c g =
     and_then (try_each (check_group_ref c (group_id g)) (gm_includes (group_members g)))
       (try_each (check_pattern_ref c (group_id g)) (gm_features (group_members g)))"

definition check_tier_refs :: "Catalog \<Rightarrow> Tier \<Rightarrow> (CatalogError, unit) result" where
  "check_tier_refs c t =
     and_then (try_each (check_group_ref c (tier_id t)) (tier_groups t))
       (try_each (check_pattern_ref c (tier_id t)) (tier_features t))"

function (sequential)
  walk_group :: "Catalog \<Rightarrow> string \<Rightarrow> string list \<Rightarrow> nat \<Rightarrow> (CatalogError, unit) result"
and walk_includes :: "Catalog \<Rightarrow> string list \<Rightarrow> string list \<Rightarrow> nat \<Rightarrow> (CatalogError, unit) result"
where
  "walk_group c i path depth =
     (if i \<in> set path then Inl (CyclicGroup i)
      else if depth > MAX_GROUP_DEPTH then Inl (DepthExceeded i)
      else case cat_group c i of
             None \<Rightarrow> Inl (UnknownReference (if path = [] then [] else last path) i)
           | Some g \<Rightarrow> walk_includes c (gm_includes (group_members g)) (path @ [i]) (depth + 1))"
| "walk_includes c [] path depth = Inr ()"
| "walk_includes c (inc # incs) path depth =
     (case walk_group c inc path depth of
        Inl e \<Rightarrow> Inl e
      | Inr _ \<Rightarrow> walk_includes c incs path depth)"
  by pat_completeness auto
termination
  by (relation "measures
        [case_sum (\<lambda>(c, i, path, depth). MAX_GROUP_DEPTH + 2 - depth)
                  (\<lambda>(c, incs, path, depth). MAX_GROUP_DEPTH + 2 - depth),
         case_sum (\<lambda>_. 0) (\<lambda>(c, incs, path, depth). length incs)]") auto

definition cat_validate :: "Catalog \<Rightarrow> (CatalogError, unit) result" where
  "cat_validate c =
     and_then (check_unique [] (map feature_id (cat_features c)))
    (and_then (check_unique [] (map group_id (cat_groups c)))
    (and_then (check_unique [] (map tier_id (cat_tiers c)))
    (and_then (try_each (check_group_refs c) (cat_groups c))
    (and_then (try_each (check_tier_refs c) (cat_tiers c))
       (try_each (\<lambda>g. walk_group c (group_id g) [] 0) (cat_groups c))))))"

definition limit_keys :: "Catalog \<Rightarrow> string list" where
  "limit_keys c = concat (map (\<lambda>t. bmap_keys (tier_limits t)) (cat_tiers c))"

definition validate_evolution :: "Catalog \<Rightarrow> Catalog \<Rightarrow> (CatalogError, unit) result" where
  "validate_evolution c proposed =
     and_then (cat_validate proposed)
    (if cat_version proposed \<le> cat_version c
     then Inl (VersionNotAdvanced (cat_version c) (cat_version proposed))
     else
       and_then
         (try_each (\<lambda>f. if feature_id f \<notin> set (feature_ids proposed)
                        then Inl (FeatureIdRemoved (feature_id f)) else Inr ()) (cat_features c))
         (try_each (\<lambda>k. if k \<notin> set (bset_of_list (limit_keys proposed))
                        then Inl (LimitKeyRemoved k) else Inr ()) (limit_keys c)))"

declare walk_group.simps [simp del] walk_includes.simps [simp del]

section \<open>Lookups\<close>

lemma cat_feature_Some: "cat_feature c i = Some f \<Longrightarrow> f \<in> set (cat_features c) \<and> feature_id f = i"
  unfolding cat_feature_def by (drule find_SomeD) auto

lemma cat_group_Some: "cat_group c i = Some g \<Longrightarrow> g \<in> set (cat_groups c) \<and> group_id g = i"
  unfolding cat_group_def by (drule find_SomeD) auto

lemma cat_tier_Some: "cat_tier c i = Some t \<Longrightarrow> t \<in> set (cat_tiers c) \<and> tier_id t = i"
  unfolding cat_tier_def by (drule find_SomeD) auto

lemma cat_feature_None_iff: "cat_feature c i = None \<longleftrightarrow> i \<notin> feature_id ` set (cat_features c)"
  by (auto simp: cat_feature_def find_None_iff)

lemma cat_group_None_iff: "cat_group c i = None \<longleftrightarrow> i \<notin> group_id ` set (cat_groups c)"
  by (auto simp: cat_group_def find_None_iff)

lemma set_bset_of_list [simp]: "set (bset_of_list xs) = set xs"
  by (simp add: bset_of_list_def bset.elems_fold_ins)

lemma set_feature_ids: "set (feature_ids c) = feature_id ` set (cat_features c)"
  by (simp add: feature_ids_def)

lemma expand_pattern_declared:
  "expand_pattern c pat = Inr ids \<Longrightarrow> set ids \<subseteq> set (feature_ids c)"
  by (auto simp: expand_pattern_def Let_def set_feature_ids cat_feature_None_iff split: if_splits)

section \<open>What validation guarantees\<close>

lemma check_unique_ok_iff:
  "check_unique seen is = Inr u \<longleftrightarrow> distinct is \<and> set is \<inter> set seen = {}"
  by (induction seen "is" rule: check_unique.induct) auto

lemma check_group_ref_ok [simp]: "check_group_ref c owner inc = Inr u \<longleftrightarrow> cat_group c inc \<noteq> None"
  by (simp add: check_group_ref_def)

lemma check_pattern_ref_ok [simp]:
  "check_pattern_ref c owner pat = Inr u \<longleftrightarrow> is_ok (expand_pattern c pat)"
  by (cases "expand_pattern c pat") (simp_all add: check_pattern_ref_def)

definition group_refs_resolve :: "Catalog \<Rightarrow> bool" where
  "group_refs_resolve c \<longleftrightarrow> (\<forall>g \<in> set (cat_groups c).
     (\<forall>i \<in> set (gm_includes (group_members g)). cat_group c i \<noteq> None) \<and>
     (\<forall>p \<in> set (gm_features (group_members g)). is_ok (expand_pattern c p)))"

definition tier_refs_resolve :: "Catalog \<Rightarrow> bool" where
  "tier_refs_resolve c \<longleftrightarrow> (\<forall>t \<in> set (cat_tiers c).
     (\<forall>i \<in> set (tier_groups t). cat_group c i \<noteq> None) \<and>
     (\<forall>p \<in> set (tier_features t). is_ok (expand_pattern c p)))"

lemma cat_validate_ok_iff:
  "cat_validate c = Inr u \<longleftrightarrow>
     distinct (map feature_id (cat_features c)) \<and>
     distinct (map group_id (cat_groups c)) \<and>
     distinct (map tier_id (cat_tiers c)) \<and>
     group_refs_resolve c \<and> tier_refs_resolve c \<and>
     (\<forall>g \<in> set (cat_groups c). walk_group c (group_id g) [] 0 = Inr ())"
  by (auto simp: cat_validate_def check_unique_ok_iff try_each_Inr_iff check_group_refs_def
      check_tier_refs_def group_refs_resolve_def tier_refs_resolve_def)

subsection \<open>The inclusion graph\<close>

definition includes_rel :: "Catalog \<Rightarrow> (string \<times> string) set" where
  "includes_rel c =
     {(i, j). \<exists>g. cat_group c i = Some g \<and> j \<in> set (gm_includes (group_members g))}"

lemma walk_includes_ok_iff:
  "walk_includes c incs path d = Inr u \<longleftrightarrow> (\<forall>i \<in> set incs. walk_group c i path d = Inr ())"
  by (induction incs) (auto simp: walk_includes.simps split: sum.splits)

lemma walk_group_ok_iff:
  "walk_group c i path d = Inr u \<longleftrightarrow>
     i \<notin> set path \<and> d \<le> MAX_GROUP_DEPTH \<and> cat_group c i \<noteq> None \<and>
     (\<forall>j. (i, j) \<in> includes_rel c \<longrightarrow> walk_group c j (path @ [i]) (d + 1) = Inr ())"
  by (subst walk_group.simps)
    (auto simp: walk_includes_ok_iff includes_rel_def split: option.splits)

lemma walk_group_chain:
  assumes "walk_group c i path d = Inr ()" and "(i, j) \<in> includes_rel c ^^ n"
  shows "j \<notin> set path \<and> d + n \<le> MAX_GROUP_DEPTH \<and> cat_group c j \<noteq> None \<and> (n > 0 \<longrightarrow> j \<noteq> i)"
  using assms
proof (induction n arbitrary: i path d)
  case 0
  then show ?case by (auto simp: walk_group_ok_iff [of c i])
next
  case (Suc n)
  from Suc.prems(2) obtain k where k: "(i, k) \<in> includes_rel c" "(k, j) \<in> includes_rel c ^^ n"
    by (meson relpow_Suc_D2)
  with Suc.prems(1) have "walk_group c k (path @ [i]) (d + 1) = Inr ()"
    by (subst (asm) walk_group_ok_iff) auto
  from Suc.IH [OF this k(2)] show ?case by simp
qed

lemma cat_validate_chain:
  assumes "cat_validate c = Inr ()" and "cat_group c i \<noteq> None" and "(i, j) \<in> includes_rel c ^^ n"
  shows "n \<le> MAX_GROUP_DEPTH \<and> cat_group c j \<noteq> None \<and> (n > 0 \<longrightarrow> j \<noteq> i)"
proof -
  from assms(2) obtain g where "g \<in> set (cat_groups c)" "group_id g = i"
    by (auto dest: cat_group_Some)
  with assms(1) have "walk_group c i [] 0 = Inr ()"
    by (auto simp: cat_validate_ok_iff)
  from walk_group_chain [OF this assms(3)] show ?thesis by simp
qed


section \<open>Evolution\<close>

lemma validate_evolution_ok_iff:
  "validate_evolution c d = Inr u \<longleftrightarrow>
     cat_validate d = Inr () \<and> cat_version c < cat_version d \<and>
     set (feature_ids c) \<subseteq> set (feature_ids d) \<and> set (limit_keys c) \<subseteq> set (limit_keys d)"
  by (auto simp: validate_evolution_def try_each_Inr_iff set_feature_ids split: if_splits)

definition evolves :: "Catalog \<Rightarrow> Catalog \<Rightarrow> bool" where
  "evolves c d \<longleftrightarrow> validate_evolution c d = Inr ()"

section \<open>A concrete catalog\<close>

text \<open>
  The example of \<open>licensing-model.md\<close> cut down to two groups and two tiers; the
  witnesses of this and of later theories evaluate the operations on it.
\<close>

definition demo_feature :: "string \<Rightarrow> Feature" where
  "demo_feature i = \<lparr>feature_id = i, feature_label = i, feature_description = None,
     feature_deprecated_at = None\<rparr>"

definition demo_catalog :: Catalog where
  "demo_catalog = \<lparr>cat_product_id = ''acme'', cat_version = 1,
     cat_features = map demo_feature [''ex.pdf'', ''ex.svg'', ''ai''],
     cat_groups = [
       \<lparr>group_id = ''ex'', group_label = ''Export'',
        group_members = \<lparr>gm_includes = [], gm_features = [''ex.*'']\<rparr>\<rparr>,
       \<lparr>group_id = ''pro'', group_label = ''Pro'',
        group_members = \<lparr>gm_includes = [''ex''], gm_features = [''ai'']\<rparr>\<rparr>],
     cat_tiers = [
       \<lparr>tier_id = ''free'', tier_label = ''Free'', tier_rank = 0, tier_groups = [''ex''],
        tier_features = [], tier_limits = [(''n'', 3)], tier_archived_at = None\<rparr>,
       \<lparr>tier_id = ''pro'', tier_label = ''Pro'', tier_rank = 10, tier_groups = [''pro''],
        tier_features = [], tier_limits = [(''n'', -1)], tier_archived_at = None\<rparr>]\<rparr>"

lemma demo_catalog_valid: "cat_validate demo_catalog = Inr ()"
  by code_simp

section \<open>Properties\<close>

text \<open>
  C24. A catalog that passes \<open>validate\<close> has no cycle among its groups, and no chain of
  inclusions is longer than \<open>MAX_GROUP_DEPTH\<close>.
\<close>

theorem catalog_valid_acyclic:
  assumes "cat_validate c = Inr ()"
  shows "acyclic (includes_rel c) \<and> (\<forall>i j n. (i, j) \<in> includes_rel c ^^ n \<longrightarrow> n \<le> MAX_GROUP_DEPTH)"
proof -
  have declared: "cat_group c i \<noteq> None" if "(i, j) \<in> includes_rel c ^^ n" "n > 0" for i j n
    using that by (auto simp: includes_rel_def elim: relpow_E2)
  have "(i, i) \<notin> (includes_rel c)\<^sup>+" for i
    using cat_validate_chain [OF assms] declared by (metis trancl_power)
  moreover have "n \<le> MAX_GROUP_DEPTH" if "(i, j) \<in> includes_rel c ^^ n" for i j n
    using cat_validate_chain [OF assms _ that] declared [OF that] by (cases "n > 0") auto
  ultimately show ?thesis by (auto simp: acyclic_def)
qed

theorem catalog_valid_acyclic_witness:
  "cat_validate demo_catalog = Inr () \<and> acyclic (includes_rel demo_catalog) \<and>
   (''pro'', ''ex'') \<in> includes_rel demo_catalog"
proof (intro conjI)
  show valid: "cat_validate demo_catalog = Inr ()" by (rule demo_catalog_valid)
  show "acyclic (includes_rel demo_catalog)" using catalog_valid_acyclic [OF valid] by simp
  show "(''pro'', ''ex'') \<in> includes_rel demo_catalog"
    by (simp add: includes_rel_def demo_catalog_def cat_group_def)
qed



end
