(* ===== verification/Entitlement.thy ===== *)
theory Entitlement
  imports Catalog
begin

text \<open>
  \<open>copylocker-server-core/src/entitlement.rs\<close>: resolving an entitlement specification
  against a catalog.  \<open>in_group\<close> and \<open>entitled\<close> say declaratively which features a
  specification confers; \<open>resolve\<close> computes exactly those, in canonical order, never
  fails on a validated catalog whose specification names existing things, and its limits
  follow the merge policy.
\<close>

section \<open>Data\<close>

datatype GrantTarget = Feature string | Group string

record Grant =
  grant_target :: GrantTarget
  grant_valid_from :: "i64 option"
  grant_valid_until :: "i64 option"
  grant_source :: string
  grant_limits :: "(string, LimitValue) bmap"

definition grant_is_active :: "Grant \<Rightarrow> i64 \<Rightarrow> bool" where
  "grant_is_active g now =
     (let started = (case grant_valid_from g of None \<Rightarrow> True | Some f \<Rightarrow> now \<ge> f);
          not_ended = (case grant_valid_until g of None \<Rightarrow> True | Some u \<Rightarrow> now < u)
      in started \<and> not_ended)"

datatype LimitMergePolicy = Max | Sum | Override

record EntitlementSpec =
  es_tier :: string
  es_extra_groups :: "string list"
  es_grants :: "Grant list"
  es_excluded_features :: "string list"
  es_limit_overrides :: "(string, LimitValue) bmap"
  es_limit_merge :: "(string, LimitMergePolicy) bmap"

datatype PolicyError =
    Catalog CatalogError | UnknownTier string | UnknownGroup string | UnknownFeature string

section \<open>Resolution\<close>

definition policy_for :: "EntitlementSpec \<Rightarrow> string \<Rightarrow> LimitMergePolicy" where
  "policy_for spec k =
     (case bmap_get (es_limit_merge spec) k of None \<Rightarrow> LimitMergePolicy.Max | Some p \<Rightarrow> p)"

fun merge_value :: "LimitValue option \<Rightarrow> LimitMergePolicy \<Rightarrow> LimitValue \<Rightarrow> LimitValue" where
  "merge_value None policy incoming = incoming"
| "merge_value (Some cur) LimitMergePolicy.Override incoming = incoming"
| "merge_value (Some cur) LimitMergePolicy.Max incoming =
     (if cur = LIMIT_UNLIMITED \<or> incoming = LIMIT_UNLIMITED then LIMIT_UNLIMITED
      else max cur incoming)"
| "merge_value (Some cur) LimitMergePolicy.Sum incoming =
     (if cur = LIMIT_UNLIMITED \<or> incoming = LIMIT_UNLIMITED then LIMIT_UNLIMITED
      else sat_add cur incoming)"

definition merge_limit ::
  "(string, LimitValue) bmap \<Rightarrow> string \<Rightarrow> LimitValue \<Rightarrow> LimitMergePolicy \<Rightarrow> (string, LimitValue) bmap"
where
  "merge_limit limits k incoming policy =
     bmap_insert k (merge_value (bmap_get limits k) policy incoming) limits"

definition merge_limits ::
  "EntitlementSpec \<Rightarrow> (string, LimitValue) bmap \<Rightarrow> (string, LimitValue) bmap \<Rightarrow> (string, LimitValue) bmap"
where
  "merge_limits spec limits incoming =
     foldl (\<lambda>l (k, v). merge_limit l k v (policy_for spec k)) limits incoming"

definition add_pattern :: "Catalog \<Rightarrow> string bset \<Rightarrow> string \<Rightarrow> (PolicyError, string bset) result" where
  "add_pattern c out pattern =
     (case expand_pattern c pattern of
        Inl e \<Rightarrow> Inl (PolicyError.Catalog e)
      | Inr ids \<Rightarrow> Inr (fold bset_insert ids out))"

function (sequential)
  collect_group :: "Catalog \<Rightarrow> string \<Rightarrow> string bset \<Rightarrow> nat \<Rightarrow> (PolicyError, string bset) result"
and collect_includes ::
  "Catalog \<Rightarrow> string list \<Rightarrow> string bset \<Rightarrow> nat \<Rightarrow> (PolicyError, string bset) result"
where
  "collect_group c i out depth =
     (if depth > MAX_GROUP_DEPTH then Inl (PolicyError.Catalog (DepthExceeded i))
      else case cat_group c i of
             None \<Rightarrow> Inl (UnknownGroup i)
           | Some g \<Rightarrow>
               (case collect_includes c (gm_includes (group_members g)) out (depth + 1) of
                  Inl e \<Rightarrow> Inl e
                | Inr out' \<Rightarrow> try_fold (add_pattern c) out' (gm_features (group_members g))))"
| "collect_includes c [] out depth = Inr out"
| "collect_includes c (inc # incs) out depth =
     (case collect_group c inc out depth of
        Inl e \<Rightarrow> Inl e
      | Inr out' \<Rightarrow> collect_includes c incs out' depth)"
  by pat_completeness auto
termination
  by (relation "measures
        [case_sum (\<lambda>(c, i, out, depth). MAX_GROUP_DEPTH + 2 - depth)
                  (\<lambda>(c, incs, out, depth). MAX_GROUP_DEPTH + 2 - depth),
         case_sum (\<lambda>_. 0) (\<lambda>(c, incs, out, depth). length incs)]") auto

declare collect_group.simps [simp del] collect_includes.simps [simp del]

definition add_grant ::
  "Catalog \<Rightarrow> EntitlementSpec \<Rightarrow> i64 \<Rightarrow> string bset \<times> (string, LimitValue) bmap \<Rightarrow> Grant
   \<Rightarrow> (PolicyError, string bset \<times> (string, LimitValue) bmap) result"
where
  "add_grant c spec now acc grant =
     (if \<not> grant_is_active grant now then Inr acc
      else case (case grant_target grant of
                   GrantTarget.Feature i \<Rightarrow> add_pattern c (fst acc) i
                 | GrantTarget.Group i \<Rightarrow> collect_group c i (fst acc) 0) of
             Inl e \<Rightarrow> Inl e
           | Inr features \<Rightarrow> Inr (features, merge_limits spec (snd acc) (grant_limits grant)))"

definition exclude_feature :: "Catalog \<Rightarrow> string bset \<Rightarrow> string \<Rightarrow> (PolicyError, string bset) result" where
  "exclude_feature c features ex =
     (if cat_feature c ex = None then Inl (UnknownFeature ex)
      else Inr (bset_remove ex features))"

definition resolve :: "Catalog \<Rightarrow> EntitlementSpec \<Rightarrow> i64 \<Rightarrow> (PolicyError, Entitlements) result" where
  "resolve c spec now =
     (case cat_validate c of Inl e \<Rightarrow> Inl (PolicyError.Catalog e) | Inr _ \<Rightarrow>
      case cat_tier c (es_tier spec) of None \<Rightarrow> Inl (UnknownTier (es_tier spec)) | Some tier \<Rightarrow>
      case try_fold (\<lambda>out i. collect_group c i out 0) [] (tier_groups tier) of Inl e \<Rightarrow> Inl e | Inr f1 \<Rightarrow>
      case try_fold (add_pattern c) f1 (tier_features tier) of Inl e \<Rightarrow> Inl e | Inr f2 \<Rightarrow>
      let limits1 = bmap_copy (tier_limits tier) [] in
      case try_fold (\<lambda>out i. collect_group c i out 0) f2 (es_extra_groups spec) of Inl e \<Rightarrow> Inl e | Inr f3 \<Rightarrow>
      case try_fold (add_grant c spec now) (f3, limits1) (es_grants spec) of Inl e \<Rightarrow> Inl e | Inr (f4, limits2) \<Rightarrow>
      case try_fold (exclude_feature c) f4 (es_excluded_features spec) of Inl e \<Rightarrow> Inl e | Inr f5 \<Rightarrow>
      let limits3 = merge_limits spec limits2 (es_limit_overrides spec) in
      Inr \<lparr>ent_features = f5, ent_limits = limits3, ent_tier_id = tier_id tier,
           ent_tier_label = tier_label tier, ent_catalog_version = cat_version c,
           ent_version_scope = None, ent_subscription_hint = None\<rparr>)"

definition with_context ::
  "Entitlements \<Rightarrow> VersionScope option \<Rightarrow> SubscriptionHint option \<Rightarrow> Entitlements"
where
  "with_context e scope hint = e\<lparr>ent_version_scope := scope, ent_subscription_hint := hint\<rparr>"

datatype Ordering = Less | Equal | Greater

definition cmp :: "'a::linorder \<Rightarrow> 'a \<Rightarrow> Ordering" where
  "cmp a b = (if a < b then Less else if a = b then Equal else Greater)"

definition compare_tiers :: "Catalog \<Rightarrow> string \<Rightarrow> string \<Rightarrow> Ordering option" where
  "compare_tiers c a b =
     (case cat_tier c a of None \<Rightarrow> None | Some ta \<Rightarrow>
      case cat_tier c b of None \<Rightarrow> None | Some tb \<Rightarrow> Some (cmp (tier_rank ta) (tier_rank tb)))"

section \<open>What a specification confers\<close>

definition matches :: "Catalog \<Rightarrow> string \<Rightarrow> string \<Rightarrow> bool" where
  "matches c pat f \<longleftrightarrow> (\<exists>ids. expand_pattern c pat = Inr ids \<and> f \<in> set ids)"

inductive in_group :: "Catalog \<Rightarrow> string \<Rightarrow> string \<Rightarrow> bool" for c where
  direct: "cat_group c i = Some g \<Longrightarrow> pat \<in> set (gm_features (group_members g)) \<Longrightarrow> matches c pat f
     \<Longrightarrow> in_group c i f"
| nested: "cat_group c i = Some g \<Longrightarrow> j \<in> set (gm_includes (group_members g)) \<Longrightarrow> in_group c j f
     \<Longrightarrow> in_group c i f"

inductive_simps in_group_iff: "in_group c i f"

definition target_confers :: "Catalog \<Rightarrow> GrantTarget \<Rightarrow> string \<Rightarrow> bool" where
  "target_confers c tgt f =
     (case tgt of GrantTarget.Feature i \<Rightarrow> matches c i f | GrantTarget.Group i \<Rightarrow> in_group c i f)"

definition entitled :: "Catalog \<Rightarrow> EntitlementSpec \<Rightarrow> i64 \<Rightarrow> string \<Rightarrow> bool" where
  "entitled c spec now f \<longleftrightarrow>
     (\<exists>t. cat_tier c (es_tier spec) = Some t \<and>
        ((\<exists>i \<in> set (tier_groups t). in_group c i f) \<or> (\<exists>p \<in> set (tier_features t). matches c p f))) \<or>
     (\<exists>i \<in> set (es_extra_groups spec). in_group c i f) \<or>
     (\<exists>g \<in> set (es_grants spec). grant_is_active g now \<and> target_confers c (grant_target g) f)"

text \<open>\<open>grows P s t\<close>: the ordered set \<open>t\<close> is \<open>s\<close> with the features satisfying \<open>P\<close> added.\<close>

definition grows :: "(string \<Rightarrow> bool) \<Rightarrow> string bset \<Rightarrow> string bset \<Rightarrow> bool" where
  "grows P s t \<longleftrightarrow> set t = set s \<union> Collect P \<and> (bset_wf s \<longrightarrow> bset_wf t)"

lemma growsI: "set t = set s \<union> Collect P \<Longrightarrow> (bset_wf s \<Longrightarrow> bset_wf t) \<Longrightarrow> grows P s t"
  by (simp add: grows_def)

lemma add_pattern_grows: "add_pattern c s p = Inr t \<Longrightarrow> grows (matches c p) s t"
  by (auto simp: add_pattern_def grows_def matches_def bset.elems_fold_ins
      intro: bset.wf_fold_ins split: sum.splits)

lemma try_fold_grows:
  assumes "try_fold f s xs = Inr t"
    and "\<And>s t x. x \<in> set xs \<Longrightarrow> f s x = Inr t \<Longrightarrow> grows (P x) (proj s) (proj t)"
  shows "grows (\<lambda>y. \<exists>x \<in> set xs. P x y) (proj s) (proj t)"
  using assms
proof (induction xs arbitrary: s)
  case Nil
  then show ?case by (simp add: grows_def)
next
  case (Cons x xs)
  from Cons.prems(1) obtain u where u: "f s x = Inr u" "try_fold f u xs = Inr t"
    by (auto split: sum.splits)
  have "grows (P x) (proj s) (proj u)" using Cons.prems(2) u(1) by simp
  moreover have "grows (\<lambda>y. \<exists>x \<in> set xs. P x y) (proj u) (proj t)"
    using u(2) Cons.prems(2) by (intro Cons.IH) auto
  ultimately show ?case by (auto simp: grows_def)
qed

lemmas try_fold_grows_id = try_fold_grows [where proj = "\<lambda>x. x"]

lemma collect_grows:
  "collect_group c i s d = Inr t \<Longrightarrow> grows (in_group c i) s t"
  "collect_includes c incs s d = Inr t \<Longrightarrow> grows (\<lambda>f. \<exists>i \<in> set incs. in_group c i f) s t"
proof (induction c i s d and c incs s d arbitrary: t and t
    rule: collect_group_collect_includes.induct)
  case (1 c i s d)
  from "1.prems" obtain g u where g: "cat_group c i = Some g" and "\<not> d > MAX_GROUP_DEPTH"
    and u: "collect_includes c (gm_includes (group_members g)) s (d + 1) = Inr u"
    and t: "try_fold (add_pattern c) u (gm_features (group_members g)) = Inr t"
    by (auto simp: collect_group.simps [of c i] split: if_splits option.splits sum.splits)
  with "1.IH" have "grows (\<lambda>f. \<exists>j \<in> set (gm_includes (group_members g)). in_group c j f) s u"
    by blast
  moreover from t have "grows (\<lambda>f. \<exists>p \<in> set (gm_features (group_members g)). matches c p f) u t"
    by (rule try_fold_grows_id) (rule add_pattern_grows)
  moreover have "in_group c i f \<longleftrightarrow> (\<exists>j \<in> set (gm_includes (group_members g)). in_group c j f) \<or>
      (\<exists>p \<in> set (gm_features (group_members g)). matches c p f)" for f
    using g by (auto simp: in_group_iff [of c i f])
  ultimately show ?case by (auto simp: grows_def)
next
  case (2 c s d)
  then show ?case by (simp add: collect_includes.simps grows_def)
next
  case (3 c inc incs s d)
  then show ?case
    by (fastforce simp: collect_includes.simps grows_def split: sum.splits)
qed


lemma add_grant_grows:
  "add_grant c spec now acc g = Inr acc' \<Longrightarrow>
   grows (\<lambda>f. grant_is_active g now \<and> target_confers c (grant_target g) f) (fst acc) (fst acc')"
  by (auto simp: add_grant_def target_confers_def grows_def
      dest!: add_pattern_grows collect_grows(1) split: if_splits sum.splits GrantTarget.splits)

lemma exclude_all:
  "try_fold (exclude_feature c) s xs = Inr t \<Longrightarrow> set t = set s - set xs \<and> (bset_wf s \<longrightarrow> bset_wf t)"
  by (induction xs arbitrary: s)
    (auto simp: exclude_feature_def split: if_splits sum.splits)

text \<open>The stages of a successful resolution.\<close>

lemma resolve_InrE:
  assumes "resolve c spec now = Inr e"
  obtains t f1 f2 f3 f4 l2 where
    "cat_validate c = Inr ()" "cat_tier c (es_tier spec) = Some t"
    "try_fold (\<lambda>out i. collect_group c i out 0) [] (tier_groups t) = Inr f1"
    "try_fold (add_pattern c) f1 (tier_features t) = Inr f2"
    "try_fold (\<lambda>out i. collect_group c i out 0) f2 (es_extra_groups spec) = Inr f3"
    "try_fold (add_grant c spec now) (f3, bmap_copy (tier_limits t) []) (es_grants spec) = Inr (f4, l2)"
    "try_fold (exclude_feature c) f4 (es_excluded_features spec) = Inr (ent_features e)"
    "ent_limits e = merge_limits spec l2 (es_limit_overrides spec)"
  using assms by (auto simp: resolve_def Let_def split: sum.splits option.splits)

lemma resolve_features:
  assumes "resolve c spec now = Inr e"
  shows "set (ent_features e) = {f. entitled c spec now f} - set (es_excluded_features spec)"
    and "bset_wf (ent_features e)"
proof -
  from assms obtain t f1 f2 f3 f4 l2 where t: "cat_tier c (es_tier spec) = Some t"
    and r1: "try_fold (\<lambda>out i. collect_group c i out 0) [] (tier_groups t) = Inr f1"
    and r2: "try_fold (add_pattern c) f1 (tier_features t) = Inr f2"
    and r3: "try_fold (\<lambda>out i. collect_group c i out 0) f2 (es_extra_groups spec) = Inr f3"
    and r4: "try_fold (add_grant c spec now) (f3, bmap_copy (tier_limits t) []) (es_grants spec) = Inr (f4, l2)"
    and r5: "try_fold (exclude_feature c) f4 (es_excluded_features spec) = Inr (ent_features e)"
    by (rule resolve_InrE) blast
  have g1: "grows (\<lambda>f. \<exists>i \<in> set (tier_groups t). in_group c i f) [] f1"
    using r1 by (rule try_fold_grows_id) (rule collect_grows(1))
  have g2: "grows (\<lambda>f. \<exists>p \<in> set (tier_features t). matches c p f) f1 f2"
    using r2 by (rule try_fold_grows_id) (rule add_pattern_grows)
  have g3: "grows (\<lambda>f. \<exists>i \<in> set (es_extra_groups spec). in_group c i f) f2 f3"
    using r3 by (rule try_fold_grows_id) (rule collect_grows(1))
  have g4: "grows (\<lambda>f. \<exists>g \<in> set (es_grants spec).
      grant_is_active g now \<and> target_confers c (grant_target g) f) f3 f4"
    using try_fold_grows [OF r4, where proj = fst] add_grant_grows by simp
  note all = g1 g2 g3 g4 exclude_all [OF r5]
  show "bset_wf (ent_features e)" using all by (simp add: grows_def)
  show "set (ent_features e) = {f. entitled c spec now f} - set (es_excluded_features spec)"
    using all t by (auto simp: grows_def entitled_def)
qed

lemma matches_declared: "matches c p f \<Longrightarrow> f \<in> set (feature_ids c)"
  using expand_pattern_declared by (auto simp: matches_def)

lemma in_group_declared: "in_group c i f \<Longrightarrow> f \<in> set (feature_ids c)"
  by (induction rule: in_group.induct) (auto dest: matches_declared)

lemma target_confers_declared: "target_confers c tgt f \<Longrightarrow> f \<in> set (feature_ids c)"
  by (cases tgt) (auto simp: target_confers_def dest: matches_declared in_group_declared)

lemma entitled_declared: "entitled c spec now f \<Longrightarrow> f \<in> set (feature_ids c)"
  by (auto simp: entitled_def dest: matches_declared in_group_declared target_confers_declared)

section \<open>When resolution succeeds\<close>

definition target_resolves :: "Catalog \<Rightarrow> GrantTarget \<Rightarrow> bool" where
  "target_resolves c tgt =
     (case tgt of GrantTarget.Feature i \<Rightarrow> is_ok (expand_pattern c i)
                | GrantTarget.Group i \<Rightarrow> cat_group c i \<noteq> None)"

definition spec_resolves :: "Catalog \<Rightarrow> EntitlementSpec \<Rightarrow> i64 \<Rightarrow> bool" where
  "spec_resolves c spec now \<longleftrightarrow>
     cat_tier c (es_tier spec) \<noteq> None \<and>
     (\<forall>i \<in> set (es_extra_groups spec). cat_group c i \<noteq> None) \<and>
     (\<forall>g \<in> set (es_grants spec). grant_is_active g now \<longrightarrow> target_resolves c (grant_target g)) \<and>
     (\<forall>f \<in> set (es_excluded_features spec). cat_feature c f \<noteq> None)"

lemma is_ok_add_pattern [simp]: "is_ok (add_pattern c s p) \<longleftrightarrow> is_ok (expand_pattern c p)"
  by (simp add: add_pattern_def split: sum.splits)

lemma try_fold_ok_iff:
  assumes "\<And>s x. is_ok (f s x) \<longleftrightarrow> Q x"
  shows "is_ok (try_fold f s xs) \<longleftrightarrow> (\<forall>x \<in> set xs. Q x)"
proof (induction xs arbitrary: s)
  case Nil
  then show ?case by simp
next
  case (Cons x xs)
  then show ?case using assms [of s x] by (cases "f s x") auto
qed

lemma collect_ok:
  "group_refs_resolve c \<Longrightarrow> walk_group c i path d = Inr () \<Longrightarrow> is_ok (collect_group c i s d)"
  "group_refs_resolve c \<Longrightarrow> walk_includes c incs path d = Inr () \<Longrightarrow> is_ok (collect_includes c incs s d)"
proof (induction c i path d and c incs path d arbitrary: s and s
    rule: walk_group_walk_includes.induct)
  case (1 c i path d)
  from "1.prems"(2) obtain g where g: "cat_group c i = Some g" and d: "\<not> d > MAX_GROUP_DEPTH"
    and ni: "i \<notin> set path"
    and w: "walk_includes c (gm_includes (group_members g)) (path @ [i]) (d + 1) = Inr ()"
    by (auto simp: walk_group.simps [of c i] split: if_splits option.splits)
  from "1.IH" [OF ni d g "1.prems"(1) w] obtain u
    where u: "collect_includes c (gm_includes (group_members g)) s (d + 1) = Inr u"
    by (auto simp: is_ok_iff)
  have "\<forall>p \<in> set (gm_features (group_members g)). is_ok (expand_pattern c p)"
    using "1.prems"(1) cat_group_Some [OF g] by (auto simp: group_refs_resolve_def)
  then have "is_ok (try_fold (add_pattern c) u (gm_features (group_members g)))"
    by (subst try_fold_ok_iff [where Q = "\<lambda>p. is_ok (expand_pattern c p)"]) simp_all
  with g d u show ?case by (simp add: collect_group.simps [of c i])
next
  case (2 c path d)
  then show ?case by (simp add: collect_includes.simps)
next
  case (3 c inc incs path d)
  from "3.prems"(2) have w: "walk_group c inc path d = Inr ()" "walk_includes c incs path d = Inr ()"
    by (auto simp: walk_includes.simps split: sum.splits)
  with "3.IH" "3.prems"(1) show ?case by (simp add: collect_includes.simps is_ok_case)
qed


lemma collect_group_ok_iff:
  assumes "cat_validate c = Inr ()"
  shows "is_ok (collect_group c i s 0) \<longleftrightarrow> cat_group c i \<noteq> None"
proof
  assume "is_ok (collect_group c i s 0)"
  then show "cat_group c i \<noteq> None"
    by (auto simp: collect_group.simps [of c i] is_ok_def split: option.splits)
next
  assume "cat_group c i \<noteq> None"
  then obtain g where "g \<in> set (cat_groups c)" "group_id g = i"
    by (auto dest: cat_group_Some)
  with assms have "walk_group c i [] 0 = Inr ()" and "group_refs_resolve c"
    by (auto simp: cat_validate_ok_iff)
  then show "is_ok (collect_group c i s 0)" by (intro collect_ok(1))
qed

lemma add_grant_ok_iff:
  assumes "cat_validate c = Inr ()"
  shows "is_ok (add_grant c spec now acc g) \<longleftrightarrow>
    (grant_is_active g now \<longrightarrow> target_resolves c (grant_target g))"
  by (cases "grant_target g")
    (simp_all add: add_grant_def target_resolves_def is_ok_case collect_group_ok_iff [OF assms])

lemma exclude_feature_ok_iff: "is_ok (exclude_feature c s f) \<longleftrightarrow> cat_feature c f \<noteq> None"
  by (simp add: exclude_feature_def)

section \<open>Limits\<close>

text \<open>\<open>limit_le v w\<close>: the quota \<open>w\<close> is at least as generous as \<open>v\<close>.\<close>

definition limit_le :: "LimitValue \<Rightarrow> LimitValue \<Rightarrow> bool" where
  "limit_le v w \<longleftrightarrow> w = LIMIT_UNLIMITED \<or> (v \<noteq> LIMIT_UNLIMITED \<and> v \<le> w)"

lemma limit_le_refl [simp]: "limit_le v v"
  by (simp add: limit_le_def)

lemma limit_le_trans: "limit_le u v \<Longrightarrow> limit_le v w \<Longrightarrow> limit_le u w"
  by (auto simp: limit_le_def)

definition limit_at_least :: "string \<Rightarrow> LimitValue \<Rightarrow> (string, LimitValue) bmap \<Rightarrow> bool" where
  "limit_at_least k v l \<longleftrightarrow> (\<exists>w. bmap_get l k = Some w \<and> limit_le v w)"

lemma merge_limit_at_least:
  assumes "limit_at_least k v l" and "policy_for spec k = LimitMergePolicy.Max"
  shows "limit_at_least k v (merge_limit l j x (policy_for spec j))"
  using assms by (cases "j = k") (auto simp: limit_at_least_def merge_limit_def limit_le_def)

lemma merge_limits_at_least:
  assumes "limit_at_least k v l" and "policy_for spec k = LimitMergePolicy.Max"
  shows "limit_at_least k v (merge_limits spec l m)"
  unfolding merge_limits_def using assms(1)
  by (induction m arbitrary: l) (auto intro: merge_limit_at_least [OF _ assms(2)])

lemma merge_limit_incoming:
  "policy_for spec k = LimitMergePolicy.Max \<Longrightarrow>
   limit_at_least k x (merge_limit l k x (policy_for spec k))"
  by (cases "bmap_get l k") (auto simp: limit_at_least_def merge_limit_def limit_le_def)

lemma merge_limits_incoming:
  assumes "(k, x) \<in> set m" and max: "policy_for spec k = LimitMergePolicy.Max"
  shows "limit_at_least k x (merge_limits spec l m)"
proof -
  from assms(1) obtain m1 m2 where m: "m = m1 @ (k, x) # m2" by (auto dest: split_list)
  have "limit_at_least k x (merge_limit (merge_limits spec l m1) k x (policy_for spec k))"
    using max by (rule merge_limit_incoming)
  then have "limit_at_least k x
      (merge_limits spec (merge_limit (merge_limits spec l m1) k x (policy_for spec k)) m2)"
    using max by (rule merge_limits_at_least)
  then show ?thesis by (simp add: m merge_limits_def)
qed

lemma merge_limits_wf: "bmap_wf l \<Longrightarrow> bmap_wf (merge_limits spec l m)"
  unfolding merge_limits_def by (induction m arbitrary: l) (auto simp: merge_limit_def)

lemma add_grant_limits_at_least:
  assumes "add_grant c spec now acc g = Inr acc'" and "limit_at_least k v (snd acc)"
    and "policy_for spec k = LimitMergePolicy.Max"
  shows "limit_at_least k v (snd acc')"
  using assms merge_limits_at_least by (auto simp: add_grant_def split: if_splits sum.splits)

lemma add_grant_limits_wf:
  "add_grant c spec now acc g = Inr acc' \<Longrightarrow> bmap_wf (snd acc) \<Longrightarrow> bmap_wf (snd acc')"
  using merge_limits_wf by (auto simp: add_grant_def split: if_splits sum.splits)

lemma merge_limits_override_last:
  assumes "bmap_wf m" and "bmap_get m k = Some v" and "policy_for spec k = LimitMergePolicy.Override"
  shows "bmap_get (merge_limits spec l m) k = Some v"
proof -
  have other: "bmap_get (merge_limits spec l n) k = bmap_get l k" if "k \<notin> fst ` set n" for l n
    using that unfolding merge_limits_def
    by (induction n arbitrary: l) (auto simp: merge_limit_def)
  from assms(1,2) have "(k, v) \<in> set m" by (simp add: bmap_get_eq_Some)
  then obtain m1 m2 where m: "m = m1 @ (k, v) # m2" by (auto dest: split_list)
  with assms(1) have "k \<notin> fst ` set m2" by (auto simp: bmap_wf_def sorted_wrt_append)
  then have "bmap_get (merge_limits spec (merge_limit (merge_limits spec l m1) k v (policy_for spec k)) m2) k
      = Some v"
    using assms(3) by (cases "bmap_get (merge_limits spec l m1) k") (simp_all add: other merge_limit_def)
  then show ?thesis by (simp add: m merge_limits_def)
qed


text \<open>Each stage of \<^const>\<open>resolve\<close> succeeds independently of what was accumulated before.\<close>

lemma resolve_stages_ok:
  assumes "cat_validate c = Inr ()"
  shows "is_ok (try_fold (\<lambda>out i. collect_group c i out 0) s is) \<longleftrightarrow> (\<forall>i \<in> set is. cat_group c i \<noteq> None)"
    and "is_ok (try_fold (add_pattern c) s ps) \<longleftrightarrow> (\<forall>p \<in> set ps. is_ok (expand_pattern c p))"
    and "is_ok (try_fold (add_grant c spec now) acc gs) \<longleftrightarrow>
      (\<forall>g \<in> set gs. grant_is_active g now \<longrightarrow> target_resolves c (grant_target g))"
    and "is_ok (try_fold (exclude_feature c) s fs) \<longleftrightarrow> (\<forall>f \<in> set fs. cat_feature c f \<noteq> None)"
  by (rule try_fold_ok_iff, rule collect_group_ok_iff [OF assms] is_ok_add_pattern
      add_grant_ok_iff [OF assms] exclude_feature_ok_iff)+

lemma resolve_ok_iff:
  "is_ok (resolve c spec now) \<longleftrightarrow> cat_validate c = Inr () \<and> spec_resolves c spec now"
proof
  assume "is_ok (resolve c spec now)"
  then obtain e where "resolve c spec now = Inr e" by (auto simp: is_ok_iff)
  then show "cat_validate c = Inr () \<and> spec_resolves c spec now"
  proof (rule resolve_InrE)
    fix t f1 f2 f3 f4 l2
    assume v: "cat_validate c = Inr ()" and "cat_tier c (es_tier spec) = Some t"
      and "try_fold (\<lambda>out i. collect_group c i out 0) f2 (es_extra_groups spec) = Inr f3"
      and "try_fold (add_grant c spec now) (f3, bmap_copy (tier_limits t) []) (es_grants spec) = Inr (f4, l2)"
      and "try_fold (exclude_feature c) f4 (es_excluded_features spec) = Inr (ent_features e)"
    then show ?thesis
      using resolve_stages_ok(1) [OF v, of f2 "es_extra_groups spec"]
        resolve_stages_ok(3) [OF v, of spec now "(f3, bmap_copy (tier_limits t) [])" "es_grants spec"]
        resolve_stages_ok(4) [OF v, of f4 "es_excluded_features spec"]
      by (simp add: spec_resolves_def)
  qed
next
  assume a: "cat_validate c = Inr () \<and> spec_resolves c spec now"
  then obtain t where v: "cat_validate c = Inr ()" and t: "cat_tier c (es_tier spec) = Some t"
    by (auto simp: spec_resolves_def)
  from v cat_tier_Some [OF t] have refs: "\<forall>i \<in> set (tier_groups t). cat_group c i \<noteq> None"
    "\<forall>p \<in> set (tier_features t). is_ok (expand_pattern c p)"
    by (auto simp: cat_validate_ok_iff tier_refs_resolve_def)
  note ok = resolve_stages_ok [OF v]
  obtain f1 where 1: "try_fold (\<lambda>out i. collect_group c i out 0) [] (tier_groups t) = Inr f1"
    using refs ok(1) by (metis is_ok_iff)
  obtain f2 where 2: "try_fold (add_pattern c) f1 (tier_features t) = Inr f2"
    using refs ok(2) by (metis is_ok_iff)
  obtain f3 where 3: "try_fold (\<lambda>out i. collect_group c i out 0) f2 (es_extra_groups spec) = Inr f3"
    using a ok(1) by (metis is_ok_iff spec_resolves_def)
  obtain f4 l2 where 4: "try_fold (add_grant c spec now) (f3, bmap_copy (tier_limits t) []) (es_grants spec)
      = Inr (f4, l2)"
    using a ok(3) by (metis is_ok_iff spec_resolves_def surj_pair)
  obtain f5 where 5: "try_fold (exclude_feature c) f4 (es_excluded_features spec) = Inr f5"
    using a ok(4) by (metis is_ok_iff spec_resolves_def)
  show "is_ok (resolve c spec now)" by (simp add: resolve_def Let_def v t 1 2 3 4 5)
qed

text \<open>The value of a limit that merges by maximum, through the whole resolution.\<close>

lemma resolve_limit_at_least:
  assumes r: "resolve c spec now = Inr e" and max: "policy_for spec k = LimitMergePolicy.Max"
    and src: "(\<exists>t. cat_tier c (es_tier spec) = Some t \<and> bmap_get (tier_limits t) k = Some v \<and> bmap_wf (tier_limits t))
       \<or> (\<exists>g \<in> set (es_grants spec). grant_is_active g now \<and> (k, v) \<in> set (grant_limits g))
       \<or> (k, v) \<in> set (es_limit_overrides spec)"
  shows "limit_at_least k v (ent_limits e)"
  using r
proof (rule resolve_InrE)
  fix t f1 f2 f3 f4 l2
  assume t: "cat_tier c (es_tier spec) = Some t"
    and f: "try_fold (add_grant c spec now) (f3, bmap_copy (tier_limits t) []) (es_grants spec) = Inr (f4, l2)"
    and e: "ent_limits e = merge_limits spec l2 (es_limit_overrides spec)"
  let ?P = "\<lambda>acc. limit_at_least k v (snd acc)"
  note keep = add_grant_limits_at_least [OF _ _ max]
  consider (tier) "bmap_get (tier_limits t) k = Some v" "bmap_wf (tier_limits t)"
    | (grant) g where "g \<in> set (es_grants spec)" "grant_is_active g now" "(k, v) \<in> set (grant_limits g)"
    | (ov) "(k, v) \<in> set (es_limit_overrides spec)"
    using src t by auto
  then have "limit_at_least k v l2 \<or> (k, v) \<in> set (es_limit_overrides spec)"
  proof cases
    case tier
    then have "?P (f3, bmap_copy (tier_limits t) [])" by (simp add: limit_at_least_def bmap_get_copy)
    with f have "?P (f4, l2)" by (rule try_fold_inv) (rule keep)
    then show ?thesis by simp
  next
    case grant
    then obtain gs1 gs2 where "es_grants spec = gs1 @ g # gs2" by (auto dest: split_list)
    with f obtain acc1 acc2 where g: "add_grant c spec now acc1 g = Inr acc2"
      and rest: "try_fold (add_grant c spec now) acc2 gs2 = Inr (f4, l2)"
      by (auto simp: try_fold_append split: sum.splits)
    from g grant have "?P acc2"
      by (auto simp: add_grant_def merge_limits_incoming [OF _ max] split: sum.splits)
    with rest have "?P (f4, l2)" by (rule try_fold_inv) (rule keep)
    then show ?thesis by simp
  qed simp
  then show ?thesis
    using merge_limits_at_least [OF _ max] merge_limits_incoming [OF _ max] by (auto simp: e)
qed

definition demo_grant :: Grant where
  "demo_grant = \<lparr>grant_target = GrantTarget.Feature ''ai'', grant_valid_from = None,
     grant_valid_until = Some 100, grant_source = ''promo'', grant_limits = [(''n'', 7)]\<rparr>"

definition demo_spec :: EntitlementSpec where
  "demo_spec = \<lparr>es_tier = ''free'', es_extra_groups = [], es_grants = [demo_grant],
     es_excluded_features = [''ex.svg''], es_limit_overrides = [(''n'', 2)], es_limit_merge = []\<rparr>"

lemma demo_resolve:
  "resolve demo_catalog demo_spec 50 = Inr \<lparr>ent_features = [''ai'', ''ex.pdf''],
     ent_limits = [(''n'', 7)], ent_tier_id = ''free'', ent_tier_label = ''Free'',
     ent_catalog_version = 1, ent_version_scope = None, ent_subscription_hint = None\<rparr>"
  by code_simp

section \<open>Properties\<close>

text \<open>
  C9. A successful resolution yields exactly the features the specification confers
  (tier, nested groups, extra groups and grants active at \<open>now\<close>) minus the excluded ones,
  in strictly ascending order, and every one of them is declared by the catalog.
\<close>

theorem resolve_exact:
  assumes "resolve c spec now = Inr e"
  shows "set (ent_features e) = {f. entitled c spec now f} - set (es_excluded_features spec)
    \<and> bset_wf (ent_features e) \<and> set (ent_features e) \<subseteq> set (feature_ids c)"
  using resolve_features [OF assms] entitled_declared by auto

theorem resolve_exact_witness:
  "\<exists>e. resolve demo_catalog demo_spec 50 = Inr e \<and> ''ai'' \<in> set (ent_features e) \<and>
     entitled demo_catalog demo_spec 50 ''ai''"
proof -
  have "{f. entitled demo_catalog demo_spec 50 f} - set (es_excluded_features demo_spec) = {''ai'', ''ex.pdf''}"
    using resolve_exact [OF demo_resolve] by simp
  then have "entitled demo_catalog demo_spec 50 ''ai''" by blast
  with demo_resolve show ?thesis by simp
qed

text \<open>
  C34. Resolution succeeds exactly when the catalog validates and every tier, group,
  feature and active grant the specification names exists: on a validated catalog it
  never fails for depth, cycles or dangling references inside the catalog.
\<close>

theorem resolve_succeeds_iff:
  "(\<exists>e. resolve c spec now = Inr e) \<longleftrightarrow> cat_validate c = Inr () \<and> spec_resolves c spec now"
  using resolve_ok_iff [of c spec now] by (simp add: is_ok_iff)

text \<open>
  Determinism: the signed feature list depends only on the sets of extra groups,
  grants and exclusions, never on the order (or repetition) in which they are listed.
\<close>

theorem resolve_order_independent:
  assumes "es_tier s' = es_tier s" and "set (es_extra_groups s') = set (es_extra_groups s)"
    and "set (es_grants s') = set (es_grants s)"
    and "set (es_excluded_features s') = set (es_excluded_features s)"
  shows "map_option ent_features (result_ok (resolve c s' now)) =
         map_option ent_features (result_ok (resolve c s now))"
proof -
  have ok: "is_ok (resolve c s' now) \<longleftrightarrow> is_ok (resolve c s now)"
    using assms by (simp add: resolve_ok_iff spec_resolves_def)
  have ent: "entitled c s' now = entitled c s now"
    using assms by (simp add: entitled_def fun_eq_iff)
  have same: "ent_features e' = ent_features e"
    if r: "resolve c s' now = Inr e'" "resolve c s now = Inr e" for e e'
    using resolve_features [OF r(1)] resolve_features [OF r(2)] assms(4) ent
    by (intro bset_canonical) simp_all
  show ?thesis
  proof (cases "resolve c s' now")
    case (Inl x)
    with ok show ?thesis by (cases "resolve c s now") simp_all
  next
    case (Inr e')
    with ok obtain e where e: "resolve c s now = Inr e" by (auto simp: is_ok_iff)
    from same [OF Inr e] Inr e show ?thesis by simp
  qed
qed

theorem resolve_order_independent_witness:
  "map_option ent_features (result_ok (resolve demo_catalog (demo_spec\<lparr>es_grants := [demo_grant, demo_grant]\<rparr>) 50))
   = Some [''ai'', ''ex.pdf'']"
proof -
  have "map_option ent_features (result_ok (resolve demo_catalog (demo_spec\<lparr>es_grants := [demo_grant, demo_grant]\<rparr>) 50))
    = map_option ent_features (result_ok (resolve demo_catalog demo_spec 50))"
    by (rule resolve_order_independent) (simp_all add: demo_spec_def)
  then show ?thesis by (simp add: demo_resolve)
qed



end
