(* ===== verification/Policy.thy ===== *)
theory Policy
  imports Entitlement
begin

text \<open>
  \<open>copylocker-server-core/src/policy.rs\<close>: the five-axis policy, the defects it may have,
  the warnings it raises, the expiry of a term and the named presets.  An addition that
  the sources leave unguarded panics on overflow, so \<open>warnings\<close> is partial.
\<close>

section \<open>The five axes\<close>

datatype TrialScope = Fingerprint | Account | Email

datatype FallbackScopeAt = EarnedAt | SubscriptionStart

record PerpetualFallback =
  pf_after_months :: u32
  pf_scope_at :: FallbackScopeAt

datatype Validity =
    Perpetual
  | FixedTerm (duration_secs: i64)
  | Subscription (period_secs: i64) (dunning_grace_secs: i64) (fallback: "PerpetualFallback option")
  | Trial (trial_duration_secs: i64) (once_per: TrialScope) (extendable_by_secs: "i64 option")

record SeatSpec =
  ss_seats :: u32
  ss_max_transfers :: "u32 option"
  ss_transfer_window_secs :: "i64 option"
  ss_heartbeat_secs :: "i64 option"

definition seat_spec_default :: SeatSpec where
  "seat_spec_default =
     \<lparr>ss_seats = 1, ss_max_transfers = None, ss_transfer_window_secs = None,
      ss_heartbeat_secs = None\<rparr>"

datatype VtSignature = Fast | Pq

datatype OfflineUpgradePolicy = RequireOnline | PreloadN | VariantStable

record RuntimeSpec =
  rt_refresh_after_secs :: i64
  rt_grace_secs :: u32
  rt_fpr_tolerance :: nat
  rt_allow_vm :: bool
  rt_allow_olk :: bool
  rt_allow_unbound_olk :: bool
  rt_vt_signature :: VtSignature
  rt_offline_upgrade_policy :: OfflineUpgradePolicy
  rt_preload_variants_n :: u32
  rt_report_attrs :: bool

definition runtime_spec_default :: RuntimeSpec where
  "runtime_spec_default =
     \<lparr>rt_refresh_after_secs = 7 * 86400, rt_grace_secs = 14 * 86400, rt_fpr_tolerance = 70,
      rt_allow_vm = True, rt_allow_olk = False, rt_allow_unbound_olk = False,
      rt_vt_signature = Fast, rt_offline_upgrade_policy = RequireOnline,
      rt_preload_variants_n = 3, rt_report_attrs = False\<rparr>"

record Policy =
  pol_id :: string
  pol_product_id :: string
  pol_name :: string
  pol_preset :: "string option"
  pol_entitlement :: EntitlementSpec
  pol_validity :: Validity
  pol_version_scope :: VersionScope
  pol_seats :: SeatSpec
  pol_mode :: Mode
  pol_runtime :: RuntimeSpec

section \<open>Defects and warnings\<close>

record PolicyWarning =
  warn_id :: string
  warn_message :: string

datatype PolicyDefect =
    ZeroSeats | NonPositiveDuration string | ToleranceOutOfRange nat
  | TrialWithMultipleSeats u32 | UnboundOlkWithoutOlk

fun policy_defect_display :: "PolicyDefect \<Rightarrow> string" where
  "policy_defect_display ZeroSeats = ''seats must be at least 1''"
| "policy_defect_display (NonPositiveDuration w) = w @ '' must be positive''"
| "policy_defect_display (ToleranceOutOfRange v) =
     ''fingerprint tolerance '' @ show_nat v @ '' is outside 0..=100''"
| "policy_defect_display (TrialWithMultipleSeats n) =
     ''a trial must be single-seat, got '' @ show_nat n @
     '': multiple seats enable trial rotation''"
| "policy_defect_display UnboundOlkWithoutOlk = ''allow_unbound_olk requires allow_olk''"

definition policy_validate :: "Policy \<Rightarrow> (PolicyDefect, unit) result" where
  "policy_validate p =
     (if ss_seats (pol_seats p) = 0 then Inl ZeroSeats
      else if rt_fpr_tolerance (pol_runtime p) > 100
      then Inl (ToleranceOutOfRange (rt_fpr_tolerance (pol_runtime p)))
      else if rt_refresh_after_secs (pol_runtime p) \<le> 0
      then Inl (NonPositiveDuration ''refresh_after_secs'')
      else if rt_allow_unbound_olk (pol_runtime p) \<and> \<not> rt_allow_olk (pol_runtime p)
      then Inl UnboundOlkWithoutOlk
      else case pol_validity p of
             Validity.Perpetual \<Rightarrow> Inr ()
           | FixedTerm d \<Rightarrow> if d \<le> 0 then Inl (NonPositiveDuration ''duration_secs'') else Inr ()
           | Subscription period _ _ \<Rightarrow>
               if period \<le> 0 then Inl (NonPositiveDuration ''period_secs'') else Inr ()
           | Trial d _ _ \<Rightarrow>
               if d \<le> 0 then Inl (NonPositiveDuration ''duration_secs'')
               else if ss_seats (pol_seats p) \<noteq> 1
               then Inl (TrialWithMultipleSeats (ss_seats (pol_seats p)))
               else Inr ())"

definition exposure_warning :: "i64 \<Rightarrow> PolicyWarning list" where
  "exposure_warning exposure =
     (if exposure > 90 * 86400
      then [\<lparr>warn_id = ''long_exposure_window'',
             warn_message = ''refresh_after + grace is '' @ show_int (exposure sdiv 86400) @
               '' days; a revoked credential stays usable that long, and so does a leaked epoch key''\<rparr>]
      else [])"

definition billing_warning :: "Policy \<Rightarrow> PolicyWarning list" where
  "billing_warning p =
     (case pol_validity p of
        Subscription period _ _ \<Rightarrow>
          if rt_refresh_after_secs (pol_runtime p) > period sdiv 4
          then [\<lparr>warn_id = ''refresh_slower_than_billing'',
                 warn_message = ''refresh_after ('' @
                   show_int (rt_refresh_after_secs (pol_runtime p) sdiv 86400) @
                   ''d) exceeds a quarter of the billing period ('' @ show_int (period sdiv 86400) @
                   ''d); cancellations will propagate late''\<rparr>]
          else []
      | _ \<Rightarrow> [])"

definition warn_if :: "bool \<Rightarrow> string \<Rightarrow> string \<Rightarrow> PolicyWarning list" where
  "warn_if b i m = (if b then [\<lparr>warn_id = i, warn_message = m\<rparr>] else [])"

definition warnings :: "Policy \<Rightarrow> PolicyWarning list option" where
  "warnings p =
     (case add_i64 (rt_refresh_after_secs (pol_runtime p)) (int (rt_grace_secs (pol_runtime p))) of
        None \<Rightarrow> None
      | Some exposure \<Rightarrow> Some
          (exposure_warning exposure @
           billing_warning p @
           warn_if (pol_validity p = Validity.Perpetual \<and> pol_mode p = EnforcedOnline)
             ''perpetual_requires_forever_server''
             ''a perpetual licence in enforced-online mode stops working if the licence server is ever shut down'' @
           warn_if (rt_allow_unbound_olk (pol_runtime p))
             ''unbound_olk_copyable''
             ''offline keys without a device binding can be copied without limit'' @
           warn_if (rt_grace_secs (pol_runtime p) = 0 \<and> pol_mode p = OfflineHybrid)
             ''no_grace_in_offline_mode''
             ''grace is zero, so a brief network outage at refresh time locks the user out'' @
           warn_if (rt_fpr_tolerance (pol_runtime p) = 100)
             ''zero_fingerprint_tolerance''
             ''a tolerance of 100 requires an exact fingerprint match; ordinary hardware changes will cost users their seat''))"

section \<open>Expiry of a term\<close>

definition expires_at :: "Policy \<Rightarrow> i64 \<Rightarrow> i64 option" where
  "expires_at p term_start =
     (case pol_validity p of
        Validity.Perpetual \<Rightarrow> None
      | FixedTerm d \<Rightarrow> Some (sat_add term_start d)
      | Subscription period dunning _ \<Rightarrow> Some (sat_add (sat_add term_start period) dunning)
      | Trial d _ _ \<Rightarrow> Some (sat_add term_start d))"

section \<open>Presets\<close>

datatype Preset =
    Trial14d | Perpetual | PerpetualMajor | PerpetualFallback | SubMonthly | SubAnnual
  | SubAnnualFallback | TeamSub | EnterpriseAirgap | SaasClient | Edu1y

definition DAY :: i64 where "DAY = 86400"
definition YEAR :: i64 where "YEAR = 365 * DAY"

definition preset_all :: "Preset list" where
  "preset_all =
     [Trial14d, Preset.Perpetual, PerpetualMajor, Preset.PerpetualFallback, SubMonthly, SubAnnual,
      SubAnnualFallback, TeamSub, EnterpriseAirgap, SaasClient, Edu1y]"

fun preset_as_str :: "Preset \<Rightarrow> string" where
  "preset_as_str Trial14d = ''trial-14d''"
| "preset_as_str Preset.Perpetual = ''perpetual''"
| "preset_as_str PerpetualMajor = ''perpetual-major''"
| "preset_as_str Preset.PerpetualFallback = ''perpetual-fallback''"
| "preset_as_str SubMonthly = ''sub-monthly''"
| "preset_as_str SubAnnual = ''sub-annual''"
| "preset_as_str SubAnnualFallback = ''sub-annual-fallback''"
| "preset_as_str TeamSub = ''team-sub''"
| "preset_as_str EnterpriseAirgap = ''enterprise-airgap''"
| "preset_as_str SaasClient = ''saas-client''"
| "preset_as_str Edu1y = ''edu-1y''"

definition preset_parse :: "string \<Rightarrow> Preset option" where
  "preset_parse s = find (\<lambda>p. preset_as_str p = s) preset_all"

definition entitlement_spec_default :: "string \<Rightarrow> EntitlementSpec" where
  "entitlement_spec_default tier =
     \<lparr>es_tier = tier, es_extra_groups = [], es_grants = [], es_excluded_features = [],
      es_limit_overrides = [], es_limit_merge = []\<rparr>"

definition preset_base :: "Preset \<Rightarrow> string \<Rightarrow> string \<Rightarrow> string \<Rightarrow> Policy" where
  "preset_base self i product tier =
     \<lparr>pol_id = i, pol_product_id = product, pol_name = preset_as_str self,
      pol_preset = Some (preset_as_str self),
      pol_entitlement = entitlement_spec_default tier,
      pol_validity = Validity.Perpetual, pol_version_scope = VersionScope.Unlimited,
      pol_seats = seat_spec_default, pol_mode = OfflineHybrid,
      pol_runtime = runtime_spec_default\<rparr>"

abbreviation runtime_of :: "i64 \<Rightarrow> u32 \<Rightarrow> RuntimeSpec" where
  "runtime_of refresh grace \<equiv>
     runtime_spec_default\<lparr>rt_refresh_after_secs := refresh, rt_grace_secs := grace\<rparr>"

definition preset_build :: "Preset \<Rightarrow> string \<Rightarrow> string \<Rightarrow> string \<Rightarrow> i64 \<Rightarrow> Policy" where
  "preset_build self i product tier now =
     (let base = preset_base self i product tier in
      case self of
        Trial14d \<Rightarrow> base\<lparr>
          pol_validity := Trial (14 * DAY) TrialScope.Fingerprint (Some (14 * DAY)),
          pol_runtime := runtime_of DAY (nat (3 * DAY))\<rparr>
      | Preset.Perpetual \<Rightarrow> base
      | PerpetualMajor \<Rightarrow> base\<lparr>pol_version_scope := SemverRange ''^1''\<rparr>
      | Preset.PerpetualFallback \<Rightarrow> base\<lparr>pol_version_scope := ReleasedBefore (sat_add now YEAR)\<rparr>
      | SubMonthly \<Rightarrow> base\<lparr>
          pol_validity := Subscription (30 * DAY) (7 * DAY) None,
          pol_runtime := runtime_of (7 * DAY) (nat (7 * DAY))\<rparr>
      | SubAnnual \<Rightarrow> base\<lparr>
          pol_validity := Subscription YEAR (14 * DAY) None,
          pol_runtime := runtime_of (30 * DAY) (nat (14 * DAY))\<rparr>
      | SubAnnualFallback \<Rightarrow> base\<lparr>
          pol_validity := Subscription YEAR (14 * DAY)
            (Some \<lparr>pf_after_months = 12, pf_scope_at = EarnedAt\<rparr>),
          pol_runtime := runtime_of (30 * DAY) (nat (14 * DAY))\<rparr>
      | TeamSub \<Rightarrow> base\<lparr>
          pol_validity := Subscription YEAR (14 * DAY) None,
          pol_seats := seat_spec_default\<lparr>ss_seats := 25, ss_heartbeat_secs := Some (6 * 3600)\<rparr>,
          pol_runtime := runtime_of (30 * DAY) (nat (14 * DAY))\<rparr>
      | EnterpriseAirgap \<Rightarrow> base\<lparr>
          pol_validity := FixedTerm YEAR,
          pol_version_scope := Pinned [],
          pol_seats := seat_spec_default\<lparr>ss_seats := 50\<rparr>,
          pol_runtime := (runtime_of (180 * DAY) (nat (30 * DAY)))
            \<lparr>rt_allow_olk := True, rt_offline_upgrade_policy := PreloadN\<rparr>\<rparr>
      | SaasClient \<Rightarrow> base\<lparr>
          pol_validity := Subscription (30 * DAY) (7 * DAY) None,
          pol_seats := seat_spec_default\<lparr>ss_seats := 3, ss_heartbeat_secs := Some 3600\<rparr>,
          pol_mode := EnforcedOnline,
          pol_runtime := runtime_of 3600 3600\<rparr>
      | Edu1y \<Rightarrow> base\<lparr>
          pol_validity := FixedTerm YEAR,
          pol_runtime := runtime_of (30 * DAY) (nat (14 * DAY))\<rparr>)"

lemmas preset_defs =
  preset_build_def preset_base_def runtime_spec_default_def seat_spec_default_def DAY_def YEAR_def

interpretation preset_cli: strict_codec preset_as_str preset_parse "\<lambda>_. True"
proof
  fix p :: Preset
  show "preset_parse (preset_as_str p) = Some p"
    by (cases p) (simp_all add: preset_parse_def preset_all_def)
next
  fix s p
  assume "preset_parse s = Some p"
  then show "True \<and> preset_as_str p = s"
    by (auto simp: preset_parse_def dest: find_SomeD)
qed

section \<open>Properties\<close>

text \<open>A policy with no defect.\<close>

lemma policy_valid_iff:
  "policy_validate p = Inr () \<longleftrightarrow>
     ss_seats (pol_seats p) \<ge> 1 \<and> rt_fpr_tolerance (pol_runtime p) \<le> 100 \<and>
     rt_refresh_after_secs (pol_runtime p) > 0 \<and>
     (rt_allow_unbound_olk (pol_runtime p) \<longrightarrow> rt_allow_olk (pol_runtime p)) \<and>
     (case pol_validity p of
        Validity.Perpetual \<Rightarrow> True | FixedTerm d \<Rightarrow> d > 0 | Subscription period _ _ \<Rightarrow> period > 0
      | Trial d _ _ \<Rightarrow> d > 0 \<and> ss_seats (pol_seats p) = 1)"
  by (cases "pol_validity p") (auto simp: policy_validate_def)

lemma expires_at_None_iff: "expires_at p t = None \<longleftrightarrow> pol_validity p = Validity.Perpetual"
  by (simp add: expires_at_def split: Validity.splits)

lemma expires_at_mono:
  "t \<le> t' \<Longrightarrow> expires_at p t = Some e \<Longrightarrow> expires_at p t' = Some e' \<Longrightarrow> e \<le> e'"
  by (auto simp: expires_at_def sat_add_mono split: Validity.splits)

lemma expires_at_range: "expires_at p t = Some e \<Longrightarrow> in_i64 e"
  by (auto simp: expires_at_def sat_add_def split: Validity.splits)

lemma sat_add_twice_gt:
  assumes "in_i64 t" "t < i64_max" "0 < a" "0 \<le> b"
  shows "t < sat_add (sat_add t a) b" "sat_add t a \<le> sat_add (sat_add t a) b"
proof -
  show le: "sat_add t a \<le> sat_add (sat_add t a) b"
    using assms by (intro sat_add_ge) (simp_all add: sat_add_def)
  have "t < sat_add t a" using assms by (intro sat_add_gt)
  with le show "t < sat_add (sat_add t a) b" by simp
qed

lemma expires_at_after:
  assumes "policy_validate p = Inr ()" and "in_i64 t" "t < i64_max"
    and "\<forall>period d f. pol_validity p = Subscription period d f \<longrightarrow> 0 \<le> d"
    and "expires_at p t = Some e"
  shows "t < e"
  using assms(1,5) sat_add_gt [OF assms(2,3)] sat_add_twice_gt(1) [OF assms(2,3)] assms(4)
  by (cases "pol_validity p") (auto simp: policy_valid_iff expires_at_def)

text \<open>
  Every preset builds a policy without defects, for all arguments; its warnings are
  computed without overflow, and only the air-gapped preset raises one, about its exposure
  window.
\<close>

theorem presets_sound:
  "policy_validate (preset_build pr i product tier now) = Inr () \<and>
   map_option (map warn_id) (warnings (preset_build pr i product tier now)) =
     Some (if pr = EnterpriseAirgap then [''long_exposure_window''] else [])"
  by (cases pr) (simp_all add: preset_defs policy_validate_def warnings_def exposure_warning_def
      billing_warning_def warn_if_def sat_defs)



end
