(* ===== verification/Version.thy ===== *)
theory Version
  imports Types Text_Ops
begin

text \<open>
  \<open>copylocker-server-core/src/version.rs\<close>: the release registry, the decision about a
  reported release and the evaluation of semantic-version ranges.  Caret and tilde ranges
  are shown to be half-open intervals of versions, and versions to survive printing and
  parsing.
\<close>

section \<open>Releases\<close>

datatype ReleaseStatus = Active | Deprecated | Compromised

datatype CompromisedAction = Warn | ForceUpgrade | Revoke

fun compromised_action_as_str :: "CompromisedAction \<Rightarrow> string" where
  "compromised_action_as_str Warn = ''warn''"
| "compromised_action_as_str ForceUpgrade = ''force_upgrade''"
| "compromised_action_as_str Revoke = ''revoke''"

record Release =
  rel_id :: string
  rel_product_id :: string
  rel_app_version :: string
  rel_variant_id :: u64
  rel_build_fingerprint :: string
  rel_channel :: string
  rel_status :: ReleaseStatus
  rel_compromised_action :: "CompromisedAction option"
  rel_published_at :: i64

record ReleaseRegistry =
  reg_releases :: "Release list"

section \<open>Semantic versions\<close>

datatype SemVer = SemVer (major: u64) (minor: u64) (patch: u64)

instantiation SemVer :: linorder
begin

definition less_SemVer :: "SemVer \<Rightarrow> SemVer \<Rightarrow> bool" where
  "less_SemVer a b \<longleftrightarrow>
     major a < major b \<or>
     major a = major b \<and> (minor a < minor b \<or> minor a = minor b \<and> patch a < patch b)"

definition less_eq_SemVer :: "SemVer \<Rightarrow> SemVer \<Rightarrow> bool" where
  "less_eq_SemVer a b \<longleftrightarrow> a < b \<or> a = b"

instance
proof
  fix a b :: SemVer
  show "a \<le> b \<or> b \<le> a"
    by (cases a; cases b) (auto simp: less_SemVer_def less_eq_SemVer_def)
qed (auto simp: less_SemVer_def less_eq_SemVer_def)

end

definition parse_component :: "string list \<Rightarrow> nat" where
  "parse_component parts =
     (let part = (case parts of [] \<Rightarrow> ''0'' | w # _ \<Rightarrow> w)
      in case parse_u64 (trim part) of None \<Rightarrow> 0 | Some n \<Rightarrow> n)"

definition parse_semver :: "string \<Rightarrow> SemVer option" where
  "parse_semver s =
     (let core = hd (split_on (\<lambda>c. c = CHR ''-'' \<or> c = CHR ''+'') s);
          parts = split_on (\<lambda>c. c = CHR ''.'') core
      in case parse_u64 (trim (hd parts)) of
           None \<Rightarrow> None
         | Some maj \<Rightarrow>
             (let parts1 = tl parts; mi = parse_component parts1;
                  parts2 = tl parts1; pa = parse_component parts2
              in if tl parts2 \<noteq> [] then None else Some (SemVer maj mi pa)))"

datatype RangeOp = Ge | Le | Gt | Lt | Caret | Tilde | Exact

definition term_op :: "string \<Rightarrow> RangeOp \<times> string" where
  "term_op t =
     (case strip_prefix ''>='' t of Some r \<Rightarrow> (Ge, r) | None \<Rightarrow>
      case strip_prefix ''<='' t of Some r \<Rightarrow> (Le, r) | None \<Rightarrow>
      case strip_prefix ''>'' t of Some r \<Rightarrow> (Gt, r) | None \<Rightarrow>
      case strip_prefix ''<'' t of Some r \<Rightarrow> (Lt, r) | None \<Rightarrow>
      case strip_prefix ''^'' t of Some r \<Rightarrow> (Caret, r) | None \<Rightarrow>
      case strip_prefix ''~'' t of Some r \<Rightarrow> (Tilde, r) | None \<Rightarrow>
      case strip_prefix ''='' t of Some r \<Rightarrow> (Exact, r) | None \<Rightarrow> (Exact, t))"

definition match_op :: "RangeOp \<Rightarrow> SemVer \<Rightarrow> SemVer \<Rightarrow> bool" where
  "match_op oper v b =
     (case oper of
        Ge \<Rightarrow> v \<ge> b
      | Le \<Rightarrow> v \<le> b
      | Gt \<Rightarrow> v > b
      | Lt \<Rightarrow> v < b
      | Exact \<Rightarrow> v = b
      | Caret \<Rightarrow>
          if major b > 0 then major v = major b \<and> v \<ge> b
          else if minor b > 0 then major v = 0 \<and> minor v = minor b \<and> v \<ge> b
          else major v = 0 \<and> minor v = 0 \<and> patch v = patch b
      | Tilde \<Rightarrow> major v = major b \<and> minor v = minor b \<and> v \<ge> b)"

definition match_term :: "SemVer \<Rightarrow> string \<Rightarrow> bool" where
  "match_term v t =
     (let (oper, rest) = term_op t
      in case parse_semver rest of None \<Rightarrow> False | Some b \<Rightarrow> match_op oper v b)"

definition semver_matches :: "string \<Rightarrow> string \<Rightarrow> bool" where
  "semver_matches version rng =
     (case parse_semver version of
        None \<Rightarrow> False
      | Some v \<Rightarrow>
          (let r = trim rng
           in if r = [] \<or> r = ''*'' then True
              else list_all (match_term v) (split_whitespace r)))"

section \<open>The registry\<close>

definition reg_get :: "ReleaseRegistry \<Rightarrow> string \<Rightarrow> Release option" where
  "reg_get reg i = find (\<lambda>r. rel_id r = i) (reg_releases reg)"

definition satisfies :: "Release \<Rightarrow> VersionScope \<Rightarrow> bool" where
  "satisfies r scope =
     (case scope of
        VersionScope.Unlimited \<Rightarrow> True
      | ReleasedBefore cutoff \<Rightarrow> rel_published_at r \<le> cutoff
      | Pinned ids \<Rightarrow> rel_id r \<in> set ids
      | SemverRange rng \<Rightarrow> semver_matches (rel_app_version r) rng)"

text \<open>\<open>Iterator::max_by_key\<close> keeps the last of several maximal elements.\<close>

fun max_by_key :: "('a \<Rightarrow> 'k::linorder) \<Rightarrow> 'a list \<Rightarrow> 'a option" where
  "max_by_key f [] = None"
| "max_by_key f (x # xs) = Some (foldl (\<lambda>best y. if f best \<le> f y then y else best) x xs)"

definition highest_allowed :: "ReleaseRegistry \<Rightarrow> VersionScope \<Rightarrow> Release option" where
  "highest_allowed reg scope =
     max_by_key rel_published_at (filter (\<lambda>r. satisfies r scope) (reg_releases reg))"

datatype VersionDecision =
    InScope (variant_id: u64)
  | NotRegistered
  | OutOfScope (highest: "string option")
  | Compromised (action: CompromisedAction)

definition decide :: "ReleaseRegistry \<Rightarrow> VersionScope \<Rightarrow> string \<Rightarrow> VersionDecision" where
  "decide reg scope reported =
     (case reg_get reg reported of
        None \<Rightarrow> NotRegistered
      | Some r \<Rightarrow>
          if rel_status r = ReleaseStatus.Compromised
          then VersionDecision.Compromised
                 (case rel_compromised_action r of None \<Rightarrow> Warn | Some a \<Rightarrow> a)
          else if satisfies r scope then InScope (rel_variant_id r)
          else OutOfScope (map_option rel_id (highest_allowed reg scope)))"

section \<open>Lemmas\<close>

lemma max_by_key_fold:
  fixes f :: "'a \<Rightarrow> 'k::linorder"
  defines "g \<equiv> \<lambda>best y. if f best \<le> f y then y else best"
  shows "foldl g x xs \<in> set (x # xs) \<and> (\<forall>y \<in> set (x # xs). f y \<le> f (foldl g x xs))"
proof (induction xs arbitrary: x)
  case Nil
  show ?case by simp
next
  case (Cons a xs)
  show ?case
  proof (cases "f x \<le> f a")
    case True
    then show ?thesis using Cons [of a] by (auto simp: g_def intro: order_trans)
  next
    case False
    then show ?thesis using Cons [of x] by (auto simp: g_def intro: order_trans)
  qed
qed

lemma max_by_key_Some:
  assumes "max_by_key f xs = Some m"
  shows "m \<in> set xs" "\<And>y. y \<in> set xs \<Longrightarrow> f y \<le> f m"
  using assms max_by_key_fold [of f] by (cases xs; force)+

lemma max_by_key_None [simp]: "max_by_key f xs = None \<longleftrightarrow> xs = []"
  by (cases xs) simp_all

definition caret_bound :: "SemVer \<Rightarrow> SemVer" where
  "caret_bound b =
     (if major b > 0 then SemVer (major b + 1) 0 0
      else if minor b > 0 then SemVer 0 (minor b + 1) 0
      else SemVer 0 0 (patch b + 1))"

definition tilde_bound :: "SemVer \<Rightarrow> SemVer" where
  "tilde_bound b = SemVer (major b) (minor b + 1) 0"

definition show_semver :: "SemVer \<Rightarrow> string" where
  "show_semver v = show_nat (major v) @ ''.'' @ show_nat (minor v) @ ''.'' @ show_nat (patch v)"

lemma show_nat_free:
  "c \<in> set (show_nat n) \<Longrightarrow> c \<noteq> CHR ''-'' \<and> c \<noteq> CHR ''+'' \<and> c \<noteq> CHR ''.''"
  using show_nat_digits is_digit_plain by blast

lemma parse_show_semver:
  assumes "major v \<le> u64_max" "minor v \<le> u64_max" "patch v \<le> u64_max"
  shows "parse_semver (show_semver v) = Some v"
proof -
  have core: "split_on (\<lambda>c. c = CHR ''-'' \<or> c = CHR ''+'') (show_semver v) = [show_semver v]"
    by (rule split_on_none) (auto simp: show_semver_def dest: show_nat_free)
  have none: "split_on (\<lambda>c. c = CHR ''.'') (show_nat n) = [show_nat n]" for n
    by (rule split_on_none) (auto dest: show_nat_free)
  have dot: "split_on (\<lambda>c. c = CHR ''.'') (show_nat n @ CHR ''.'' # t)
      = show_nat n # split_on (\<lambda>c. c = CHR ''.'') t" for n t
    by (rule split_on_append) (auto dest: show_nat_free)
  have parts: "split_on (\<lambda>c. c = CHR ''.'') (show_semver v) =
      [show_nat (major v), show_nat (minor v), show_nat (patch v)]"
    by (simp add: show_semver_def dot none)
  show ?thesis
    using assms by (simp add: parse_semver_def core parts parse_component_def Let_def)
qed

lemma parse_semver_bounds:
  assumes "parse_semver s = Some v"
  shows "major v \<le> u64_max \<and> minor v \<le> u64_max \<and> patch v \<le> u64_max"
proof -
  have "parse_component ps \<le> u64_max" for ps
    by (auto simp: parse_component_def Let_def dest: parse_u64_bound split: option.splits)
  with assms show ?thesis
    by (auto simp: parse_semver_def Let_def dest: parse_u64_bound split: option.splits if_splits)
qed

section \<open>Properties\<close>

text \<open>
  Caret and tilde ranges are half-open intervals: a version matches \<open>^b\<close> exactly when
  it is at least \<open>b\<close> and below the next change of \<open>b\<close>'s leftmost non-zero component, and
  matches \<open>~b\<close> exactly when it is at least \<open>b\<close> and below the next minor version.
\<close>

theorem semver_range_intervals:
  "(match_op Caret v b \<longleftrightarrow> b \<le> v \<and> v < caret_bound b) \<and>
   (match_op Tilde v b \<longleftrightarrow> b \<le> v \<and> v < tilde_bound b)"
  by (cases v; cases b)
    (auto simp: match_op_def caret_bound_def tilde_bound_def less_SemVer_def less_eq_SemVer_def)

text \<open>
  Round trip: printing a version of 64-bit components and parsing it gives it back,
  and every parsed version has 64-bit components, so parsing inverts printing on exactly
  the versions that parsing produces.
\<close>

theorem semver_roundtrip:
  "(\<exists>s. parse_semver s = Some v) \<longleftrightarrow> parse_semver (show_semver v) = Some v"
  using parse_semver_bounds [of _ v] parse_show_semver [of v] by blast

text \<open>
  C25. Keys are issued only for a registered, uncompromised release in scope, and a refusal
  for scope names the latest published release among those the scope covers (none when the
  scope covers no release).
\<close>

theorem decide_sound:
  "case decide reg scope i of
     InScope variant \<Rightarrow> \<exists>r \<in> set (reg_releases reg). rel_id r = i \<and> rel_variant_id r = variant \<and>
       rel_status r \<noteq> ReleaseStatus.Compromised \<and> satisfies r scope
   | NotRegistered \<Rightarrow> i \<notin> rel_id ` set (reg_releases reg)
   | OutOfScope None \<Rightarrow> \<not> (\<exists>r \<in> set (reg_releases reg). satisfies r scope)
   | OutOfScope (Some h) \<Rightarrow> \<exists>m \<in> set (reg_releases reg). rel_id m = h \<and> satisfies m scope \<and>
       (\<forall>r \<in> set (reg_releases reg). satisfies r scope \<longrightarrow> rel_published_at r \<le> rel_published_at m)
   | VersionDecision.Compromised a \<Rightarrow> \<exists>r \<in> set (reg_releases reg). rel_id r = i \<and>
       rel_status r = ReleaseStatus.Compromised"
proof (cases "reg_get reg i")
  case None
  then have "i \<notin> rel_id ` set (reg_releases reg)" by (auto simp: reg_get_def find_None_iff)
  with None show ?thesis by (simp add: decide_def)
next
  case (Some r)
  then have r: "r \<in> set (reg_releases reg)" "rel_id r = i"
    by (auto simp: reg_get_def dest: find_SomeD)
  show ?thesis
  proof (cases "highest_allowed reg scope")
    case None
    with Some r show ?thesis by (auto simp: decide_def highest_allowed_def filter_empty_conv)
  next
    case (Some m)
    with \<open>reg_get reg i = Some r\<close> r max_by_key_Some [OF Some [unfolded highest_allowed_def]]
    show ?thesis by (auto simp: decide_def)
  qed
qed

definition demo_release :: "string \<Rightarrow> string \<Rightarrow> i64 \<Rightarrow> Release" where
  "demo_release i v t =
     \<lparr>rel_id = i, rel_product_id = ''acme'', rel_app_version = v, rel_variant_id = 7,
      rel_build_fingerprint = ''fp'', rel_channel = ''stable'', rel_status = ReleaseStatus.Active,
      rel_compromised_action = None, rel_published_at = t\<rparr>"

definition demo_registry :: ReleaseRegistry where
  "demo_registry =
     \<lparr>reg_releases = [demo_release ''r1'' ''1.0.0'' 10, demo_release ''r2'' ''1.4.0'' 20,
        demo_release ''r3'' ''2.0.0'' 30]\<rparr>"

theorem decide_sound_witness:
  "decide demo_registry (ReleasedBefore 20) ''r3'' = OutOfScope (Some ''r2'') \<and>
   (\<exists>m \<in> set (reg_releases demo_registry). rel_id m = ''r2'' \<and> satisfies m (ReleasedBefore 20))"
proof -
  have d: "decide demo_registry (ReleasedBefore 20) ''r3'' = OutOfScope (Some ''r2'')"
    by code_simp
  with decide_sound [where reg = demo_registry and scope = "ReleasedBefore 20" and i = "''r3''"] show ?thesis by auto
qed

end
