(* ===== verification/Records.thy ===== *)
theory Records
  imports Matching Policy Version
begin

text \<open>
  The state the server decides over: the fault taxonomy of
  \<open>copylocker-server-core/src/error.rs\<close> and the licence and activation records of
  \<open>store.rs\<close>.  A lookup by machine identifier is the first match, and a mutation through
  \<open>activation_mut\<close> touches that record only.
\<close>

section \<open>Faults\<close>

datatype ClientFault =
    InvalidCredential | SeatExhausted | NeedsReactivation | NeedsLogin | UnsupportedProto
  | RateLimited (retry_after_secs: u32) | FingerprintMismatch | ReleaseNotRegistered string
  | VersionOutOfScope "string option" | ReleaseCompromised string | ProofInvalid
  | ReplayedNonce | RollbackAttempt | VirtualMachineNotAllowed

fun client_fault_code :: "ClientFault \<Rightarrow> nat" where
  "client_fault_code InvalidCredential = 1000"
| "client_fault_code ProofInvalid = 1000"
| "client_fault_code ReplayedNonce = 1000"
| "client_fault_code RollbackAttempt = 1000"
| "client_fault_code VirtualMachineNotAllowed = 1000"
| "client_fault_code SeatExhausted = 1001"
| "client_fault_code ClientFault.NeedsReactivation = 1002"
| "client_fault_code NeedsLogin = 1003"
| "client_fault_code UnsupportedProto = 1004"
| "client_fault_code (RateLimited _) = 1005"
| "client_fault_code FingerprintMismatch = 1006"
| "client_fault_code (ReleaseNotRegistered _) = 1007"
| "client_fault_code (ClientFault.VersionOutOfScope _) = 1008"
| "client_fault_code (ReleaseCompromised _) = 1009"

fun client_fault_retry_after :: "ClientFault \<Rightarrow> u32 option" where
  "client_fault_retry_after (RateLimited r) = Some r"
| "client_fault_retry_after _ = None"

fun client_fault_http_status :: "ClientFault \<Rightarrow> nat" where
  "client_fault_http_status UnsupportedProto = 426"
| "client_fault_http_status (RateLimited _) = 429"
| "client_fault_http_status SeatExhausted = 409"
| "client_fault_http_status (ClientFault.VersionOutOfScope _) = 409"
| "client_fault_http_status _ = 403"

definition client_fault_display :: "ClientFault \<Rightarrow> string" where
  "client_fault_display f = ''client fault '' @ show_nat (client_fault_code f)"

datatype ServerFault = Storage string | Issuer string | Configuration string | Internal string

definition server_fault_code :: "ServerFault \<Rightarrow> nat" where "server_fault_code f = 5000"
definition server_fault_http_status :: "ServerFault \<Rightarrow> nat" where "server_fault_http_status f = 500"

fun server_fault_detail :: "ServerFault \<Rightarrow> string" where
  "server_fault_detail (Storage s) = s"
| "server_fault_detail (Issuer s) = s"
| "server_fault_detail (Configuration s) = s"
| "server_fault_detail (Internal s) = s"

fun server_fault_display :: "ServerFault \<Rightarrow> string" where
  "server_fault_display (Storage _) = ''server fault (storage)''"
| "server_fault_display (Issuer _) = ''server fault (issuer)''"
| "server_fault_display (Configuration _) = ''server fault (configuration)''"
| "server_fault_display (Internal _) = ''server fault (internal)''"

text \<open>A client never learns the detail of a server fault, and never mistakes it for its own fault.\<close>

lemma fault_codes_disjoint:
  "client_fault_code c \<noteq> server_fault_code s"
  "400 \<le> client_fault_http_status c \<and> client_fault_http_status c < server_fault_http_status s"
  by (cases c; simp add: server_fault_code_def server_fault_http_status_def)+

section \<open>Records\<close>

datatype ActivationStatus = Active | Released | Revoked | Pending

record ActivationRecord =
  act_machine_id :: MachineId
  act_fingerprint :: Fingerprint
  act_attrs :: "DeviceAttrs option"
  act_device_kem_ek :: bytes
  act_device_sig_vk :: bytes
  act_status :: ActivationStatus
  act_activation_path :: string
  act_release_id :: "string option"
  act_variant_id :: "u64 option"
  act_created_at :: i64
  act_last_seen_at :: "i64 option"
  act_refresh_after :: i64
  act_not_after :: i64
  act_transfer_count :: u32

datatype LicenseStatus = Active | Suspended | Expired | Revoked

record LicenseRecord =
  lic_id :: LicenseId
  lic_product_id :: string
  lic_policy_id :: string
  lic_status :: LicenseStatus
  lic_seats_override :: "u32 option"
  lic_expires_at :: "i64 option"
  lic_revoked_at_epoch :: "u64 option"
  lic_activations :: "ActivationRecord list"

definition holds_seat :: "ActivationRecord \<Rightarrow> bool" where
  "holds_seat a \<longleftrightarrow> act_status a = ActivationStatus.Active \<or> act_status a = Pending"

definition occupied_seats :: "LicenseRecord \<Rightarrow> u32" where
  "occupied_seats l =
     (let n = length (filter holds_seat (lic_activations l)) in if n \<le> u32_max then n else u32_max)"

definition activation :: "LicenseRecord \<Rightarrow> MachineId \<Rightarrow> ActivationRecord option" where
  "activation l m = find (\<lambda>a. act_machine_id a = m) (lic_activations l)"

definition activation_mut ::
  "(ActivationRecord \<Rightarrow> ActivationRecord) \<Rightarrow> MachineId \<Rightarrow> LicenseRecord \<Rightarrow> LicenseRecord"
where
  "activation_mut f m l =
     l\<lparr>lic_activations := update_first (\<lambda>a. act_machine_id a = m) f (lic_activations l)\<rparr>"

definition live_activations :: "LicenseRecord \<Rightarrow> ActivationRecord list" where
  "live_activations l = filter (\<lambda>a. act_status a = ActivationStatus.Active) (lic_activations l)"

section \<open>Seats as a pool of machine identifiers\<close>

definition machine_ids :: "LicenseRecord \<Rightarrow> MachineId list" where
  "machine_ids l = map act_machine_id (lic_activations l)"

definition held :: "LicenseRecord \<Rightarrow> MachineId set" where
  "held l = act_machine_id ` set (filter holds_seat (lic_activations l))"

definition held_count :: "LicenseRecord \<Rightarrow> nat" where
  "held_count l = length (filter holds_seat (lic_activations l))"

lemma occupied_less_iff: "n \<le> u32_max \<Longrightarrow> occupied_seats l < n \<longleftrightarrow> held_count l < n"
  by (auto simp: occupied_seats_def held_count_def Let_def)

lemma card_held: "distinct (machine_ids l) \<Longrightarrow> card (held l) = held_count l"
proof -
  assume "distinct (machine_ids l)"
  then have "distinct (map act_machine_id (filter holds_seat (lic_activations l)))"
    by (simp add: machine_ids_def distinct_map_filter)
  from distinct_card [OF this] show ?thesis by (simp add: held_def held_count_def)
qed

lemma held_subset_ids: "held l \<subseteq> set (machine_ids l)"
  by (auto simp: held_def machine_ids_def)

lemma held_iff:
  assumes "distinct (machine_ids l)"
  shows "m \<in> held l \<longleftrightarrow> (\<exists>a. activation l m = Some a \<and> holds_seat a)"
proof
  assume "m \<in> held l"
  then obtain a where a: "a \<in> set (lic_activations l)" "holds_seat a" "act_machine_id a = m"
    by (auto simp: held_def)
  have "activation l m = Some a"
  proof (cases "activation l m")
    case None
    with a show ?thesis by (auto simp: activation_def find_None_iff)
  next
    case (Some b)
    then have "b \<in> set (lic_activations l)" "act_machine_id b = m"
      by (auto simp: activation_def dest: find_SomeD)
    with a assms have "b = a" by (auto simp: machine_ids_def distinct_map dest: inj_onD)
    with Some show ?thesis by simp
  qed
  with a show "\<exists>a. activation l m = Some a \<and> holds_seat a" by blast
next
  assume "\<exists>a. activation l m = Some a \<and> holds_seat a"
  then show "m \<in> held l" by (auto simp: activation_def held_def dest: find_SomeD)
qed

text \<open>Mutations of one activation keep the other activations and every identifier.\<close>

lemma machine_ids_mut:
  "(\<And>a. act_machine_id (f a) = act_machine_id a) \<Longrightarrow> machine_ids (activation_mut f m l) = machine_ids l"
  by (simp add: machine_ids_def activation_mut_def map_update_first_id)

lemma activation_mut_same:
  "(\<And>a. act_machine_id (f a) = act_machine_id a) \<Longrightarrow>
   activation (activation_mut f m l) m = map_option f (activation l m)"
  by (simp add: activation_def activation_mut_def find_update_first_same)

lemma activation_mut_other:
  "(\<And>a. act_machine_id (f a) = act_machine_id a) \<Longrightarrow> n \<noteq> m \<Longrightarrow>
   activation (activation_mut f m l) n = activation l n"
  unfolding activation_def activation_mut_def by (simp add: find_update_first_other)

lemma activation_mut_fields [simp]:
  "lic_status (activation_mut f m l) = lic_status l"
  "lic_seats_override (activation_mut f m l) = lic_seats_override l"
  "lic_expires_at (activation_mut f m l) = lic_expires_at l"
  "lic_revoked_at_epoch (activation_mut f m l) = lic_revoked_at_epoch l"
  by (simp_all add: activation_mut_def)

lemma held_mut:
  assumes d: "distinct (machine_ids l)" and id: "\<And>a. act_machine_id (f a) = act_machine_id a"
    and a: "activation l m = Some a"
  shows "held (activation_mut f m l) = (if holds_seat (f a) then insert m (held l) else held l - {m})"
proof -
  have d': "distinct (machine_ids (activation_mut f m l))" using d by (simp add: machine_ids_mut id)
  have "n \<in> held (activation_mut f m l) \<longleftrightarrow>
      (if n = m then holds_seat (f a) else n \<in> held l)" for n
    by (simp add: held_iff [OF d'] held_iff [OF d] activation_mut_same id activation_mut_other a)
  note member = this
  show ?thesis by (rule set_eqI) (simp only: member split: if_split, blast)
qed

end
