(* ===== verification/Validate.thy ===== *)
theory Validate
  imports Records
begin

text \<open>
  Online validation (\<open>validate.rs\<close>): the decision that answers every check with a ticket, a
  kill order or a fault, and the record of a successful check.  The caller verifies the
  device proof and the nonce, so both arrive as booleans, as in the source.
\<close>

section \<open>The decision\<close>

record ValidateInput =
  vi_machine_id :: MachineId
  vi_nonce_c :: bytes
  vi_release_id :: string
  vi_known_revocation_epoch :: u64
  vi_known_security_floor :: u64
  vi_proof_valid :: bool
  vi_nonce_fresh :: bool

record TicketPlan =
  tp_verdict :: Verdict
  tp_next_refresh_after :: i64
  tp_not_after :: i64
  tp_revocation_epoch :: u64
  tp_security_floor :: u64
  tp_entitlements :: "Entitlements option"
  tp_release_status :: "nat option"
  tp_refresh_now :: bool
  tp_variant_id :: "u64 option"

datatype ValidateOutcome =
    Ticket TicketPlan
  | Kill (kill_reason: KillReason) (user_message: "string option")

fun release_status_u8 :: "ReleaseStatus \<Rightarrow> nat" where
  "release_status_u8 ReleaseStatus.Active = 0"
| "release_status_u8 Deprecated = 1"
| "release_status_u8 ReleaseStatus.Compromised = 2"

text \<open>
  The term rolls from \<open>now\<close> when the policy has one; the licence's own expiry is only the
  fallback.
\<close>

definition credential_not_after :: "Policy \<Rightarrow> LicenseRecord \<Rightarrow> i64 \<Rightarrow> i64" where
  "credential_not_after policy l now =
     (case expires_at policy now of
        Some e \<Rightarrow> e
      | None \<Rightarrow> (case lic_expires_at l of Some e \<Rightarrow> e | None \<Rightarrow> UNLIMITED))"

text \<open>The part of the decision that depends on the reported release.\<close>

definition release_verdict ::
  "ReleaseRegistry \<Rightarrow> VersionScope \<Rightarrow> string
   \<Rightarrow> (ClientFault, ValidateOutcome + (Verdict \<times> u64 option \<times> nat option)) result"
where
  "release_verdict registry scope release_id =
     (case decide registry scope release_id of
        InScope v \<Rightarrow>
          Inr (Inr (Verdict.Ok, Some v, map_option (\<lambda>r. release_status_u8 (rel_status r)) (reg_get registry release_id)))
      | NotRegistered \<Rightarrow> Inl (ReleaseNotRegistered release_id)
      | OutOfScope _ \<Rightarrow> Inr (Inr (Verdict.VersionOutOfScope, None, Some 0))
      | VersionDecision.Compromised act \<Rightarrow>
          (case act of
             Warn \<Rightarrow> Inr (Inr (Verdict.Ok, map_option rel_variant_id (reg_get registry release_id), Some 2))
           | ForceUpgrade \<Rightarrow> Inr (Inr (Verdict.NeedsReactivation, None, Some 2))
           | CompromisedAction.Revoke \<Rightarrow>
               Inr (Inl (Kill Fraud (Some ''This application version has been withdrawn. Please update.'')))))"

definition validate ::
  "LicenseRecord \<Rightarrow> Policy \<Rightarrow> Catalog \<Rightarrow> ReleaseRegistry \<Rightarrow> VersionScope \<Rightarrow> ValidateInput \<Rightarrow> u64 \<Rightarrow> u64 \<Rightarrow> i64
   \<Rightarrow> (ClientFault, ValidateOutcome) result"
where
  "validate l policy catalog registry scope input revocation_epoch security_floor now =
     (if \<not> vi_nonce_fresh input then Inl ReplayedNonce
      else if \<not> vi_proof_valid input then Inl ProofInvalid
      else if vi_known_revocation_epoch input > revocation_epoch
           \<or> vi_known_security_floor input > security_floor then Inl RollbackAttempt
      else case activation l (vi_machine_id input) of
             None \<Rightarrow> Inl ClientFault.NeedsReactivation
           | Some a \<Rightarrow>
               if lic_status l = LicenseStatus.Revoked then
                 Inr (Kill RevokedLicense (Some ''This licence has been revoked. Please contact support.''))
               else if act_status a = ActivationStatus.Revoked then
                 Inr (Kill RevokedActivation (Some ''This device's activation was revoked.''))
               else if act_status a = Released then
                 Inr (Kill SeatReclaimed
                   (Some ''This device's seat was released. Activate again to continue.''))
               else if lic_status l = LicenseStatus.Suspended \<or> lic_status l = LicenseStatus.Expired then
                 Inl InvalidCredential
               else if (case lic_expires_at l of None \<Rightarrow> False | Some e \<Rightarrow> now \<ge> e) then
                 Inl InvalidCredential
               else (case release_verdict registry scope (vi_release_id input) of
                       Inl f \<Rightarrow> Inl f
                     | Inr (Inl kill) \<Rightarrow> Inr kill
                     | Inr (Inr (verdict, variant, status)) \<Rightarrow>
                         Inr (Ticket
                           \<lparr>tp_verdict = verdict,
                            tp_next_refresh_after = sat_add now (rt_refresh_after_secs (pol_runtime policy)),
                            tp_not_after = credential_not_after policy l now,
                            tp_revocation_epoch = revocation_epoch,
                            tp_security_floor = security_floor,
                            tp_entitlements = result_ok (resolve catalog (pol_entitlement policy) now),
                            tp_release_status = status,
                            tp_refresh_now = (vi_known_revocation_epoch input < revocation_epoch),
                            tp_variant_id = variant\<rparr>)))"

definition touch_record :: "TicketPlan \<Rightarrow> i64 \<Rightarrow> ActivationRecord \<Rightarrow> ActivationRecord" where
  "touch_record plan now a =
     a\<lparr>act_last_seen_at := Some now,
       act_refresh_after := tp_next_refresh_after plan,
       act_not_after := tp_not_after plan,
       act_variant_id := (case tp_variant_id plan of None \<Rightarrow> act_variant_id a | Some v \<Rightarrow> Some v)\<rparr>"

definition touch :: "LicenseRecord \<Rightarrow> MachineId \<Rightarrow> TicketPlan \<Rightarrow> i64 \<Rightarrow> LicenseRecord" where
  "touch l m plan now = activation_mut (touch_record plan now) m l"

definition revoked_machines :: "LicenseRecord \<Rightarrow> MachineId list" where
  "revoked_machines l =
     map act_machine_id (filter (\<lambda>a. act_status a = ActivationStatus.Revoked) (lic_activations l))"

section \<open>Lemmas\<close>

definition accepted_request :: "ValidateInput \<Rightarrow> u64 \<Rightarrow> u64 \<Rightarrow> bool" where
  "accepted_request input revocation_epoch security_floor \<longleftrightarrow>
     vi_nonce_fresh input \<and> vi_proof_valid input \<and>
     vi_known_revocation_epoch input \<le> revocation_epoch \<and> vi_known_security_floor input \<le> security_floor"

lemma validate_rejected:
  "\<not> accepted_request input re sf \<Longrightarrow>
   \<exists>f \<in> {ReplayedNonce, ProofInvalid, RollbackAttempt}. validate l policy catalog registry scope input re sf now = Inl f"
  by (auto simp: accepted_request_def validate_def not_le)

lemma validate_accepted:
  assumes "validate l policy catalog registry scope input re sf now = Inr outcome"
  obtains a where "accepted_request input re sf" "activation l (vi_machine_id input) = Some a"
  using assms
  by (auto simp: accepted_request_def validate_def not_less split: if_splits option.splits)

lemma touch_record_keeps [simp]:
  "act_machine_id (touch_record plan now a) = act_machine_id a"
  "act_status (touch_record plan now a) = act_status a"
  by (simp_all add: touch_record_def)

lemma release_verdict_kill:
  "release_verdict registry scope i = Inr (Inl kill) \<longleftrightarrow>
     kill = Kill Fraud (Some ''This application version has been withdrawn. Please update.'') \<and>
     decide registry scope i = VersionDecision.Compromised CompromisedAction.Revoke"
  by (auto simp: release_verdict_def split: VersionDecision.splits CompromisedAction.splits)

text \<open>Why a kill order may be sent, given the activation it is for.\<close>

definition kill_cause ::
  "LicenseRecord \<Rightarrow> ActivationRecord \<Rightarrow> VersionDecision \<Rightarrow> i64 \<Rightarrow> KillReason option"
where
  "kill_cause l a decision now =
     (if lic_status l = LicenseStatus.Revoked then Some RevokedLicense
      else if act_status a = ActivationStatus.Revoked then Some RevokedActivation
      else if act_status a = Released then Some SeatReclaimed
      else if lic_status l = LicenseStatus.Active \<and>
              (case lic_expires_at l of None \<Rightarrow> True | Some e \<Rightarrow> now < e) \<and>
              decision = VersionDecision.Compromised CompromisedAction.Revoke then Some Fraud
      else None)"

lemma validate_kill_iff:
  assumes "accepted_request input re sf" "activation l (vi_machine_id input) = Some a"
  shows "(\<exists>msg. validate l policy catalog registry scope input re sf now = Inr (Kill reason msg)) \<longleftrightarrow>
    kill_cause l a (decide registry scope (vi_release_id input)) now = Some reason"
proof -
  have "lic_status l = LicenseStatus.Active \<or> lic_status l = LicenseStatus.Revoked \<or>
    lic_status l = LicenseStatus.Suspended \<or> lic_status l = LicenseStatus.Expired"
    by (cases "lic_status l") simp_all
  then show ?thesis using assms
    by (auto simp: validate_def accepted_request_def kill_cause_def not_less release_verdict_def
        split: option.splits VersionDecision.splits CompromisedAction.splits)
qed

section \<open>A licence to evaluate on\<close>

definition demo_policy :: Policy where
  "demo_policy = (preset_build SubMonthly ''p1'' ''acme'' ''free'' 0)\<lparr>pol_entitlement := demo_spec\<rparr>"

definition demo_license :: LicenseRecord where
  "demo_license = \<lparr>lic_id = [1], lic_product_id = ''acme'', lic_policy_id = ''p1'',
     lic_status = LicenseStatus.Active, lic_seats_override = Some 1, lic_expires_at = Some 1000,
     lic_revoked_at_epoch = None, lic_activations = []\<rparr>"

definition demo_activation :: ActivationRecord where
  "demo_activation = \<lparr>act_machine_id = [5], act_fingerprint = [9], act_attrs = None, act_device_kem_ek = [],
     act_device_sig_vk = [], act_status = ActivationStatus.Active, act_activation_path = ''online'',
     act_release_id = Some ''r2'', act_variant_id = Some 7, act_created_at = 0, act_last_seen_at = None,
     act_refresh_after = 0, act_not_after = 0, act_transfer_count = 0\<rparr>"

lemma demo_decide: "decide demo_registry VersionScope.Unlimited ''r2'' = InScope 7"
  "reg_get demo_registry ''r2'' = Some (demo_release ''r2'' ''1.4.0'' 20)"
  by code_simp+

section \<open>Properties\<close>

text \<open>
  C14. A kill order, which destroys the credential, is answered exactly when the request is
  fresh, proven and not rolled back, the activation is known, and there is a cause: the
  licence or the activation is revoked, the seat was released, or an otherwise valid
  activation runs a release withdrawn with \<open>Revoke\<close>.  Suspension, expiry and an unknown
  activation never destroy a credential.
\<close>

theorem kill_exactly_for_cause:
  "(\<exists>msg. validate l policy catalog registry scope input re sf now = Inr (Kill reason msg)) \<longleftrightarrow>
   accepted_request input re sf \<and>
   (\<exists>a. activation l (vi_machine_id input) = Some a \<and>
      kill_cause l a (decide registry scope (vi_release_id input)) now = Some reason)"
  using validate_kill_iff by (metis option.inject validate_accepted)


definition demo_request :: ValidateInput where
  "demo_request = \<lparr>vi_machine_id = [5], vi_nonce_c = [], vi_release_id = ''r2'', vi_known_revocation_epoch = 0,
     vi_known_security_floor = 0, vi_proof_valid = True, vi_nonce_fresh = True\<rparr>"

lemma demo_validate:
  "\<exists>plan. validate (demo_license\<lparr>lic_activations := [demo_activation]\<rparr>) demo_policy demo_catalog demo_registry
     VersionScope.Unlimited demo_request 3 1 50 = Inr (Ticket plan)"
  by (simp add: validate_def demo_request_def demo_license_def demo_activation_def activation_def
      release_verdict_def demo_decide)


end
