(* ===== verification/Seats.thy ===== *)
theory Seats
  imports Validate
begin

text \<open>
  The seat protocol of \<open>copylocker-server-core\<close>: two-phase activation (\<open>activate.rs\<close>),
  heartbeats and zombie recovery (\<open>heartbeat.rs\<close>), release (\<open>deactivate.rs\<close>) and
  revocation (\<open>revoke.rs\<close>).  Each operation returns the updated licence record, or the
  fault with the record untouched.  The machine \<open>seat_step\<close> interleaves the operations
  arbitrarily; it refines a bounded pool of machine identifiers.
\<close>

section \<open>Activation\<close>

definition PENDING_TTL_SECS :: i64 where "PENDING_TTL_SECS = 60"

record ActivateInput =
  ai_fingerprint :: Fingerprint
  ai_attrs :: "DeviceAttrs option"
  ai_device_kem_ek :: bytes
  ai_device_sig_vk :: bytes
  ai_release_id :: string
  ai_activation_path :: string
  ai_is_virtual_machine :: bool

record Reservation =
  res_machine_id :: MachineId
  res_reused_existing :: bool
  res_match_outcome :: "MatchOutcome option"
  res_variant_id :: u64
  res_refresh_after :: i64
  res_not_after :: i64
  res_entitlements :: Entitlements

definition release_variant ::
  "ReleaseRegistry \<Rightarrow> VersionScope \<Rightarrow> string \<Rightarrow> (ClientFault, u64) result"
where
  "release_variant registry scope release_id =
     (case decide registry scope release_id of
        InScope v \<Rightarrow> Inr v
      | NotRegistered \<Rightarrow> Inl (ReleaseNotRegistered release_id)
      | OutOfScope h \<Rightarrow> Inl (ClientFault.VersionOutOfScope h)
      | VersionDecision.Compromised act \<Rightarrow>
          if act = Warn
          then Inr (case reg_get registry release_id of None \<Rightarrow> 0 | Some r \<Rightarrow> rel_variant_id r)
          else Inl (ReleaseCompromised (compromised_action_as_str act)))"

definition seat_cap :: "Policy \<Rightarrow> LicenseRecord \<Rightarrow> u32" where
  "seat_cap policy l =
     (case lic_seats_override l of None \<Rightarrow> ss_seats (pol_seats policy) | Some n \<Rightarrow> n)"

definition reuse_record ::
  "ActivateInput \<Rightarrow> u64 \<Rightarrow> i64 \<Rightarrow> i64 \<Rightarrow> i64 \<Rightarrow> ActivationRecord \<Rightarrow> ActivationRecord"
where
  "reuse_record input variant refresh na now a =
     a\<lparr>act_fingerprint := ai_fingerprint input,
       act_attrs := (case ai_attrs input of None \<Rightarrow> act_attrs a | Some b \<Rightarrow> Some b),
       act_device_kem_ek := ai_device_kem_ek input,
       act_device_sig_vk := ai_device_sig_vk input,
       act_release_id := Some (ai_release_id input),
       act_variant_id := Some variant,
       act_refresh_after := refresh,
       act_not_after := na,
       act_last_seen_at := Some now\<rparr>"

definition new_record ::
  "ActivateInput \<Rightarrow> MachineId \<Rightarrow> u64 \<Rightarrow> i64 \<Rightarrow> i64 \<Rightarrow> i64 \<Rightarrow> ActivationRecord"
where
  "new_record input machine variant refresh na now =
     \<lparr>act_machine_id = machine, act_fingerprint = ai_fingerprint input,
      act_attrs = ai_attrs input, act_device_kem_ek = ai_device_kem_ek input,
      act_device_sig_vk = ai_device_sig_vk input, act_status = Pending,
      act_activation_path = ai_activation_path input,
      act_release_id = Some (ai_release_id input), act_variant_id = Some variant,
      act_created_at = now, act_last_seen_at = Some now, act_refresh_after = refresh,
      act_not_after = na, act_transfer_count = 0\<rparr>"

definition match_active ::
  "LicenseRecord \<Rightarrow> Policy \<Rightarrow> ActivateInput \<Rightarrow> (nat \<times> MatchOutcome) option"
where
  "match_active l policy input =
     best_match default_similarity
       (map (\<lambda>a. (act_fingerprint a, act_attrs a)) (live_activations l))
       (ai_fingerprint input) (ai_attrs input) (rt_fpr_tolerance (pol_runtime policy))"

definition take_seat ::
  "LicenseRecord \<Rightarrow> Policy \<Rightarrow> ActivateInput \<Rightarrow> MachineId \<Rightarrow> u64 \<Rightarrow> Entitlements \<Rightarrow> i64
   \<Rightarrow> (ClientFault, Reservation \<times> LicenseRecord) result"
where
  "take_seat l policy input new_machine_id variant ents now =
     (let refresh = sat_add now (rt_refresh_after_secs (pol_runtime policy));
          na = credential_not_after policy l now;
          matched = match_active l policy input;
          reservation = (\<lambda>mid reused.
            \<lparr>res_machine_id = mid, res_reused_existing = reused,
             res_match_outcome = map_option snd matched, res_variant_id = variant,
             res_refresh_after = refresh, res_not_after = na, res_entitlements = ents\<rparr>);
          fresh =
            (if occupied_seats l \<ge> seat_cap policy l then Inl SeatExhausted
             else Inr (reservation new_machine_id False,
                    l\<lparr>lic_activations := lic_activations l @
                        [new_record input new_machine_id variant refresh na now]\<rparr>))
      in case matched of
           None \<Rightarrow> fresh
         | Some (idx, outcome) \<Rightarrow>
             if reuses_seat outcome then
               (let active = map act_machine_id (live_activations l) in
                if idx < length active then
                  (case activation l (active ! idx) of
                     None \<Rightarrow> Inl InvalidCredential
                   | Some _ \<Rightarrow>
                       Inr (reservation (active ! idx) True,
                         activation_mut (reuse_record input variant refresh na now) (active ! idx) l))
                else Inl InvalidCredential)
             else fresh)"

definition reserve_seat ::
  "LicenseRecord \<Rightarrow> Policy \<Rightarrow> Catalog \<Rightarrow> ReleaseRegistry \<Rightarrow> ActivateInput \<Rightarrow> VersionScope \<Rightarrow> MachineId \<Rightarrow> i64
   \<Rightarrow> (ClientFault, Reservation \<times> LicenseRecord) result"
where
  "reserve_seat l policy catalog registry input scope new_machine_id now =
     (if lic_status l \<noteq> LicenseStatus.Active then Inl InvalidCredential
      else if (case lic_expires_at l of None \<Rightarrow> False | Some e \<Rightarrow> now \<ge> e) then Inl InvalidCredential
      else if ai_is_virtual_machine input \<and> \<not> rt_allow_vm (pol_runtime policy)
      then Inl VirtualMachineNotAllowed
      else case release_variant registry scope (ai_release_id input) of
             Inl f \<Rightarrow> Inl f
           | Inr variant \<Rightarrow>
               (case resolve catalog (pol_entitlement policy) now of
                  Inl _ \<Rightarrow> Inl InvalidCredential
                | Inr ents \<Rightarrow> take_seat l policy input new_machine_id variant ents now))"

definition commit_seat ::
  "LicenseRecord \<Rightarrow> MachineId \<Rightarrow> (ClientFault, LicenseRecord) result"
where
  "commit_seat l m =
     (case activation l m of
        None \<Rightarrow> Inl InvalidCredential
      | Some a \<Rightarrow>
          if act_status a = Pending \<or> act_status a = ActivationStatus.Active
          then Inr (activation_mut (\<lambda>a. a\<lparr>act_status := ActivationStatus.Active\<rparr>) m l)
          else Inl InvalidCredential)"

text \<open>A loop over \<open>&mut activations\<close> that releases those meeting a condition and counts them.\<close>

definition release_where ::
  "(ActivationRecord \<Rightarrow> bool) \<Rightarrow> LicenseRecord \<Rightarrow> nat \<times> LicenseRecord"
where
  "release_where p l =
     (length (filter p (lic_activations l)),
      l\<lparr>lic_activations :=
          map (\<lambda>a. if p a then a\<lparr>act_status := Released\<rparr> else a) (lic_activations l)\<rparr>)"

definition pending_lapsed :: "i64 \<Rightarrow> ActivationRecord \<Rightarrow> bool" where
  "pending_lapsed now a \<longleftrightarrow>
     act_status a = Pending \<and> sat_sub now (act_created_at a) \<ge> PENDING_TTL_SECS"

definition reclaim_pending :: "LicenseRecord \<Rightarrow> i64 \<Rightarrow> nat \<times> LicenseRecord" where
  "reclaim_pending l now = release_where (pending_lapsed now) l"

definition requires_live_session :: "Policy \<Rightarrow> bool" where
  "requires_live_session policy \<longleftrightarrow> pol_mode policy = EnforcedOnline"

definition PATH_ONLINE :: string where "PATH_ONLINE = ''online''"

section \<open>Heartbeats\<close>

definition HEARTBEAT_GRACE_MULTIPLIER :: i64 where "HEARTBEAT_GRACE_MULTIPLIER = 3"

record HeartbeatPlan =
  hb_next_after :: i64

definition heartbeat_plan ::
  "LicenseStatus \<Rightarrow> i64 option \<Rightarrow> ActivationStatus \<Rightarrow> i64 option \<Rightarrow> i64 \<Rightarrow> (ClientFault, HeartbeatPlan) result"
where
  "heartbeat_plan license_status license_expires_at activation_status heartbeat_secs now =
     (if license_status \<noteq> LicenseStatus.Active
         \<or> (case license_expires_at of None \<Rightarrow> False | Some e \<Rightarrow> now \<ge> e)
         \<or> activation_status \<noteq> ActivationStatus.Active
      then Inl InvalidCredential
      else let interval = (case heartbeat_secs of None \<Rightarrow> 0 | Some v \<Rightarrow> if v > 0 then v else 0)
           in Inr \<lparr>hb_next_after = sat_add now interval\<rparr>)"

definition heartbeat ::
  "LicenseRecord \<Rightarrow> Policy \<Rightarrow> MachineId \<Rightarrow> i64 \<Rightarrow> (ClientFault, HeartbeatPlan \<times> LicenseRecord) result"
where
  "heartbeat l policy m now =
     (case activation l m of
        None \<Rightarrow> Inl InvalidCredential
      | Some a \<Rightarrow>
          (case heartbeat_plan (lic_status l) (lic_expires_at l) (act_status a)
                  (ss_heartbeat_secs (pol_seats policy)) now of
             Inl f \<Rightarrow> Inl f
           | Inr plan \<Rightarrow>
               Inr (plan, activation_mut (\<lambda>a. a\<lparr>act_last_seen_at := Some now\<rparr>) m l)))"

definition zombie_cutoff :: "i64 \<Rightarrow> i64 \<Rightarrow> i64 option" where
  "zombie_cutoff heartbeat_secs now =
     (if heartbeat_secs > 0
      then Some (sat_sub now (sat_mul heartbeat_secs HEARTBEAT_GRACE_MULTIPLIER))
      else None)"

definition is_zombie :: "i64 \<Rightarrow> ActivationRecord \<Rightarrow> bool" where
  "is_zombie cutoff a \<longleftrightarrow>
     act_status a = ActivationStatus.Active \<and>
     (case act_last_seen_at a of None \<Rightarrow> act_created_at a | Some t \<Rightarrow> t) < cutoff"

definition reclaim_zombies :: "LicenseRecord \<Rightarrow> Policy \<Rightarrow> i64 \<Rightarrow> nat \<times> LicenseRecord" where
  "reclaim_zombies l policy now =
     (case ss_heartbeat_secs (pol_seats policy) of
        None \<Rightarrow> (0, l)
      | Some hb \<Rightarrow>
          (case zombie_cutoff hb now of
             None \<Rightarrow> (0, l)
           | Some cutoff \<Rightarrow> release_where (is_zombie cutoff) l))"

section \<open>Release\<close>

record DeactivatePlan =
  dp_changed :: bool
  dp_record_transfer :: bool

fun deactivate_plan :: "ActivationStatus \<Rightarrow> (ClientFault, DeactivatePlan) result" where
  "deactivate_plan ActivationStatus.Active = Inr \<lparr>dp_changed = True, dp_record_transfer = True\<rparr>"
| "deactivate_plan Pending = Inr \<lparr>dp_changed = True, dp_record_transfer = True\<rparr>"
| "deactivate_plan Released = Inr \<lparr>dp_changed = False, dp_record_transfer = False\<rparr>"
| "deactivate_plan ActivationStatus.Revoked = Inl InvalidCredential"

definition deactivate_record :: "DeactivatePlan \<Rightarrow> ActivationRecord \<Rightarrow> ActivationRecord" where
  "deactivate_record plan a =
     (if dp_changed plan
      then a\<lparr>act_status := Released,
             act_transfer_count :=
               (if dp_record_transfer plan then sat_add_u32 (act_transfer_count a) 1
                else act_transfer_count a)\<rparr>
      else a)"

definition deactivate ::
  "LicenseRecord \<Rightarrow> MachineId \<Rightarrow> (ClientFault, DeactivatePlan \<times> LicenseRecord) result"
where
  "deactivate l m =
     (case activation l m of
        None \<Rightarrow> Inl InvalidCredential
      | Some a \<Rightarrow>
          (case deactivate_plan (act_status a) of
             Inl f \<Rightarrow> Inl f
           | Inr plan \<Rightarrow> Inr (plan, activation_mut (deactivate_record plan) m l)))"

section \<open>Revocation\<close>

datatype RevokeTarget = License | Machine MachineId

datatype RevokeError = UnknownMachine | StaleEpoch

record RevokePlan =
  rp_state_changed :: bool
  rp_epoch_changed :: bool
  rp_revocation_epoch :: u64

definition plan_for_state :: "bool \<Rightarrow> u64 \<Rightarrow> u64 \<Rightarrow> (RevokeError, RevokePlan) result" where
  "plan_for_state already_revoked current_epoch requested_epoch =
     (if requested_epoch = 0 then Inl StaleEpoch
      else if already_revoked then
        (let e = max current_epoch requested_epoch
         in Inr \<lparr>rp_state_changed = False, rp_epoch_changed = (e \<noteq> current_epoch),
                 rp_revocation_epoch = e\<rparr>)
      else if requested_epoch \<le> current_epoch then Inl StaleEpoch
      else Inr \<lparr>rp_state_changed = True, rp_epoch_changed = True,
                rp_revocation_epoch = requested_epoch\<rparr>)"

definition plan_license :: "LicenseStatus \<Rightarrow> u64 \<Rightarrow> u64 \<Rightarrow> (RevokeError, RevokePlan) result" where
  "plan_license status current_epoch requested_epoch =
     plan_for_state (status = LicenseStatus.Revoked) current_epoch requested_epoch"

definition plan_machine ::
  "ActivationStatus option \<Rightarrow> u64 \<Rightarrow> u64 \<Rightarrow> (RevokeError, RevokePlan) result"
where
  "plan_machine status current_epoch requested_epoch =
     (case status of
        None \<Rightarrow> Inl UnknownMachine
      | Some s \<Rightarrow> plan_for_state (s = ActivationStatus.Revoked) current_epoch requested_epoch)"

definition revoke ::
  "LicenseRecord \<Rightarrow> RevokeTarget \<Rightarrow> u64 \<Rightarrow> u64 \<Rightarrow> (RevokeError, RevokePlan \<times> LicenseRecord) result"
where
  "revoke l target current_epoch requested_epoch =
     (case target of
        License \<Rightarrow>
          (case plan_license (lic_status l) current_epoch requested_epoch of
             Inl e \<Rightarrow> Inl e
           | Inr plan \<Rightarrow>
               Inr (plan,
                 if rp_state_changed plan
                 then l\<lparr>lic_status := LicenseStatus.Revoked,
                        lic_revoked_at_epoch := Some (rp_revocation_epoch plan)\<rparr>
                 else if lic_revoked_at_epoch l = None
                 then l\<lparr>lic_revoked_at_epoch := Some (rp_revocation_epoch plan)\<rparr>
                 else l))
      | Machine m \<Rightarrow>
          (case plan_machine (map_option act_status (activation l m)) current_epoch requested_epoch of
             Inl e \<Rightarrow> Inl e
           | Inr plan \<Rightarrow>
               Inr (plan,
                 if rp_state_changed plan
                 then activation_mut (\<lambda>a. a\<lparr>act_status := ActivationStatus.Revoked\<rparr>) m l
                 else l)))"

section \<open>The seat machine\<close>

text \<open>
  The operations a licence's durable object serialises, in any order and at any times.  The
  second component is the object's view of the revocation epoch, which a plan says must
  remain after it.  The identifier of a new activation is freshly drawn, and the seat
  allowance in force is \<open>cap\<close> throughout.
\<close>

inductive seat_step :: "u32 \<Rightarrow> LicenseRecord \<times> u64 \<Rightarrow> LicenseRecord \<times> u64 \<Rightarrow> bool"
  for cap :: u32
where
  step_reserve:
    "reserve_seat l policy catalog registry input scope m now = Inr (r, l') \<Longrightarrow>
     m \<notin> set (machine_ids l) \<Longrightarrow> seat_cap policy l = cap \<Longrightarrow> seat_step cap (l, e) (l', e)"
| step_commit: "commit_seat l m = Inr l' \<Longrightarrow> seat_step cap (l, e) (l', e)"
| step_reclaim_pending: "reclaim_pending l now = (n, l') \<Longrightarrow> seat_step cap (l, e) (l', e)"
| step_heartbeat: "heartbeat l policy m now = Inr (plan, l') \<Longrightarrow> seat_step cap (l, e) (l', e)"
| step_reclaim_zombies: "reclaim_zombies l policy now = (n, l') \<Longrightarrow> seat_step cap (l, e) (l', e)"
| step_touch:
    "validate l policy catalog registry scope input epoch security_floor now = Inr (Ticket plan) \<Longrightarrow>
     l' = touch l (vi_machine_id input) plan now \<Longrightarrow> seat_step cap (l, e) (l', e)"
| step_deactivate: "deactivate l m = Inr (plan, l') \<Longrightarrow> seat_step cap (l, e) (l', e)"
| step_revoke:
    "revoke l target e req = Inr (plan, l') \<Longrightarrow> seat_step cap (l, e) (l', rp_revocation_epoch plan)"

definition no_activations :: "LicenseRecord \<times> u64 \<Rightarrow> bool" where
  "no_activations s \<longleftrightarrow> lic_activations (fst s) = []"

text \<open>The specification: a pool of at most \<open>cap\<close> machine identifiers.\<close>

inductive pool_step :: "nat \<Rightarrow> MachineId set \<Rightarrow> MachineId set \<Rightarrow> bool" for cap :: nat where
  pool_acquire: "m \<notin> H \<Longrightarrow> card H < cap \<Longrightarrow> pool_step cap H (insert m H)"
| pool_release: "H' \<subseteq> H \<Longrightarrow> pool_step cap H H'"

interpretation pool: safe_machine "\<lambda>H. H = {}" "pool_step cap" "\<lambda>H. finite H \<and> card H \<le> cap" for cap
proof unfold_locales
  fix H H' :: "MachineId set"
  assume "finite H \<and> card H \<le> cap" "pool_step cap H H'"
  then show "finite H' \<and> card H' \<le> cap"
    by (auto elim!: pool_step.cases simp: card_insert_if intro: finite_subset card_mono order_trans)
qed simp

section \<open>What each operation does to the record\<close>

lemma take_seat_cases:
  assumes "take_seat l policy input m variant ents now = Inr (r, l')"
  obtains
    (reused) a refresh na where "res_reused_existing r" "a \<in> set (live_activations l)"
      "res_machine_id r = act_machine_id a"
      "l' = activation_mut (reuse_record input variant refresh na now) (act_machine_id a) l"
  | (fresh) refresh na where "\<not> res_reused_existing r" "res_machine_id r = m"
      "occupied_seats l < seat_cap policy l"
      "l' = l\<lparr>lic_activations := lic_activations l @ [new_record input m variant refresh na now]\<rparr>"
proof -
  have nth: "map act_machine_id xs ! i = act_machine_id (xs ! i) \<and> xs ! i \<in> set xs"
    if "i < length xs" for i and xs :: "ActivationRecord list" using that by simp
  show thesis using assms
    by (auto simp: take_seat_def Let_def not_le split: option.splits if_splits prod.splits
        dest!: nth intro: that)
qed

lemma reserve_seat_ok:
  assumes "reserve_seat l policy catalog registry input scope m now = Inr (r, l')"
  obtains variant ents where "take_seat l policy input m variant ents now = Inr (r, l')"
    "lic_status l = LicenseStatus.Active" "release_variant registry scope (ai_release_id input) = Inr variant"
    "resolve catalog (pol_entitlement policy) now = Inr ents"
  using assms by (auto simp: reserve_seat_def split: if_splits sum.splits)

lemma touch_ok:
  assumes "validate l policy catalog registry scope input epoch sf now = Inr (Ticket plan)"
    and "l' = touch l (vi_machine_id input) plan now"
  obtains a where "activation l (vi_machine_id input) = Some a" "act_status a \<noteq> ActivationStatus.Revoked"
    "lic_status l \<noteq> LicenseStatus.Revoked"
    "l' = activation_mut (touch_record plan now) (vi_machine_id input) l"
  using assms by (auto simp: validate_def touch_def split: if_splits option.splits)

lemma commit_seat_ok:
  assumes "commit_seat l m = Inr l'"
  obtains a where "activation l m = Some a" "holds_seat a"
    "l' = activation_mut (\<lambda>a. a\<lparr>act_status := ActivationStatus.Active\<rparr>) m l"
  using assms by (auto simp: commit_seat_def holds_seat_def split: option.splits if_splits)

lemma heartbeat_ok:
  assumes "heartbeat l policy m now = Inr (plan, l')"
  obtains a where "activation l m = Some a" "act_status a = ActivationStatus.Active"
    "lic_status l = LicenseStatus.Active"
    "l' = activation_mut (\<lambda>a. a\<lparr>act_last_seen_at := Some now\<rparr>) m l"
  using assms by (auto simp: heartbeat_def heartbeat_plan_def split: option.splits sum.splits if_splits)

lemma deactivate_ok:
  assumes "deactivate l m = Inr (plan, l')"
  obtains a where "activation l m = Some a" "act_status a \<noteq> ActivationStatus.Revoked"
    "l' = activation_mut (deactivate_record plan) m l"
proof -
  from assms obtain a where a: "activation l m = Some a" "deactivate_plan (act_status a) = Inr plan"
    "l' = activation_mut (deactivate_record plan) m l"
    by (auto simp: deactivate_def split: option.splits sum.splits)
  then have "act_status a \<noteq> ActivationStatus.Revoked" by auto
  with a that show thesis by blast
qed

lemma reuse_record_keeps [simp]:
  "act_machine_id (reuse_record input v rf na now a) = act_machine_id a"
  "act_status (reuse_record input v rf na now a) = act_status a"
  by (simp_all add: reuse_record_def)

lemma new_record_fields [simp]:
  "act_machine_id (new_record input m v rf na now) = m"
  "act_status (new_record input m v rf na now) = Pending"
  by (simp_all add: new_record_def)

lemma deactivate_record_keeps [simp]:
  "act_machine_id (deactivate_record plan a) = act_machine_id a"
  by (simp add: deactivate_record_def)

lemma live_held: "a \<in> set (live_activations l) \<Longrightarrow> act_machine_id a \<in> held l"
  by (auto simp: live_activations_def held_def holds_seat_def)

lemma machine_ids_release [simp]: "machine_ids (snd (release_where p l)) = machine_ids l"
  by (simp add: release_where_def machine_ids_def o_def if_distrib cong: if_cong)

lemma held_release:
  "held (snd (release_where p l)) =
   act_machine_id ` {a \<in> set (lic_activations l). holds_seat a \<and> \<not> p a}"
  by (force simp: release_where_def held_def holds_seat_def)

lemma activation_release:
  "activation (snd (release_where p l)) m =
   map_option (\<lambda>a. if p a then a\<lparr>act_status := Released\<rparr> else a) (activation l m)"
proof -
  have "find (\<lambda>a. act_machine_id a = m) (map f xs) = map_option f (find (\<lambda>a. act_machine_id a = m) xs)"
    if "\<And>a. act_machine_id (f a) = act_machine_id a" for f and xs :: "ActivationRecord list"
    using that by (induction xs) auto
  note this [of "\<lambda>a. if p a then a\<lparr>act_status := Released\<rparr> else a" "lic_activations l"]
  then show ?thesis by (simp add: activation_def release_where_def)
qed

lemma release_count:
  assumes "\<And>a. p a \<Longrightarrow> holds_seat a"
  shows "held_count l = held_count (snd (release_where p l)) + fst (release_where p l)"
proof -
  have "length (filter holds_seat xs) =
      length (filter holds_seat (map (\<lambda>a. if p a then a\<lparr>act_status := Released\<rparr> else a) xs)) + length (filter p xs)"
    for xs using assms by (induction xs) (auto simp: holds_seat_def)
  then show ?thesis by (simp add: held_count_def release_where_def)
qed

text \<open>With no heartbeat, or a non-positive one, nothing is a zombie.\<close>

definition lapsed_heartbeat :: "Policy \<Rightarrow> i64 \<Rightarrow> ActivationRecord \<Rightarrow> bool" where
  "lapsed_heartbeat policy now a \<longleftrightarrow>
     (case ss_heartbeat_secs (pol_seats policy) of
        None \<Rightarrow> False
      | Some hb \<Rightarrow> (case zombie_cutoff hb now of None \<Rightarrow> False | Some cutoff \<Rightarrow> is_zombie cutoff a))"

lemma release_nothing: "release_where (\<lambda>a. False) l = (0, l)"
  by (simp add: release_where_def)

lemma reclaim_zombies_release: "reclaim_zombies l policy now = release_where (lapsed_heartbeat policy now) l"
proof (cases "ss_heartbeat_secs (pol_seats policy)")
  case None
  then have "lapsed_heartbeat policy now = (\<lambda>a. False)" by (simp add: lapsed_heartbeat_def fun_eq_iff)
  with None show ?thesis by (simp add: reclaim_zombies_def release_nothing)
next
  case (Some hb)
  show ?thesis
  proof (cases "zombie_cutoff hb now")
    case None
    with Some have "lapsed_heartbeat policy now = (\<lambda>a. False)" by (simp add: lapsed_heartbeat_def fun_eq_iff)
    with None Some show ?thesis by (simp add: reclaim_zombies_def release_nothing)
  next
    case (Some cutoff)
    with \<open>ss_heartbeat_secs _ = _\<close> have "lapsed_heartbeat policy now = is_zombie cutoff"
      by (simp add: lapsed_heartbeat_def fun_eq_iff)
    with Some \<open>ss_heartbeat_secs _ = _\<close> show ?thesis by (simp add: reclaim_zombies_def)
  qed
qed

lemma lapsed_heartbeat_active: "lapsed_heartbeat policy now a \<Longrightarrow> act_status a = ActivationStatus.Active"
  by (auto simp: lapsed_heartbeat_def is_zombie_def split: option.splits)

lemma revoke_license_activations:
  "revoke l License e req = Inr (plan, l') \<Longrightarrow> lic_activations l' = lic_activations l"
  by (auto simp: revoke_def split: sum.splits if_splits)

section \<open>The machine refines the pool\<close>

lemma fresh_pool:
  assumes "m \<notin> set (machine_ids l)" "act_machine_id a = m" "holds_seat a"
  shows "machine_ids (l\<lparr>lic_activations := lic_activations l @ [a]\<rparr>) = machine_ids l @ [m]"
    "held (l\<lparr>lic_activations := lic_activations l @ [a]\<rparr>) = insert m (held l)"
  using assms by (auto simp: machine_ids_def held_def)

lemma reserve_pool:
  assumes ok: "reserve_seat l policy catalog registry input scope m now = Inr (r, l')"
    and inv: "distinct (machine_ids l)" and fresh: "m \<notin> set (machine_ids l)"
    and cap: "seat_cap policy l \<le> u32_max"
  shows "distinct (machine_ids l') \<and>
    (if res_reused_existing r then held l' = held l \<and> res_machine_id r \<in> held l
     else res_machine_id r \<notin> held l \<and> held l' = insert (res_machine_id r) (held l) \<and>
       card (held l) < seat_cap policy l)"
proof -
  from ok obtain variant ents where "take_seat l policy input m variant ents now = Inr (r, l')"
    by (rule reserve_seat_ok)
  then show ?thesis
  proof (cases rule: take_seat_cases)
    case (reused a refresh na)
    from reused(2) have "act_machine_id a \<in> held l" by (rule live_held)
    moreover from this obtain b where "activation l (act_machine_id a) = Some b" "holds_seat b"
      using held_iff [OF inv] by blast
    ultimately show ?thesis using reused inv
      by (simp add: machine_ids_mut held_mut holds_seat_def insert_absorb)
  next
    case (fresh refresh na)
    have "held_count l < seat_cap policy l" using fresh(3) occupied_less_iff [OF cap] by simp
    then show ?thesis using fresh(1,2,4) assms(3) inv held_subset_ids [of l]
      by (simp add: fresh_pool holds_seat_def card_held) blast
  qed
qed

lemma mut_release:
  assumes "distinct (machine_ids l)" "activation l m = Some a"
    and "\<And>a. act_machine_id (f a) = act_machine_id a" "holds_seat (f a) \<Longrightarrow> holds_seat a"
  shows "distinct (machine_ids (activation_mut f m l)) \<and> held (activation_mut f m l) \<subseteq> held l"
  using assms held_iff [OF assms(1), of m] by (auto simp: machine_ids_mut held_mut split: if_splits)

lemma revoke_pool:
  assumes "revoke l target e req = Inr (plan, l')" "distinct (machine_ids l)"
  shows "distinct (machine_ids l') \<and> held l' \<subseteq> held l"
proof (cases target)
  case License
  with assms show ?thesis
    using revoke_license_activations by (auto simp: machine_ids_def held_def)
next
  case (Machine m)
  show ?thesis
  proof (cases "activation l m")
    case None
    with assms Machine show ?thesis by (simp add: revoke_def plan_machine_def)
  next
    case (Some a)
    have "distinct (machine_ids (activation_mut (\<lambda>a. a\<lparr>act_status := ActivationStatus.Revoked\<rparr>) m l)) \<and>
      held (activation_mut (\<lambda>a. a\<lparr>act_status := ActivationStatus.Revoked\<rparr>) m l) \<subseteq> held l"
      by (rule mut_release [OF assms(2) Some]) (simp_all add: holds_seat_def)
    with assms Machine show ?thesis by (auto simp: revoke_def split: sum.splits if_splits)
  qed
qed

lemma release_where_pool:
  "distinct (machine_ids l) \<Longrightarrow> release_where p l = (n, l') \<Longrightarrow>
   distinct (machine_ids l') \<and> held l' \<subseteq> held l"
  using machine_ids_release [of p l] held_release [of p l] by (auto simp: held_def)

lemma commit_pool:
  assumes "commit_seat l m = Inr l'" "distinct (machine_ids l)"
  shows "distinct (machine_ids l') \<and> held l' \<subseteq> held l"
proof -
  from assms(1) obtain a where a: "activation l m = Some a" "holds_seat a"
    and l': "l' = activation_mut (\<lambda>a. a\<lparr>act_status := ActivationStatus.Active\<rparr>) m l"
    by (rule commit_seat_ok)
  show ?thesis unfolding l' by (rule mut_release [OF assms(2) a(1)]) (simp_all add: a)
qed

lemma heartbeat_pool:
  assumes "heartbeat l policy m now = Inr (plan, l')" "distinct (machine_ids l)"
  shows "distinct (machine_ids l') \<and> held l' \<subseteq> held l"
proof -
  from assms(1) obtain a where a: "activation l m = Some a"
    and l': "l' = activation_mut (\<lambda>a. a\<lparr>act_last_seen_at := Some now\<rparr>) m l"
    by (rule heartbeat_ok)
  show ?thesis unfolding l' by (rule mut_release [OF assms(2) a]) (simp_all add: holds_seat_def)
qed

lemma touch_pool:
  assumes "validate l policy catalog registry scope input epoch sf now = Inr (Ticket plan)"
    and "l' = touch l (vi_machine_id input) plan now" "distinct (machine_ids l)"
  shows "distinct (machine_ids l') \<and> held l' \<subseteq> held l"
proof -
  from assms(1,2) obtain a where a: "activation l (vi_machine_id input) = Some a"
    and l': "l' = activation_mut (touch_record plan now) (vi_machine_id input) l"
    by (rule touch_ok)
  show ?thesis unfolding l' by (rule mut_release [OF assms(3) a]) (simp_all add: holds_seat_def)
qed

lemma deactivate_pool:
  assumes "deactivate l m = Inr (plan, l')" "distinct (machine_ids l)"
  shows "distinct (machine_ids l') \<and> held l' \<subseteq> held l"
proof -
  from assms(1) obtain a where a: "activation l m = Some a"
    and l': "l' = activation_mut (deactivate_record plan) m l"
    by (rule deactivate_ok)
  show ?thesis unfolding l'
    by (rule mut_release [OF assms(2) a]) (auto simp: deactivate_record_def holds_seat_def split: if_splits)
qed

lemma seat_step_pool:
  assumes "seat_step cap s t" "cap \<le> u32_max" "distinct (machine_ids (fst s))"
  shows "distinct (machine_ids (fst t)) \<and> pool_step cap (held (fst s)) (held (fst t))"
  using assms
proof (cases rule: seat_step.cases)
  case (step_reserve l policy catalog registry input scope m now r l' e)
  from reserve_pool [OF step_reserve(3) _ step_reserve(4)] step_reserve assms(2,3) show ?thesis
    by (auto split: if_splits intro: pool_acquire pool_release)
next
  case (step_reclaim_pending l now n l' e)
  with assms(3) release_where_pool [of l "pending_lapsed now" n l'] show ?thesis
    by (simp add: reclaim_pending_def pool_release)
next
  case (step_reclaim_zombies l policy now n l' e)
  with assms(3) release_where_pool [of l "lapsed_heartbeat policy now" n l'] show ?thesis
    by (simp add: reclaim_zombies_release pool_release)
qed (use assms(3) in \<open>auto dest: commit_pool heartbeat_pool touch_pool deactivate_pool revoke_pool intro: pool_release\<close>)

interpretation seats: safe_machine no_activations "seat_step (min cap u32_max)" "\<lambda>s. distinct (machine_ids (fst s))" for cap
  by unfold_locales (auto simp: no_activations_def machine_ids_def dest: seat_step_pool)

lemma seat_reachable_pool:
  assumes "reachable no_activations (seat_step cap) s" "cap \<le> u32_max"
  shows "reachable (\<lambda>H. H = {}) (pool_step cap) (held (fst s))"
  using assms(1)
proof induction
  case (reach_init s)
  then show ?case by (intro reachable.reach_init) (simp add: no_activations_def held_def)
next
  case (reach_step s t)
  from reach_step(1) assms(2) have "distinct (machine_ids (fst s))"
    using seats.reachable_inv [of cap s] by (simp add: min_absorb1)
  with reach_step(2,3) assms(2) show ?case
    by (blast intro: reachable.reach_step dest: seat_step_pool)
qed

section \<open>Revocation is final\<close>

definition machine_revoked :: "LicenseRecord \<Rightarrow> MachineId \<Rightarrow> bool" where
  "machine_revoked l m \<longleftrightarrow>
     (case activation l m of None \<Rightarrow> False | Some a \<Rightarrow> act_status a = ActivationStatus.Revoked)"

lemma machine_revoked_mut:
  assumes "machine_revoked l m" "\<And>a. act_machine_id (f a) = act_machine_id a"
    and "n = m \<Longrightarrow> (\<And>a. activation l m = Some a \<Longrightarrow> act_status (f a) = ActivationStatus.Revoked)"
  shows "machine_revoked (activation_mut f n l) m"
  using assms
  by (cases "n = m")
    (auto simp: machine_revoked_def activation_mut_same activation_mut_other split: option.splits)

lemma machine_revoked_mut_other:
  assumes "machine_revoked l m" "\<And>a. act_machine_id (f a) = act_machine_id a"
    and "activation l n = Some a" "act_status a \<noteq> ActivationStatus.Revoked"
  shows "machine_revoked (activation_mut f n l) m"
  using assms by (intro machine_revoked_mut) (auto simp: machine_revoked_def)

lemma machine_revoked_release:
  assumes "machine_revoked l m" "\<And>a. p a \<Longrightarrow> act_status a \<noteq> ActivationStatus.Revoked"
    and "release_where p l = (n, l')"
  shows "machine_revoked l' m"
proof -
  have "l' = snd (release_where p l)" using assms(3) by simp
  then show ?thesis using assms(1,2)
    by (auto simp: machine_revoked_def activation_release split: option.splits)
qed

lemma plan_for_state_epoch:
  "plan_for_state already e req = Inr plan \<Longrightarrow> e \<le> rp_revocation_epoch plan \<and> 0 < rp_revocation_epoch plan"
  by (auto simp: plan_for_state_def Let_def split: if_splits)

lemma revoke_epoch: "revoke l target e req = Inr (plan, l') \<Longrightarrow> e \<le> rp_revocation_epoch plan"
  by (auto simp: revoke_def plan_license_def plan_machine_def split: RevokeTarget.splits sum.splits option.splits
      dest: plan_for_state_epoch)

lemma revoke_keeps_status:
  "revoke l target e req = Inr (plan, l') \<Longrightarrow> lic_status l' = lic_status l \<or> lic_status l' = LicenseStatus.Revoked"
  by (auto simp: revoke_def split: RevokeTarget.splits sum.splits if_splits)

lemma find_append: "find p (xs @ ys) = (case find p xs of None \<Rightarrow> find p ys | Some x \<Rightarrow> Some x)"
  by (induction xs) auto

lemma reserve_keeps_revoked:
  assumes "reserve_seat l policy catalog registry input scope n now = Inr (r, l')" "machine_revoked l m"
  shows "machine_revoked l' m \<and> lic_status l' = lic_status l"
proof -
  from assms(1) obtain variant ents where "take_seat l policy input n variant ents now = Inr (r, l')"
    by (rule reserve_seat_ok)
  then show ?thesis
  proof (cases rule: take_seat_cases)
    case (reused a refresh na)
    have "machine_revoked l' m" unfolding reused
      by (rule machine_revoked_mut [OF assms(2)]) (use assms(2) in \<open>auto simp: machine_revoked_def\<close>)
    with reused show ?thesis by simp
  next
    case (fresh refresh na)
    with assms(2) show ?thesis
      by (auto simp: machine_revoked_def activation_def find_append split: option.splits)
  qed
qed

lemma revoke_keeps_revoked:
  assumes "revoke l target e req = Inr (plan, l')" "machine_revoked l m"
  shows "machine_revoked l' m"
proof (cases target)
  case License
  with assms revoke_license_activations show ?thesis by (auto simp: machine_revoked_def activation_def)
next
  case (Machine n)
  have "machine_revoked (activation_mut (\<lambda>a. a\<lparr>act_status := ActivationStatus.Revoked\<rparr>) n l) m"
    by (rule machine_revoked_mut [OF assms(2)]) simp_all
  with Machine assms show ?thesis by (auto simp: revoke_def split: sum.splits if_splits)
qed

lemma seat_step_machine_revoked:
  assumes "seat_step cap s t" "machine_revoked (fst s) m"
  shows "machine_revoked (fst t) m"
  using assms(1)
proof (cases rule: seat_step.cases)
  case (step_reserve l policy catalog registry input scope n now r l' e)
  with assms(2) show ?thesis by (simp add: reserve_keeps_revoked)
next
  case (step_commit l n l' e)
  from step_commit(3) obtain a where "activation l n = Some a" "holds_seat a"
    "l' = activation_mut (\<lambda>a. a\<lparr>act_status := ActivationStatus.Active\<rparr>) n l"
    by (rule commit_seat_ok)
  with step_commit assms(2) show ?thesis
    using machine_revoked_mut_other [of l m "\<lambda>a. a\<lparr>act_status := ActivationStatus.Active\<rparr>" n a]
    by (auto simp: holds_seat_def)
next
  case (step_reclaim_pending l now n l' e)
  have "machine_revoked l' m"
    by (rule machine_revoked_release [where p = "pending_lapsed now"])
      (use step_reclaim_pending assms(2) in \<open>simp_all add: reclaim_pending_def pending_lapsed_def\<close>)
  with step_reclaim_pending show ?thesis by simp
next
  case (step_heartbeat l policy n now plan l' e)
  from step_heartbeat(3) obtain a where "activation l n = Some a" "act_status a = ActivationStatus.Active"
    "l' = activation_mut (\<lambda>a. a\<lparr>act_last_seen_at := Some now\<rparr>) n l"
    by (rule heartbeat_ok)
  with step_heartbeat assms(2) show ?thesis
    using machine_revoked_mut_other [of l m "\<lambda>a. a\<lparr>act_last_seen_at := Some now\<rparr>" n a] by auto
next
  case (step_reclaim_zombies l policy now n l' e)
  have "machine_revoked l' m"
    by (rule machine_revoked_release [where p = "lapsed_heartbeat policy now"])
      (use step_reclaim_zombies assms(2) in \<open>simp_all add: reclaim_zombies_release lapsed_heartbeat_active\<close>)
  with step_reclaim_zombies show ?thesis by simp
next
  case (step_touch l policy catalog registry scope input epoch sf now plan l' e)
  from step_touch(3,4) obtain a where "activation l (vi_machine_id input) = Some a"
    "act_status a \<noteq> ActivationStatus.Revoked"
    "l' = activation_mut (touch_record plan now) (vi_machine_id input) l"
    by (rule touch_ok)
  with step_touch assms(2) show ?thesis
    using machine_revoked_mut_other [of l m "touch_record plan now" "vi_machine_id input" a] by auto
next
  case (step_deactivate l n plan l' e)
  from step_deactivate(3) obtain a where "activation l n = Some a" "act_status a \<noteq> ActivationStatus.Revoked"
    "l' = activation_mut (deactivate_record plan) n l"
    by (rule deactivate_ok)
  with step_deactivate assms(2) show ?thesis
    using machine_revoked_mut_other [of l m "deactivate_record plan" n a] by auto
next
  case (step_revoke l target e req plan l')
  with assms(2) show ?thesis by (simp add: revoke_keeps_revoked)
qed

lemma seat_step_license:
  assumes "seat_step cap s t"
  shows "snd s \<le> snd t \<and> (lic_status (fst s) = LicenseStatus.Revoked \<longrightarrow> lic_status (fst t) = LicenseStatus.Revoked)"
  using assms
proof (cases rule: seat_step.cases)
  case (step_reserve l policy catalog registry input scope n now r l' e)
  from step_reserve(3) have "lic_status l = LicenseStatus.Active" by (rule reserve_seat_ok)
  with step_reserve show ?thesis by simp
next
  case (step_commit l n l' e)
  from step_commit(3) show ?thesis by (rule commit_seat_ok) (simp add: step_commit)
next
  case (step_touch l policy catalog registry scope input epoch sf now plan l' e)
  from step_touch(3,4) show ?thesis by (rule touch_ok) (simp add: step_touch)
next
  case (step_deactivate l n plan l' e)
  from step_deactivate(3) show ?thesis by (rule deactivate_ok) (simp add: step_deactivate)
next
  case (step_heartbeat l policy n now plan l' e)
  from step_heartbeat(3) show ?thesis by (rule heartbeat_ok) (simp add: step_heartbeat)
next
  case (step_revoke l target e req plan l')
  with revoke_epoch [OF step_revoke(3)] revoke_keeps_status [OF step_revoke(3)] show ?thesis by auto
qed (auto simp: reclaim_pending_def reclaim_zombies_release release_where_def)

lemma seat_run_final:
  assumes "(seat_step cap)\<^sup>*\<^sup>* s t"
  shows "snd s \<le> snd t \<and> (lic_status (fst s) = LicenseStatus.Revoked \<longrightarrow> lic_status (fst t) = LicenseStatus.Revoked) \<and>
    (\<forall>m. machine_revoked (fst s) m \<longrightarrow> machine_revoked (fst t) m)"
  using assms
proof induction
  case (step t u)
  then show ?case using seat_step_license [OF step(2)] seat_step_machine_revoked [OF step(2)]
    by (meson order_trans)
qed simp

lemma machine_revoked_refused:
  assumes "machine_revoked l m"
  shows "commit_seat l m = Inl InvalidCredential" "heartbeat l policy m now = Inl InvalidCredential"
    "deactivate l m = Inl InvalidCredential"
  using assms
  by (auto simp: machine_revoked_def commit_seat_def heartbeat_def heartbeat_plan_def deactivate_def split: option.splits)

section \<open>When a reservation succeeds\<close>

definition admissible ::
  "LicenseRecord \<Rightarrow> Policy \<Rightarrow> Catalog \<Rightarrow> ReleaseRegistry \<Rightarrow> ActivateInput \<Rightarrow> VersionScope \<Rightarrow> i64 \<Rightarrow> bool"
where
  "admissible l policy catalog registry input scope now \<longleftrightarrow>
     lic_status l = LicenseStatus.Active \<and>
     (case lic_expires_at l of None \<Rightarrow> True | Some e \<Rightarrow> now < e) \<and>
     (ai_is_virtual_machine input \<longrightarrow> rt_allow_vm (pol_runtime policy)) \<and>
     is_ok (release_variant registry scope (ai_release_id input)) \<and>
     is_ok (resolve catalog (pol_entitlement policy) now)"

text \<open>A live activation of this device, exactly or within the policy's tolerance.\<close>

definition recognised :: "LicenseRecord \<Rightarrow> Policy \<Rightarrow> ActivateInput \<Rightarrow> bool" where
  "recognised l policy input \<longleftrightarrow>
     (\<exists>a \<in> set (live_activations l).
        reuses_seat (match_device default_similarity (act_fingerprint a) (ai_fingerprint input)
          (act_attrs a) (ai_attrs input) (rt_fpr_tolerance (pol_runtime policy))))"

lemma match_active_index:
  assumes "match_active l policy input = Some (i, outcome)"
  shows "i < length (live_activations l)"
  using default_bytes.best_match_strongest
      [of "map (\<lambda>a. (act_fingerprint a, act_attrs a)) (live_activations l)" "ai_fingerprint input"
        "ai_attrs input" "rt_fpr_tolerance (pol_runtime policy)"] assms
  by (simp add: match_active_def)

lemma match_active_recognised:
  assumes "0 < rt_fpr_tolerance (pol_runtime policy)" "rt_fpr_tolerance (pol_runtime policy) \<le> 255"
  shows "(\<exists>i outcome. match_active l policy input = Some (i, outcome) \<and> reuses_seat outcome) \<longleftrightarrow>
    recognised l policy input"
  using default_bytes.best_match_reuses_iff [OF assms,
      of "map (\<lambda>a. (act_fingerprint a, act_attrs a)) (live_activations l)" "ai_fingerprint input" "ai_attrs input"]
  by (simp add: match_active_def recognised_def)

lemma live_activation_found:
  assumes "i < length (live_activations l)"
  shows "activation l (act_machine_id (live_activations l ! i)) \<noteq> None"
proof -
  have "live_activations l ! i \<in> set (lic_activations l)"
    using nth_mem [OF assms] by (simp add: live_activations_def)
  then show ?thesis by (auto simp: activation_def find_None_iff)
qed

lemma take_seat_outcome:
  assumes "(\<exists>i outcome. match_active l policy input = Some (i, outcome) \<and> reuses_seat outcome) = known"
  shows "if known \<or> occupied_seats l < seat_cap policy l
    then \<exists>r l'. take_seat l policy input m variant ents now = Inr (r, l') \<and> (res_reused_existing r \<longleftrightarrow> known)
    else take_seat l policy input m variant ents now = Inl SeatExhausted"
proof (cases known)
  case True
  with assms obtain i outcome where m: "match_active l policy input = Some (i, outcome)" "reuses_seat outcome"
    by blast
  then have i: "i < length (live_activations l)" by (blast dest: match_active_index)
  from live_activation_found [OF i] m i True show ?thesis by (auto simp: take_seat_def Let_def)
next
  case False
  with assms have "\<And>i outcome. match_active l policy input = Some (i, outcome) \<Longrightarrow> \<not> reuses_seat outcome"
    by blast
  with False show ?thesis by (auto simp: take_seat_def Let_def split: option.splits)
qed

lemma reserve_seat_admissible:
  assumes "admissible l policy catalog registry input scope now"
  obtains variant ents where
    "reserve_seat l policy catalog registry input scope m now = take_seat l policy input m variant ents now"
  using assms by (auto simp: admissible_def reserve_seat_def is_ok_iff split: option.splits)

lemma reserve_seat_decided:
  assumes "admissible l policy catalog registry input scope now" "seat_cap policy l \<le> u32_max"
    and "0 < rt_fpr_tolerance (pol_runtime policy)" "rt_fpr_tolerance (pol_runtime policy) \<le> 255"
  shows "if recognised l policy input \<or> held_count l < seat_cap policy l
    then \<exists>r l'. reserve_seat l policy catalog registry input scope m now = Inr (r, l') \<and>
      (res_reused_existing r \<longleftrightarrow> recognised l policy input)
    else reserve_seat l policy catalog registry input scope m now = Inl SeatExhausted"
proof -
  from assms(1) obtain variant ents where
    "reserve_seat l policy catalog registry input scope m now = take_seat l policy input m variant ents now"
    by (rule reserve_seat_admissible)
  with take_seat_outcome [OF match_active_recognised [OF assms(3,4)], of l input m variant ents now]
  show ?thesis by (simp only: occupied_less_iff [OF assms(2)])
qed

text \<open>What the reclaim alarm leaves: the committed seats and the reservations still in time.\<close>

definition rightful :: "i64 \<Rightarrow> ActivationRecord \<Rightarrow> bool" where
  "rightful now a \<longleftrightarrow>
     act_status a = ActivationStatus.Active \<or>
     act_status a = Pending \<and> sat_sub now (act_created_at a) < PENDING_TTL_SECS"

lemma rightful_iff: "rightful now a \<longleftrightarrow> holds_seat a \<and> \<not> pending_lapsed now a"
  by (auto simp: rightful_def holds_seat_def pending_lapsed_def)

lemma reclaim_pending_held_count:
  "held_count (snd (reclaim_pending l now)) = length (filter (rightful now) (lic_activations l))"
proof -
  have "length (filter holds_seat (map (\<lambda>a. if pending_lapsed now a then a\<lparr>act_status := Released\<rparr> else a) xs))
      = length (filter (rightful now) xs)" for xs
    by (induction xs) (auto simp: rightful_iff holds_seat_def)
  then show ?thesis by (simp add: held_count_def reclaim_pending_def release_where_def)
qed

lemma reclaim_pending_admissible:
  "admissible (snd (reclaim_pending l now')) policy catalog registry input scope now
    \<longleftrightarrow> admissible l policy catalog registry input scope now"
  "seat_cap policy (snd (reclaim_pending l now')) = seat_cap policy l"
  by (simp_all add: admissible_def seat_cap_def reclaim_pending_def release_where_def)

section \<open>Retries\<close>

lemma activation_mut_fix:
  assumes "activation l m = Some a" "f a = a"
  shows "activation_mut f m l = l"
proof -
  from assms(1) obtain ys zs where "lic_activations l = ys @ a # zs"
    "\<And>f. update_first (\<lambda>a. act_machine_id a = m) f (lic_activations l) = ys @ f a # zs"
    unfolding activation_def by (rule update_first_split) blast
  then show ?thesis using assms(2) by (simp add: activation_mut_def)
qed

lemma commit_again:
  assumes "commit_seat l m = Inr l'"
  shows "commit_seat l' m = Inr l'"
proof -
  let ?f = "\<lambda>a. a\<lparr>act_status := ActivationStatus.Active\<rparr>"
  from assms obtain a where a: "activation l m = Some a" and l': "l' = activation_mut ?f m l"
    by (rule commit_seat_ok)
  have now: "activation l' m = Some (?f a)" by (simp add: l' activation_mut_same a)
  then have "activation_mut ?f m l' = l'" by (rule activation_mut_fix) simp
  with now show ?thesis by (simp add: commit_seat_def)
qed

lemma deactivate_again:
  assumes "deactivate l m = Inr (plan, l')"
  shows "deactivate l' m = Inr (\<lparr>dp_changed = False, dp_record_transfer = False\<rparr>, l')"
proof -
  let ?p = "\<lparr>dp_changed = False, dp_record_transfer = False\<rparr>"
  from assms obtain a where a: "activation l m = Some a" "deactivate_plan (act_status a) = Inr plan"
    and l': "l' = activation_mut (deactivate_record plan) m l"
    by (auto simp: deactivate_def split: option.splits sum.splits)
  have now: "activation l' m = Some (deactivate_record plan a)" by (simp add: l' activation_mut_same a)
  moreover have "act_status (deactivate_record plan a) = Released"
    using a(2) by (cases "act_status a") (auto simp: deactivate_record_def)
  moreover have "activation_mut (deactivate_record ?p) m l' = l'"
    using now by (rule activation_mut_fix) (simp add: deactivate_record_def)
  ultimately show ?thesis by (simp add: deactivate_def)
qed

section \<open>An activation to evaluate on\<close>

definition demo_input :: ActivateInput where
  "demo_input = \<lparr>ai_fingerprint = [9], ai_attrs = None, ai_device_kem_ek = [], ai_device_sig_vk = [],
     ai_release_id = ''r2'', ai_activation_path = PATH_ONLINE, ai_is_virtual_machine = False\<rparr>"

definition demo_pending :: LicenseRecord where
  "demo_pending = demo_license\<lparr>lic_activations := [new_record demo_input [5] 7 604850 3196850 50]\<rparr>"

lemma demo_variant: "release_variant demo_registry VersionScope.Unlimited ''r2'' = Inr 7"
  by (simp add: release_variant_def demo_decide)

lemma demo_reserve:
  "\<exists>r. reserve_seat demo_license demo_policy demo_catalog demo_registry demo_input VersionScope.Unlimited [5] 50
     = Inr (r, demo_pending) \<and> \<not> res_reused_existing r \<and> res_not_after r = 3196850"
  by (simp add: reserve_seat_def take_seat_def demo_license_def demo_input_def demo_variant demo_resolve
      demo_policy_def preset_build_def preset_base_def runtime_spec_default_def seat_spec_default_def
      match_active_def live_activations_def best_match_def occupied_seats_def seat_cap_def Let_def
      credential_not_after_def expires_at_def sat_add_def sat_i64_def i64_min_def i64_max_def DAY_def
      demo_pending_def u32_max_def)

section \<open>Properties\<close>


lemma demo_reachable: "reachable no_activations (seat_step 1) (demo_pending, 0)"
proof -
  from demo_reserve obtain r where "reserve_seat demo_license demo_policy demo_catalog demo_registry demo_input
    VersionScope.Unlimited [5] 50 = Inr (r, demo_pending)" by blast
  then have "seat_step 1 (demo_license, 0) (demo_pending, 0)"
    by (rule step_reserve) (simp_all add: machine_ids_def demo_license_def seat_cap_def)
  then show ?thesis
    by (rule reach_step [rotated]) (simp add: reach_init no_activations_def demo_license_def)
qed

lemma demo_held: "held demo_pending = {[5]}"
  by (simp add: held_def demo_pending_def holds_seat_def)


text \<open>
  C2. No seat is ever sold twice: however activations, commits, heartbeats, releases,
  reclaims and revocations interleave, at most \<open>cap\<close> machines hold a seat, and no machine
  identifier appears on two activations.
\<close>

theorem seats_never_exceed_cap:
  assumes "reachable no_activations (seat_step cap) (l, e)" "cap \<le> u32_max"
  shows "card (held l) \<le> cap \<and> occupied_seats l = card (held l) \<and> distinct (machine_ids l)"
proof -
  have d: "distinct (machine_ids l)"
    using seats.reachable_inv [of cap "(l, e)"] assms by (simp add: min_absorb1)
  have c: "card (held l) \<le> cap"
    using pool.reachable_inv [OF seat_reachable_pool [OF assms]] by simp
  have "occupied_seats l = held_count l"
    using c assms(2) by (simp add: card_held [OF d] occupied_seats_def held_count_def Let_def)
  with c d show ?thesis by (simp add: card_held)
qed

theorem seats_never_exceed_cap_witness: "card (held demo_pending) \<le> 1"
  using seats_never_exceed_cap [OF demo_reachable] by (simp add: u32_max_def)


lemma demo_admissible:
  "admissible demo_pending demo_policy demo_catalog demo_registry demo_input VersionScope.Unlimited 50"
  "seat_cap demo_policy demo_pending = 1" "rt_fpr_tolerance (pol_runtime demo_policy) = 70"
  by (simp_all add: admissible_def demo_pending_def demo_license_def demo_input_def demo_variant demo_resolve
      demo_policy_def preset_build_def preset_base_def runtime_spec_default_def is_ok_def seat_cap_def)

lemma demo_unrecognised: "\<not> recognised demo_pending demo_policy demo_input" "held_count demo_pending = 1"
  by (simp_all add: recognised_def live_activations_def demo_pending_def held_count_def holds_seat_def)


text \<open>
  C29. A reservation whose signing failed never leaks its seat: once the reclaim alarm has
  run, only committed seats and reservations younger than the time limit count, and any
  device asking on a usable licence with fewer of those than the allowance is served.
\<close>

theorem abandoned_reservation_returns_seat:
  assumes "admissible l policy catalog registry input scope now" "seat_cap policy l \<le> u32_max"
    and "0 < rt_fpr_tolerance (pol_runtime policy)" "rt_fpr_tolerance (pol_runtime policy) \<le> 255"
    and "length (filter (rightful now) (lic_activations l)) < seat_cap policy l"
  shows "\<exists>r l'. reserve_seat (snd (reclaim_pending l now)) policy catalog registry input scope m now = Inr (r, l')"
  using reserve_seat_decided [of "snd (reclaim_pending l now)" policy catalog registry input scope now m] assms
  by (auto simp: reclaim_pending_admissible reclaim_pending_held_count split: if_splits)

theorem abandoned_reservation_returns_seat_witness:
  "\<exists>r l'. reserve_seat (snd (reclaim_pending (demo_pending\<lparr>lic_activations :=
      [new_record demo_input [5] 7 0 0 (-100)]\<rparr>) 50)) demo_policy demo_catalog demo_registry demo_input
    VersionScope.Unlimited [6] 50 = Inr (r, l')"
proof (rule abandoned_reservation_returns_seat)
  show "admissible (demo_pending\<lparr>lic_activations := [new_record demo_input [5] 7 0 0 (-100)]\<rparr>)
    demo_policy demo_catalog demo_registry demo_input VersionScope.Unlimited 50"
    using demo_admissible(1) by (simp add: admissible_def)
qed (use demo_admissible in \<open>simp_all add: rightful_def new_record_def PENDING_TTL_SECS_def sat_sub_def
      sat_i64_def i64_min_def i64_max_def seat_cap_def u32_max_def\<close>)

text \<open>
  C15. Revocation is final: over any later sequence of operations the revocation epoch never
  goes back, a revoked licence stays revoked, and a revoked machine stays revoked and has
  its commits, heartbeats and releases refused.
\<close>

theorem revocation_is_final:
  assumes "(seat_step cap)\<^sup>*\<^sup>* (l, e) (l', e')"
  shows "e \<le> e' \<and>
    (lic_status l = LicenseStatus.Revoked \<longrightarrow> lic_status l' = LicenseStatus.Revoked \<and>
      reserve_seat l' policy catalog registry input scope n now = Inl InvalidCredential) \<and>
    (machine_revoked l m \<longrightarrow> machine_revoked l' m \<and> commit_seat l' m = Inl InvalidCredential \<and>
      heartbeat l' policy m now = Inl InvalidCredential \<and> deactivate l' m = Inl InvalidCredential)"
  using seat_run_final [OF assms] machine_revoked_refused [of l' m] by (auto simp: reserve_seat_def)

theorem revocation_is_final_witness:
  "\<exists>l'. (seat_step 1)\<^sup>*\<^sup>* (demo_pending\<lparr>lic_status := LicenseStatus.Revoked\<rparr>, 3) (l', 4) \<and>
     lic_status l' = LicenseStatus.Revoked"
proof -
  let ?l = "demo_pending\<lparr>lic_status := LicenseStatus.Revoked\<rparr>"
  obtain plan l' where r: "revoke ?l License 3 4 = Inr (plan, l')" "rp_revocation_epoch plan = 4"
    by (simp add: revoke_def plan_license_def plan_for_state_def)
  from step_revoke [OF r(1)] r(2) have "(seat_step 1)\<^sup>*\<^sup>* (?l, 3) (l', 4)" by (metis r_into_rtranclp)
  with revocation_is_final [OF this] show ?thesis by auto
qed

text \<open>Whatever the seats do in between, a revoked machine that asks is killed.\<close>

lemma revoked_machine_killed:
  assumes "(seat_step cap)\<^sup>*\<^sup>* (l, e) (l', e')"
    and "machine_revoked l (vi_machine_id input) \<or>
      lic_status l = LicenseStatus.Revoked \<and> activation l' (vi_machine_id input) \<noteq> None"
    and "accepted_request input re sf"
  shows "\<exists>reason msg. validate l' policy catalog registry scope input re sf now = Inr (Kill reason msg) \<and>
    (reason = RevokedLicense \<or> reason = RevokedActivation)"
proof -
  have "machine_revoked l' (vi_machine_id input) \<or>
      lic_status l' = LicenseStatus.Revoked \<and> activation l' (vi_machine_id input) \<noteq> None"
    using seat_run_final [OF assms(1)] assms(2) by auto
  then obtain a where "activation l' (vi_machine_id input) = Some a"
    "lic_status l' = LicenseStatus.Revoked \<or> act_status a = ActivationStatus.Revoked"
    by (auto simp: machine_revoked_def split: option.splits)
  with assms(3) show ?thesis by (auto simp: validate_def accepted_request_def not_le)
qed

text \<open>
  C16. Revocation reaches the device: whatever happens in between, the next accepted
  validation of a machine revoked itself or through its licence is answered with a kill
  order.
\<close>

theorem revocation_reaches_device:
  assumes "(seat_step cap)\<^sup>*\<^sup>* (l, e) (l', e')"
    and "machine_revoked l (vi_machine_id input) \<or>
      lic_status l = LicenseStatus.Revoked \<and> activation l' (vi_machine_id input) \<noteq> None"
    and "accepted_request input re sf"
  shows "\<exists>reason msg. validate l' policy catalog registry scope input re sf now = Inr (Kill reason msg) \<and>
    (reason = RevokedLicense \<or> reason = RevokedActivation)"
  using assms by (rule revoked_machine_killed)

theorem revocation_reaches_device_witness:
  "\<exists>reason msg. validate (demo_pending\<lparr>lic_status := LicenseStatus.Revoked\<rparr>) demo_policy demo_catalog
     demo_registry VersionScope.Unlimited demo_request 1 1 50 = Inr (Kill reason msg) \<and>
     (reason = RevokedLicense \<or> reason = RevokedActivation)"
proof (rule revocation_reaches_device)
  show "(seat_step 1)\<^sup>*\<^sup>* (demo_pending\<lparr>lic_status := LicenseStatus.Revoked\<rparr>, 0)
    (demo_pending\<lparr>lic_status := LicenseStatus.Revoked\<rparr>, 0)" by simp
qed (simp_all add: accepted_request_def demo_request_def activation_def demo_pending_def)

text \<open>
  A retry is harmless: committing twice is committing once, and a repeated release
  succeeds without changing the record or counting a second transfer.
\<close>

theorem commit_and_release_idempotent:
  "(commit_seat l m = Inr l' \<longrightarrow> commit_seat l' m = Inr l') \<and>
   (deactivate l m = Inr (plan, l') \<longrightarrow>
     deactivate l' m = Inr (\<lparr>dp_changed = False, dp_record_transfer = False\<rparr>, l'))"
  using commit_again deactivate_again by blast

theorem commit_and_release_idempotent_witness:
  "\<exists>l' plan l''. commit_seat demo_pending [5] = Inr l' \<and> commit_seat l' [5] = Inr l' \<and>
     deactivate l' [5] = Inr (plan, l'') \<and>
     deactivate l'' [5] = Inr (\<lparr>dp_changed = False, dp_record_transfer = False\<rparr>, l'')"
proof -
  obtain l' where c: "commit_seat demo_pending [5] = Inr l'"
    by (simp add: commit_seat_def activation_def demo_pending_def)
  obtain plan l'' where d: "deactivate l' [5] = Inr (plan, l'')"
    using c by (auto simp: commit_seat_def activation_def deactivate_def demo_pending_def activation_mut_def)
  from commit_and_release_idempotent [of demo_pending "[5]" l']
    commit_and_release_idempotent [of l' "[5]" l'' plan] c d
  show ?thesis by blast
qed

text \<open>
  The expiry a reservation grants is rolled from the moment of the request whenever the
  policy has a term, so it can lie beyond the licence's own expiry.
\<close>

lemma reservation_outlives_license:
  "\<exists>r l'. reserve_seat demo_license demo_policy demo_catalog demo_registry demo_input VersionScope.Unlimited [5] 50
     = Inr (r, l') \<and> lic_expires_at demo_license = Some 1000 \<and> res_not_after r > 1000"
  using demo_reserve by (fastforce simp: demo_license_def)

end
