(* ===== verification/Billing.thy ===== *)
theory Billing
  imports Policy
begin

text \<open>
  The subscription lifecycle (\<open>subscription.rs\<close>): a state machine driven by payment events
  that arrive late, twice and out of order, the perpetual fallback it may earn, and the
  hint and preview derived from it.
\<close>

section \<open>States and events\<close>

definition BILLING_MONTH_SECS :: i64 where "BILLING_MONTH_SECS = 30 * 86400"

datatype SubscriptionState =
    Active | PastDue | Canceling | Suspended | Ended | Expired | PerpetualFallback

fun is_usable :: "SubscriptionState \<Rightarrow> bool" where
  "is_usable SubscriptionState.Active = True"
| "is_usable SubscriptionState.PastDue = True"
| "is_usable SubscriptionState.Canceling = True"
| "is_usable SubscriptionState.PerpetualFallback = True"
| "is_usable _ = False"

fun is_terminal :: "SubscriptionState \<Rightarrow> bool" where
  "is_terminal SubscriptionState.Expired = True"
| "is_terminal SubscriptionState.PerpetualFallback = True"
| "is_terminal _ = False"

fun to_hint :: "SubscriptionState \<Rightarrow> HintState option" where
  "to_hint SubscriptionState.Active = Some HintState.Active"
| "to_hint SubscriptionState.PastDue = Some HintState.PastDue"
| "to_hint SubscriptionState.Canceling = Some HintState.Canceling"
| "to_hint SubscriptionState.Suspended = Some HintState.Suspended"
| "to_hint _ = None"

datatype SubscriptionEvent =
    Renewed i64 i64
  | PaymentFailed
  | PaymentRecovered
  | CancelAtPeriodEnd
  | CancelReverted
  | PeriodElapsed
  | DunningElapsed
  | Reactivated i64 i64
  | FallbackRevoked
  | RefundReported

record Subscription =
  sub_provider :: string
  sub_external_id :: string
  sub_state :: SubscriptionState
  sub_current_period_start :: i64
  sub_current_period_end :: i64
  sub_dunning_until :: "i64 option"
  sub_continuous_paid_months :: u32
  sub_fallback_earned_at :: "i64 option"
  sub_canceled_at :: "i64 option"
  sub_updated_at :: i64
  sub_processed_events :: "string list"

record TransitionOutcome =
  to_applied :: bool
  to_stale :: bool
  to_from :: "SubscriptionState option"
  to_to :: "SubscriptionState option"
  to_fallback_earned :: bool
  to_streak_reset :: bool

definition outcome_default :: TransitionOutcome where
  "outcome_default = \<lparr>to_applied = False, to_stale = False, to_from = None, to_to = None,
     to_fallback_earned = False, to_streak_reset = False\<rparr>"

definition sub_new :: "string \<Rightarrow> string \<Rightarrow> i64 \<Rightarrow> i64 \<Rightarrow> Subscription" where
  "sub_new provider external_id ps pe =
     \<lparr>sub_provider = provider, sub_external_id = external_id, sub_state = SubscriptionState.Active,
      sub_current_period_start = ps, sub_current_period_end = pe,
      sub_dunning_until = None, sub_continuous_paid_months = 0, sub_fallback_earned_at = None,
      sub_canceled_at = None, sub_updated_at = ps, sub_processed_events = []\<rparr>"

definition is_usable_at :: "Subscription \<Rightarrow> i64 \<Rightarrow> bool" where
  "is_usable_at s now =
     (if sub_state s = SubscriptionState.PastDue
      then (case sub_dunning_until s of None \<Rightarrow> True | Some d \<Rightarrow> now < d)
      else is_usable (sub_state s))"

definition settle_ending :: "Subscription \<Rightarrow> SubscriptionState" where
  "settle_ending s =
     (if sub_fallback_earned_at s \<noteq> None then SubscriptionState.PerpetualFallback
      else SubscriptionState.Expired)"

definition paid_months :: "i64 \<Rightarrow> i64 \<Rightarrow> u32" where
  "paid_months ps pe =
     (let months = max (sat_sub pe ps) 0 div BILLING_MONTH_SECS
      in max (if months \<le> int u32_max then nat months else u32_max) 1)"

section \<open>Applying an event\<close>

text \<open>A paid period: the streak grows, a cancellation survives, and the fallback may vest.\<close>

definition begin_period ::
  "Subscription \<Rightarrow> i64 \<Rightarrow> i64 \<Rightarrow> PerpetualFallback option \<Rightarrow> i64 \<Rightarrow> TransitionOutcome \<Rightarrow> TransitionOutcome \<times> Subscription"
where
  "begin_period s ps pe fb now out =
     (let s1 = s\<lparr>sub_current_period_start := ps,
                 sub_current_period_end := pe,
                 sub_dunning_until := None,
                 sub_continuous_paid_months :=
                   sat_add_u32 (sub_continuous_paid_months s) (paid_months ps pe),
                 sub_state := (if sub_state s = SubscriptionState.Canceling
                               then SubscriptionState.Canceling else SubscriptionState.Active)\<rparr>
      in case fb of
           None \<Rightarrow> (out, s1)
         | Some f \<Rightarrow>
             if sub_fallback_earned_at s1 = None \<and> sub_continuous_paid_months s1 \<ge> pf_after_months f
             then (out\<lparr>to_fallback_earned := True\<rparr>, s1\<lparr>sub_fallback_earned_at := Some now\<rparr>)
             else (out, s1))"

definition transition ::
  "Subscription \<Rightarrow> SubscriptionEvent \<Rightarrow> PerpetualFallback option \<Rightarrow> i64 \<Rightarrow> i64 \<Rightarrow> TransitionOutcome
   \<Rightarrow> TransitionOutcome \<times> Subscription"
where
  "transition s event fb now dg out =
     (case event of
        Renewed ps pe \<Rightarrow> begin_period s ps pe fb now out
      | Reactivated ps pe \<Rightarrow> begin_period s ps pe fb now out
      | PaymentFailed \<Rightarrow>
          (out, if sub_state s = SubscriptionState.Active \<or> sub_state s = SubscriptionState.Canceling
                then s\<lparr>sub_state := SubscriptionState.PastDue,
                       sub_dunning_until := Some (sat_add now dg)\<rparr>
                else s)
      | PaymentRecovered \<Rightarrow>
          (out, if sub_state s = SubscriptionState.PastDue
                then s\<lparr>sub_state := (if sub_canceled_at s \<noteq> None then SubscriptionState.Canceling
                                     else SubscriptionState.Active),
                       sub_dunning_until := None\<rparr>
                else s)
      | CancelAtPeriodEnd \<Rightarrow>
          (out, if sub_state s = SubscriptionState.Active \<or> sub_state s = SubscriptionState.PastDue
                then s\<lparr>sub_state := SubscriptionState.Canceling, sub_canceled_at := Some now\<rparr>
                else s)
      | CancelReverted \<Rightarrow>
          (out, if sub_state s = SubscriptionState.Canceling
                then s\<lparr>sub_state := SubscriptionState.Active, sub_canceled_at := None\<rparr>
                else s)
      | PeriodElapsed \<Rightarrow>
          (out, if sub_state s = SubscriptionState.Canceling then s\<lparr>sub_state := settle_ending s\<rparr> else s)
      | DunningElapsed \<Rightarrow>
          if sub_state s = SubscriptionState.PastDue
          then (out\<lparr>to_streak_reset := (sub_continuous_paid_months s \<noteq> 0)\<rparr>,
                s\<lparr>sub_state := SubscriptionState.Suspended, sub_continuous_paid_months := 0\<rparr>)
          else (out, s)
      | FallbackRevoked \<Rightarrow>
          (out, s\<lparr>sub_fallback_earned_at := None,
                  sub_state := (if sub_state s = SubscriptionState.PerpetualFallback
                                then SubscriptionState.Expired else sub_state s)\<rparr>)
      | RefundReported \<Rightarrow>
          (out, s\<lparr>sub_dunning_until := None,
                  sub_state := (if sub_state s = SubscriptionState.PerpetualFallback
                                then SubscriptionState.Expired else SubscriptionState.Suspended)\<rparr>))"

definition security_event :: "SubscriptionEvent \<Rightarrow> bool" where
  "security_event event \<longleftrightarrow> event = FallbackRevoked \<or> event = RefundReported"

definition settle_suspended :: "SubscriptionEvent \<Rightarrow> Subscription \<Rightarrow> Subscription" where
  "settle_suspended event s =
     (if sub_state s = SubscriptionState.Suspended \<and> event = PeriodElapsed
      then s\<lparr>sub_state := settle_ending s\<rparr> else s)"

definition sub_apply ::
  "Subscription \<Rightarrow> string \<Rightarrow> SubscriptionEvent \<Rightarrow> PerpetualFallback option \<Rightarrow> i64 \<Rightarrow> i64
   \<Rightarrow> TransitionOutcome \<times> Subscription"
where
  "sub_apply s event_id event fb now dg =
     (if event_id \<in> set (sub_processed_events s) then (outcome_default, s)
      else if now < sub_updated_at s \<and> \<not> security_event event then
        (outcome_default\<lparr>to_stale := True\<rparr>,
         s\<lparr>sub_processed_events := sub_processed_events s @ [event_id]\<rparr>)
      else if is_terminal (sub_state s) \<and> \<not> security_event event then
        (outcome_default, s\<lparr>sub_processed_events := sub_processed_events s @ [event_id]\<rparr>)
      else
        (let (out, s1) = transition s event fb now dg
               (outcome_default\<lparr>to_applied := True, to_from := Some (sub_state s), to_to := Some (sub_state s)\<rparr>);
             s2 = settle_suspended event s1;
             s3 = s2\<lparr>sub_updated_at := max (sub_updated_at s2) now,
                     sub_processed_events := sub_processed_events s2 @ [event_id]\<rparr>
         in (out\<lparr>to_to := Some (sub_state s3)\<rparr>, s3)))"

section \<open>What is derived from a subscription\<close>

definition fallback_version_cutoff :: "Subscription \<Rightarrow> PerpetualFallback option \<Rightarrow> i64 option" where
  "fallback_version_cutoff s fb =
     (case sub_fallback_earned_at s of
        None \<Rightarrow> None
      | Some earned \<Rightarrow>
          (case fb of
             None \<Rightarrow> None
           | Some f \<Rightarrow>
               (case pf_scope_at f of
                  EarnedAt \<Rightarrow> Some earned
                | SubscriptionStart \<Rightarrow> Some (sub_current_period_start s))))"

definition fallback_progress :: "Subscription \<Rightarrow> PerpetualFallback option \<Rightarrow> (u32 \<times> u32) option" where
  "fallback_progress s fb =
     map_option (\<lambda>f. (sub_continuous_paid_months s, pf_after_months f)) fb"

definition sub_hint :: "Subscription \<Rightarrow> PerpetualFallback option \<Rightarrow> SubscriptionHint option" where
  "sub_hint s fb =
     map_option (\<lambda>state.
       \<lparr>hint_state = state, hint_current_period_end = sub_current_period_end s,
        hint_fallback_progress_months = map_option fst (fallback_progress s fb),
        hint_fallback_required_months = map_option snd (fallback_progress s fb)\<rparr>)
       (to_hint (sub_state s))"

definition preview_ending :: "Subscription \<Rightarrow> PerpetualFallback option \<Rightarrow> SubscriptionState \<times> i64 option" where
  "preview_ending s fb =
     (let end_state = settle_ending s
      in (end_state,
          if end_state = SubscriptionState.PerpetualFallback then fallback_version_cutoff s fb else None))"

section \<open>Delivery of events\<close>

record Delivery =
  dl_id :: string
  dl_event :: SubscriptionEvent
  dl_fallback :: "PerpetualFallback option"
  dl_now :: i64
  dl_dunning :: i64

definition deliver :: "Delivery \<Rightarrow> Subscription \<Rightarrow> Subscription" where
  "deliver d s = snd (sub_apply s (dl_id d) (dl_event d) (dl_fallback d) (dl_now d) (dl_dunning d))"

text \<open>The deliveries that remain when every identifier is kept at its first arrival only.\<close>

fun first_arrivals :: "string set \<Rightarrow> Delivery list \<Rightarrow> Delivery list" where
  "first_arrivals seen [] = []"
| "first_arrivals seen (d # ds) =
     (if dl_id d \<in> seen then first_arrivals seen ds
      else d # first_arrivals (insert (dl_id d) seen) ds)"

lemma begin_period_fields:
  "sub_processed_events (snd (begin_period s ps pe fb now out)) = sub_processed_events s"
  "sub_updated_at (snd (begin_period s ps pe fb now out)) = sub_updated_at s"
  "sub_canceled_at (snd (begin_period s ps pe fb now out)) = sub_canceled_at s"
  "sub_state (snd (begin_period s ps pe fb now out)) =
     (if sub_state s = SubscriptionState.Canceling then SubscriptionState.Canceling else SubscriptionState.Active)"
  by (simp_all add: begin_period_def Let_def split: option.splits)

lemma begin_period_earned:
  "sub_fallback_earned_at s = Some t \<Longrightarrow> sub_fallback_earned_at (snd (begin_period s ps pe fb now out)) = Some t"
  by (simp add: begin_period_def Let_def split: option.splits)

lemma transition_log:
  "sub_processed_events (snd (transition s ev fb now dg out)) = sub_processed_events s"
  "sub_updated_at (snd (transition s ev fb now dg out)) = sub_updated_at s"
  by (simp_all add: transition_def begin_period_fields split: SubscriptionEvent.splits)

lemma settle_suspended_fields [simp]:
  "sub_processed_events (settle_suspended ev s) = sub_processed_events s"
  "sub_updated_at (settle_suspended ev s) = sub_updated_at s"
  "sub_canceled_at (settle_suspended ev s) = sub_canceled_at s"
  "sub_dunning_until (settle_suspended ev s) = sub_dunning_until s"
  "sub_fallback_earned_at (settle_suspended ev s) = sub_fallback_earned_at s"
  by (simp_all add: settle_suspended_def)

lemma deliver_log:
  "sub_processed_events (deliver d s) =
     (if dl_id d \<in> set (sub_processed_events s) then sub_processed_events s
      else sub_processed_events s @ [dl_id d])"
  by (simp add: deliver_def sub_apply_def Let_def case_prod_beta transition_log)

lemma deliver_updated: "sub_updated_at s \<le> sub_updated_at (deliver d s)"
  by (simp add: deliver_def sub_apply_def Let_def case_prod_beta transition_log)

lemma deliver_again: "dl_id d \<in> set (sub_processed_events s) \<Longrightarrow> deliver d s = s"
  by (simp add: deliver_def sub_apply_def)

interpretation billing_clock: high_water sub_updated_at deliver
  by unfold_locales (rule deliver_updated)

lemma run_first_arrivals:
  "fold deliver ds s = fold deliver (first_arrivals (set (sub_processed_events s)) ds) s"
proof (induction ds arbitrary: s)
  case (Cons d ds)
  show ?case
  proof (cases "dl_id d \<in> set (sub_processed_events s)")
    case True
    with Cons [of s] show ?thesis by (simp add: deliver_again)
  next
    case False
    have "set (sub_processed_events (deliver d s)) = insert (dl_id d) (set (sub_processed_events s))"
      using False by (simp add: deliver_log)
    with False Cons [of "deliver d s"] show ?thesis by simp
  qed
qed simp

section \<open>The lifecycle invariant\<close>

definition lifecycle_ok :: "Subscription \<Rightarrow> bool" where
  "lifecycle_ok s \<longleftrightarrow>
     sub_state s \<noteq> SubscriptionState.Ended \<and>
     (sub_state s = SubscriptionState.PastDue \<longrightarrow> sub_dunning_until s \<noteq> None) \<and>
     (sub_state s = SubscriptionState.Canceling \<longrightarrow> sub_canceled_at s \<noteq> None) \<and>
     (sub_state s = SubscriptionState.PerpetualFallback \<longrightarrow> sub_fallback_earned_at s \<noteq> None) \<and>
     distinct (sub_processed_events s)"

lemma transition_lifecycle:
  "lifecycle_ok s \<Longrightarrow> \<not> is_terminal (sub_state s) \<or> security_event ev \<Longrightarrow>
   lifecycle_ok (snd (transition s ev fb now dg out))"
  by (cases ev; cases "sub_state s")
    (auto simp: lifecycle_ok_def transition_def begin_period_fields settle_ending_def security_event_def)

lemma settle_suspended_lifecycle: "lifecycle_ok s \<Longrightarrow> lifecycle_ok (settle_suspended ev s)"
  by (auto simp: lifecycle_ok_def settle_suspended_def settle_ending_def)

lemma deliver_lifecycle:
  assumes "lifecycle_ok s"
  shows "lifecycle_ok (deliver d s)"
proof (cases "dl_id d \<in> set (sub_processed_events s)")
  case True
  with assms show ?thesis by (simp add: deliver_again)
next
  case False
  have add: "lifecycle_ok (u\<lparr>sub_updated_at := t, sub_processed_events := sub_processed_events u @ [dl_id d]\<rparr>)"
    "lifecycle_ok (u\<lparr>sub_processed_events := sub_processed_events u @ [dl_id d]\<rparr>)"
    if "lifecycle_ok u" "sub_processed_events u = sub_processed_events s" for u t
    using that False by (simp_all add: lifecycle_ok_def)
  let ?out = "outcome_default\<lparr>to_applied := True, to_from := Some (sub_state s), to_to := Some (sub_state s)\<rparr>"
  let ?s1 = "snd (transition s (dl_event d) (dl_fallback d) (dl_now d) (dl_dunning d) ?out)"
  have "lifecycle_ok (settle_suspended (dl_event d) ?s1)"
    if "\<not> is_terminal (sub_state s) \<or> security_event (dl_event d)"
    using assms that by (intro settle_suspended_lifecycle transition_lifecycle)
  from add(1) [OF this] add(2) [OF assms] False show ?thesis
    by (simp add: deliver_def sub_apply_def Let_def case_prod_beta transition_log)
qed

definition fresh_subscription :: "Subscription \<Rightarrow> bool" where
  "fresh_subscription s \<longleftrightarrow>
     s = sub_new (sub_provider s) (sub_external_id s) (sub_current_period_start s) (sub_current_period_end s)"

definition delivery_step :: "Subscription \<Rightarrow> Subscription \<Rightarrow> bool" where
  "delivery_step s t \<longleftrightarrow> (\<exists>d. t = deliver d s)"

interpretation billing: safe_machine fresh_subscription delivery_step lifecycle_ok
proof unfold_locales
  fix s :: Subscription
  assume "fresh_subscription s"
  then obtain a b c d where "s = sub_new a b c d" by (auto simp: fresh_subscription_def)
  then show "lifecycle_ok s" by (simp add: lifecycle_ok_def sub_new_def)
qed (auto simp: delivery_step_def deliver_lifecycle)

section \<open>The fallback\<close>

lemma transition_earned:
  assumes "sub_fallback_earned_at s = Some t" "ev \<noteq> FallbackRevoked"
  shows "sub_fallback_earned_at (snd (transition s ev fb now dg out)) = Some t"
  using assms by (cases ev) (simp_all add: transition_def begin_period_earned)

lemma deliver_earned:
  assumes "sub_fallback_earned_at s = Some t" "dl_event d \<noteq> FallbackRevoked"
  shows "sub_fallback_earned_at (deliver d s) = Some t"
  using assms by (simp add: deliver_def sub_apply_def Let_def case_prod_beta transition_earned)

lemma run_earned:
  "sub_fallback_earned_at s = Some t \<Longrightarrow> \<forall>d \<in> set ds. dl_event d \<noteq> FallbackRevoked \<Longrightarrow>
   sub_fallback_earned_at (fold deliver ds s) = Some t"
  by (induction ds arbitrary: s) (simp_all add: deliver_earned)

lemma begin_period_vests:
  assumes "sub_fallback_earned_at s = None"
    and "sub_fallback_earned_at (snd (begin_period s ps pe fb now out)) = Some t"
  shows "t = now \<and> (\<exists>f. fb = Some f \<and>
    pf_after_months f \<le> sub_continuous_paid_months (snd (begin_period s ps pe fb now out)))"
  using assms by (auto simp: begin_period_def Let_def split: option.splits if_splits)

lemma deliver_vests:
  assumes "sub_fallback_earned_at s = None" "sub_fallback_earned_at (deliver d s) = Some t"
  shows "t = dl_now d \<and> (\<exists>f. dl_fallback d = Some f \<and>
    pf_after_months f \<le> sub_continuous_paid_months (deliver d s))"
proof -
  let ?out = "outcome_default\<lparr>to_applied := True, to_from := Some (sub_state s), to_to := Some (sub_state s)\<rparr>"
  let ?r = "transition s (dl_event d) (dl_fallback d) (dl_now d) (dl_dunning d) ?out"
  have r: "sub_fallback_earned_at (snd ?r) = Some t"
    and m: "sub_continuous_paid_months (deliver d s) = sub_continuous_paid_months (snd ?r)"
    using assms
    by (auto simp: deliver_def sub_apply_def Let_def case_prod_beta settle_suspended_def split: if_splits)
  from r assms(1) show ?thesis unfolding m
    by (cases "dl_event d") (auto simp: transition_def split: if_splits dest: begin_period_vests)
qed

lemma first_arrivals_append:
  "first_arrivals seen (ds @ es) = first_arrivals seen ds @ first_arrivals (seen \<union> dl_id ` set ds) es"
  by (induction ds arbitrary: seen) (auto simp: insert_absorb Un_commute)

lemma first_arrivals_seen: "dl_id ` set ds \<subseteq> seen \<Longrightarrow> first_arrivals seen ds = []"
  by (induction ds) auto

definition demo_sub :: Subscription where
  "demo_sub = sub_new ''stripe'' ''s1'' 0 (12 * BILLING_MONTH_SECS)"

definition demo_fallback :: PerpetualFallback where
  "demo_fallback = \<lparr>pf_after_months = 12, pf_scope_at = EarnedAt\<rparr>"

definition event_at :: "string \<Rightarrow> i64 \<Rightarrow> SubscriptionEvent \<Rightarrow> Delivery" where
  "event_at i t ev = \<lparr>dl_id = i, dl_event = ev, dl_fallback = Some demo_fallback, dl_now = t, dl_dunning = 100\<rparr>"

definition demo_earned :: Subscription where
  "demo_earned = fold deliver [event_at ''e1'' 10 (Renewed 0 (12 * BILLING_MONTH_SECS)),
     event_at ''e2'' 20 CancelAtPeriodEnd] demo_sub"

lemma demo_months:
  "paid_months 0 (12 * BILLING_MONTH_SECS) = 12" "paid_months 0 100 = 1" "paid_months 40 50 = 1"
  by (simp_all add: paid_months_def BILLING_MONTH_SECS_def sat_sub_def sat_i64_def i64_min_def i64_max_def
      u32_max_def Let_def)

lemmas billing_eval =
  event_at_def demo_fallback_def sub_new_def deliver_def sub_apply_def transition_def begin_period_def
  settle_suspended_def settle_ending_def security_event_def outcome_default_def is_usable_at_def
  demo_months sat_add_u32_def sat_sub_def sat_add_def sat_i64_def i64_min_def
  i64_max_def u32_max_def Let_def

lemma demo_earned_eval:
  "sub_state demo_earned = SubscriptionState.Canceling" "sub_fallback_earned_at demo_earned = Some 10"
  "sub_updated_at demo_earned = 20" "''e3'' \<notin> set (sub_processed_events demo_earned)"
  "sub_state demo_sub = SubscriptionState.Active" "fresh_subscription demo_sub"
  by (simp_all add: demo_earned_def demo_sub_def fresh_subscription_def billing_eval)

lemma deliver_period_end:
  assumes "sub_state s = SubscriptionState.Canceling \<or> sub_state s = SubscriptionState.Suspended"
    and "dl_event d = PeriodElapsed" "dl_id d \<notin> set (sub_processed_events s)" "sub_updated_at s \<le> dl_now d"
  shows "deliver d s = s\<lparr>sub_state := settle_ending s, sub_updated_at := dl_now d,
    sub_processed_events := sub_processed_events s @ [dl_id d]\<rparr>"
proof -
  have "\<not> dl_now d < sub_updated_at s" "\<not> is_terminal (sub_state s)" "max (sub_updated_at s) (dl_now d) = dl_now d"
    using assms by auto
  moreover have "settle_suspended PeriodElapsed (snd (transition s PeriodElapsed fb now dg out))
      = s\<lparr>sub_state := settle_ending s\<rparr>" for fb now dg out
    using assms(1) by (auto simp: transition_def settle_suspended_def settle_ending_def)
  ultimately show ?thesis using assms(2,3)
    by (simp add: deliver_def sub_apply_def Let_def case_prod_beta transition_log)
qed

section \<open>Where the code and its comments part\<close>

text \<open>
  A reported refund leaves the earned fallback in place, so the period end that follows
  turns the refunded subscription into a usable perpetual licence.
\<close>

lemma refund_keeps_fallback:
  "is_usable_at (fold deliver [event_at ''e3'' 30 RefundReported, event_at ''e4'' 40 PeriodElapsed] demo_earned) 50"
  by (simp add: demo_earned_def demo_sub_def billing_eval)

text \<open>A cancelled customer whose payment fails and then renews is active again.\<close>

lemma renewal_after_dunning_uncancels:
  "sub_state (fold deliver [event_at ''e3'' 30 PaymentFailed, event_at ''e4'' 40 (Renewed 0 100)] demo_earned)
     = SubscriptionState.Active \<and>
   sub_canceled_at (fold deliver [event_at ''e3'' 30 PaymentFailed, event_at ''e4'' 40 (Renewed 0 100)] demo_earned)
     = Some 20"
  by (simp add: demo_earned_def demo_sub_def billing_eval)

text \<open>A terminal state is left again through a refund and a reactivation.\<close>

lemma expired_can_be_reactivated:
  "sub_state (fold deliver [event_at ''e1'' 10 CancelAtPeriodEnd, event_at ''e2'' 20 PeriodElapsed] demo_sub)
     = SubscriptionState.Expired"
  "sub_state (fold deliver [event_at ''e1'' 10 CancelAtPeriodEnd, event_at ''e2'' 20 PeriodElapsed,
     event_at ''e3'' 30 RefundReported, event_at ''e4'' 40 (Reactivated 40 50)] demo_sub) = SubscriptionState.Active"
  by (simp_all add: demo_sub_def billing_eval)

section \<open>Properties\<close>

text \<open>
  C21. Webhooks may be replayed: delivering any further copies of events already delivered
  changes nothing, and a history with duplicates ends in the same subscription as the
  history that keeps each event at its first arrival.
\<close>

theorem replay_is_harmless:
  assumes "dl_id ` set es \<subseteq> dl_id ` set ds"
  shows "fold deliver (ds @ es) s = fold deliver ds s \<and>
    fold deliver ds s = fold deliver (first_arrivals (set (sub_processed_events s)) ds) s"
proof -
  have "first_arrivals (set (sub_processed_events s) \<union> dl_id ` set ds) es = []"
    using assms by (intro first_arrivals_seen) blast
  then have "first_arrivals (set (sub_processed_events s)) (ds @ es) =
      first_arrivals (set (sub_processed_events s)) ds"
    by (simp add: first_arrivals_append)
  then show ?thesis using run_first_arrivals by metis
qed

theorem replay_is_harmless_witness:
  "fold deliver [event_at ''e1'' 10 (Renewed 0 100), event_at ''e1'' 20 (Renewed 0 100)] demo_sub =
   fold deliver [event_at ''e1'' 10 (Renewed 0 100)] demo_sub"
proof -
  have "dl_id ` set [event_at ''e1'' 20 (Renewed 0 100)] \<subseteq> dl_id ` set [event_at ''e1'' 10 (Renewed 0 100)]"
    by (simp add: event_at_def)
  from conjunct1 [OF replay_is_harmless [OF this]] show ?thesis by (simp only: append.simps)
qed

text \<open>
  C19. The lifecycle invariant: however events arrive, a subscription is never in the state
  \<open>Ended\<close>, a past-due one has a dunning deadline and is usable exactly before it, a
  cancelling one records when it was cancelled, a perpetual fallback was earned, and no
  event is logged twice.
\<close>

theorem subscription_lifecycle:
  assumes "reachable fresh_subscription delivery_step s"
  shows "sub_state s \<noteq> SubscriptionState.Ended \<and>
    (sub_state s = SubscriptionState.PastDue \<longrightarrow>
      (\<exists>d. sub_dunning_until s = Some d \<and> (\<forall>now. is_usable_at s now \<longleftrightarrow> now < d))) \<and>
    (sub_state s = SubscriptionState.Canceling \<longrightarrow> sub_canceled_at s \<noteq> None) \<and>
    (sub_state s = SubscriptionState.PerpetualFallback \<longrightarrow> sub_fallback_earned_at s \<noteq> None) \<and>
    distinct (sub_processed_events s)"
  using billing.reachable_inv [OF assms] by (auto simp: lifecycle_ok_def is_usable_at_def)

theorem subscription_lifecycle_witness:
  "sub_state (deliver (event_at ''e1'' 10 PaymentFailed) demo_sub) = SubscriptionState.PastDue \<and>
   sub_dunning_until (deliver (event_at ''e1'' 10 PaymentFailed) demo_sub) \<noteq> None"
proof -
  have "reachable fresh_subscription delivery_step (deliver (event_at ''e1'' 10 PaymentFailed) demo_sub)"
    by (rule reach_step [of _ _ demo_sub]) (auto simp: delivery_step_def demo_earned_eval(6) intro: reach_init)
  moreover have "sub_state (deliver (event_at ''e1'' 10 PaymentFailed) demo_sub) = SubscriptionState.PastDue"
    by (simp add: demo_sub_def billing_eval)
  ultimately show ?thesis using subscription_lifecycle by blast
qed

text \<open>
  C20. The perpetual fallback is write-once: it vests only at a delivery whose policy
  offers one and whose streak of paid months reaches the requirement, and from then on no
  event but a revocation of the fallback changes or re-dates it.
\<close>

theorem fallback_is_write_once:
  "(sub_fallback_earned_at s = None \<and> sub_fallback_earned_at (deliver d s) = Some t \<longrightarrow>
     t = dl_now d \<and>
     (\<exists>f. dl_fallback d = Some f \<and> pf_after_months f \<le> sub_continuous_paid_months (deliver d s))) \<and>
   (sub_fallback_earned_at s = Some t \<and> (\<forall>d \<in> set ds. dl_event d \<noteq> FallbackRevoked) \<longrightarrow>
     sub_fallback_earned_at (fold deliver ds s) = Some t)"
  using deliver_vests run_earned by blast

theorem fallback_is_write_once_witness:
  "sub_fallback_earned_at (fold deliver [event_at ''e3'' 30 (Renewed 0 (12 * BILLING_MONTH_SECS))] demo_earned) = Some 10"
  using fallback_is_write_once [where s = demo_earned and t = 10
      and ds = "[event_at ''e3'' 30 (Renewed 0 (12 * BILLING_MONTH_SECS))]"] demo_earned_eval(2)
  by (simp add: event_at_def)



end
