(* ===== verification/Digits.thy ===== *)
theory Digits
  imports Prelude "HOL-Library.Word"
begin

text \<open>
  Positional notation, shared by the text encodings: the value of a list of digits, its
  digits again, and the bit operations of the sources as arithmetic on natural numbers.
\<close>

unbundle bit_operations_syntax

section \<open>Values and digits\<close>

definition horner :: "nat \<Rightarrow> nat list \<Rightarrow> nat" where
  "horner b ds = foldl (\<lambda>a d. a * b + d) 0 ds"

definition digits :: "nat \<Rightarrow> nat \<Rightarrow> nat \<Rightarrow> nat list" where
  "digits b n v = map (\<lambda>i. v div b ^ (n - 1 - i) mod b) [0..<n]"

lemma horner_Nil [simp]: "horner b [] = 0"
  by (simp add: horner_def)

lemma horner_snoc [simp]: "horner b (ds @ [d]) = horner b ds * b + d"
  by (simp add: horner_def)

lemma horner_append: "horner b (xs @ ys) = horner b xs * b ^ length ys + horner b ys"
  by (induction ys rule: rev_induct) (simp_all add: algebra_simps flip: append_assoc)

lemma horner_bound: "\<forall>d \<in> set ds. d < b \<Longrightarrow> horner b ds < b ^ length ds"
proof (induction ds rule: rev_induct)
  case (snoc d ds)
  then have "horner b ds + 1 \<le> b ^ length ds" "d < b" by auto
  then have "(horner b ds + 1) * b \<le> b ^ length ds * b" by (intro mult_right_mono) auto
  with \<open>d < b\<close> show ?case by (simp add: algebra_simps)
qed simp

lemma horner_inject:
  assumes "length xs = length ys" "\<forall>d \<in> set xs. d < b" "\<forall>d \<in> set ys. d < b"
    and "horner b xs = horner b ys"
  shows "xs = ys"
  using assms
proof (induction xs arbitrary: ys rule: rev_induct)
  case (snoc x xs)
  from snoc.prems(1) obtain zs y where ys: "ys = zs @ [y]" "length zs = length xs"
    by (cases ys rule: rev_cases) auto
  with snoc.prems have eq: "horner b xs * b + x = horner b zs * b + y" "x < b" "y < b" by auto
  have split: "(q * b + r) mod b = r \<and> (q * b + r) div b = q" if "r < b" for q r using that by auto
  have "x = y" by (metis split eq)
  moreover from this eq have "horner b xs * b = horner b zs * b" by simp
  then have "horner b xs = horner b zs" using eq(2) by auto
  then have "xs = zs" using snoc.prems(2,3) ys by (intro snoc.IH) simp_all
  ultimately show ?case using ys by simp
qed simp

lemma length_digits [simp]: "length (digits b n v) = n"
  by (simp add: digits_def)

lemma digits_bound: "0 < b \<Longrightarrow> d \<in> set (digits b n v) \<Longrightarrow> d < b"
  by (auto simp: digits_def)

lemma digits_Suc: "0 < b \<Longrightarrow> digits b (Suc n) v = digits b n (v div b) @ [v mod b]"
proof -
  assume "0 < b"
  have "v div b ^ (n - i) mod b = v div b div b ^ (n - 1 - i) mod b" if "i < n" for i
  proof -
    from that have "n - i = Suc (n - 1 - i)" by simp
    then show ?thesis by (simp add: div_mult2_eq)
  qed
  then show ?thesis by (simp add: digits_def)
qed

lemma horner_digits: "0 < b \<Longrightarrow> v < b ^ n \<Longrightarrow> horner b (digits b n v) = v"
proof (induction n arbitrary: v)
  case (Suc n)
  from Suc.prems have "v div b < b ^ n" by (simp add: less_mult_imp_div_less mult.commute)
  with Suc show ?case by (simp add: digits_Suc)
qed (simp add: digits_def)

lemma digits_horner:
  assumes "\<forall>d \<in> set ds. d < b" "0 < b"
  shows "digits b (length ds) (horner b ds) = ds"
  using assms horner_bound [OF assms(1)]
  by (intro horner_inject [of _ _ b]) (auto simp: horner_digits dest: digits_bound)

section \<open>Bit operations as arithmetic\<close>

lemma shift_or: "(b::nat) < 2 ^ n \<Longrightarrow> push_bit n v OR b = v * 2 ^ n + b"
proof -
  assume "b < 2 ^ n"
  then have "take_bit n b = b" by (simp add: take_bit_nat_eq_self)
  then have "\<not> bit b k" if "n \<le> k" for k using that by (metis bit_take_bit_iff not_le)
  then have "push_bit n v AND b = 0" by (intro bit_eqI) (auto simp: bit_and_iff bit_push_bit_iff)
  then show ?thesis by (simp add: disjunctive_add_eq_or push_bit_eq_mult)
qed

lemma and_low_bits:
  "(n::nat) AND 1 = n mod 2" "n AND 31 = n mod 32" "n AND 255 = n mod 256" "n AND 4095 = n mod 4096"
proof -
  have "n AND mask k = n mod 2 ^ k" for k by (simp flip: take_bit_eq_mask add: take_bit_eq_mod)
  from this [of 1] this [of 5] this [of 8] this [of 12]
  show "n AND 1 = n mod 2" "n AND 31 = n mod 32" "n AND 255 = n mod 256" "n AND 4095 = n mod 4096"
    by (simp_all add: mask_eq_exp_minus_1)
qed

lemma shift_right: "drop_bit k (n::nat) = n div 2 ^ k"
  by (simp add: drop_bit_eq_div)

end
