(* ===== verification/License_Key.thy ===== *)
theory License_Key
  imports Digits Wire Interfaces
begin

text \<open>
  The licence key a user types (\<open>copylocker-proto/src/license_key.rs\<close>): 88 bits and a
  CRC-12, printed as twenty Crockford characters.  The 128-bit and 16-bit integers of the
  source are natural numbers under the same shifts and masks; no value passes 100 bits, so
  nothing is lost to their width (\<open>payload_bits_bound\<close>, \<open>crc12_bound\<close>).
\<close>

unbundle bit_operations_syntax

section \<open>Data and checksum\<close>

definition ALPHABET :: string where "ALPHABET = ''0123456789ABCDEFGHJKMNPQRSTVWXYZ''"
definition KEY_CHARS :: nat where "KEY_CHARS = 20"
definition KEY_BITS :: nat where "KEY_BITS = 100"
definition CHECKED_BITS :: nat where "CHECKED_BITS = 88"
definition CRC_BITS :: nat where "CRC_BITS = 12"
definition CRC12_POLY :: nat where "CRC12_POLY = 0xF13"

record LicenseKey =
  lk_product_short :: u8
  lk_random :: bytes

definition lk_new :: "u8 \<Rightarrow> bytes \<Rightarrow> LicenseKey" where
  "lk_new product_short random = \<lparr>lk_product_short = product_short, lk_random = random\<rparr>"

definition product_short_from_digest :: "bytes \<Rightarrow> u8" where
  "product_short_from_digest digest = (case digest of [] \<Rightarrow> 0 | b # _ \<Rightarrow> b)"

definition lk_to_bytes :: "LicenseKey \<Rightarrow> bytes" where
  "lk_to_bytes k = lk_product_short k # lk_random k"

definition crc12_step :: "nat \<Rightarrow> nat \<Rightarrow> nat \<Rightarrow> nat" where
  "crc12_step value crc i =
     (let bit = drop_bit i value AND 1;
          top = drop_bit (CRC_BITS - 1) crc AND 1;
          crc1 = push_bit 1 crc AND 0x0fff
      in if top XOR bit = 1 then crc1 XOR (CRC12_POLY AND 0x0fff) else crc1)"

definition crc12 :: "nat \<Rightarrow> nat" where
  "crc12 value = foldl (crc12_step value) 0 (rev [0..<CHECKED_BITS]) AND 0x0fff"

definition payload_bits :: "LicenseKey \<Rightarrow> nat" where
  "payload_bits k =
     (let v = foldl (\<lambda>v b. push_bit 8 v OR unat b) (unat (lk_product_short k)) (lk_random k)
      in push_bit CRC_BITS v OR crc12 v)"

section \<open>Printing\<close>

definition key_char :: "nat \<Rightarrow> nat \<Rightarrow> char" where
  "key_char bits i = ALPHABET ! (drop_bit (KEY_BITS - 5 * (i + 1)) bits AND 0x1f)"

definition to_string_grouped :: "LicenseKey \<Rightarrow> string" where
  "to_string_grouped k =
     (let bits = payload_bits k
      in ''CL'' @ [char_of (48 + PROTO_VER)] @
         concat (map (\<lambda>i. (if i mod 5 = 0 then ''-'' else []) @ [key_char bits i]) [0..<KEY_CHARS]))"

section \<open>Parsing\<close>

definition is_ascii_alphanumeric :: "char \<Rightarrow> bool" where
  "is_ascii_alphanumeric c \<longleftrightarrow>
     (let n = (of_char c :: nat) in 48 \<le> n \<and> n \<le> 57 \<or> 65 \<le> n \<and> n \<le> 90 \<or> 97 \<le> n \<and> n \<le> 122)"

definition confusable :: "char \<Rightarrow> char" where
  "confusable c =
     (if c = CHR ''I'' \<or> c = CHR ''L'' then CHR ''1'' else if c = CHR ''O'' then CHR ''0'' else c)"

fun position :: "('a \<Rightarrow> bool) \<Rightarrow> 'a list \<Rightarrow> nat option" where
  "position p [] = None"
| "position p (x # xs) = (if p x then Some 0 else map_option Suc (position p xs))"

definition decode_char :: "char \<Rightarrow> (ProtoError, nat) result" where
  "decode_char c = ok_or (position (\<lambda>a. a = confusable c) ALPHABET) MalformedLicenseKey"

definition presented_chars :: "string \<Rightarrow> string" where
  "presented_chars input = map to_uppercase (filter is_ascii_alphanumeric input)"

definition key_body :: "string \<Rightarrow> (ProtoError, string) result" where
  "key_body chars =
     (case chars of
        a # b # v # rest \<Rightarrow>
          if a = CHR ''C'' \<and> b = CHR ''L'' then
            (let ver = (of_char (confusable v) + 256 - 48) mod 256
             in if ver \<noteq> PROTO_VER then Inl (UnsupportedProtoVersion ver) else Inr rest)
          else Inr chars
      | _ \<Rightarrow> Inr chars)"

definition decode_body :: "string \<Rightarrow> (ProtoError, LicenseKey) result" where
  "decode_body body =
     (if length body \<noteq> KEY_CHARS then Inl MalformedLicenseKey
      else bind_ok (try_fold (\<lambda>bits c. bind_ok (decode_char c) (\<lambda>d. Inr (push_bit 5 bits OR d))) 0 body)
        (\<lambda>bits.
           let checked = drop_bit CRC_BITS bits;
               crc = bits AND (push_bit CRC_BITS 1 - 1)
           in if crc12 checked \<noteq> crc then Inl MalformedLicenseKey
              else Inr \<lparr>lk_product_short = word_of_nat (drop_bit 80 checked AND 0xff),
                        lk_random = map (\<lambda>i. word_of_nat (drop_bit (72 - 8 * i) checked AND 0xff)) [0..<10]\<rparr>))"

definition lk_parse :: "string \<Rightarrow> (ProtoError, LicenseKey) result" where
  "lk_parse input = bind_ok (key_body (presented_chars input)) decode_body"

section \<open>Characters\<close>

lemma position_Some: "position p xs = Some i \<Longrightarrow> i < length xs \<and> p (xs ! i)"
  by (induction xs arbitrary: i) (auto split: if_splits)

lemma position_nth: "distinct xs \<Longrightarrow> i < length xs \<Longrightarrow> position (\<lambda>a. a = xs ! i) xs = Some i"
  by (induction xs arbitrary: i) (auto simp: nth_Cons split: nat.splits)

lemma alphabet: "distinct ALPHABET" "length ALPHABET = 32"
  "list_all (\<lambda>c. confusable c = c \<and> to_uppercase c = c \<and> is_ascii_alphanumeric c) ALPHABET"
  by code_simp+

lemma alphabet_char:
  assumes "d < 32"
  shows "confusable (ALPHABET ! d) = ALPHABET ! d" "to_uppercase (ALPHABET ! d) = ALPHABET ! d"
    "is_ascii_alphanumeric (ALPHABET ! d)" "decode_char (ALPHABET ! d) = Inr d"
  using alphabet(3) assms position_nth [OF alphabet(1), of d]
  by (auto simp: list_all_length alphabet(2) decode_char_def)

lemma decode_char_iff: "decode_char c = Inr d \<longleftrightarrow> d < 32 \<and> confusable c = ALPHABET ! d"
proof
  assume "decode_char c = Inr d"
  then have "position (\<lambda>a. a = confusable c) ALPHABET = Some d" by (simp add: decode_char_def)
  from position_Some [OF this] show "d < 32 \<and> confusable c = ALPHABET ! d" by (simp add: alphabet(2))
next
  assume "d < 32 \<and> confusable c = ALPHABET ! d"
  then show "decode_char c = Inr d"
    using position_nth [OF alphabet(1), of d] by (simp add: decode_char_def alphabet(2))
qed

lemma decode_char_error: "decode_char c = Inl e \<Longrightarrow> e = MalformedLicenseKey"
  by (simp add: decode_char_def ok_or_def split: option.splits)

section \<open>The loop over the characters computes the value of their digits\<close>

definition char_digits :: "string \<Rightarrow> (ProtoError, nat list) result" where
  "char_digits body = try_map decode_char body"

lemma char_digits_bound: "char_digits body = Inr ds \<Longrightarrow> (\<forall>d \<in> set ds. d < 32) \<and> length ds = length body"
proof (induction body arbitrary: ds)
  case (Cons c body)
  then show ?case
    by (auto simp: char_digits_def decode_char_iff split: sum.splits)
qed (simp add: char_digits_def)

lemma decode_loop:
  "try_fold (\<lambda>bits c. bind_ok (decode_char c) (\<lambda>d. Inr (push_bit 5 bits OR d))) v body
   = bind_ok (char_digits body) (\<lambda>ds. Inr (foldl (\<lambda>a d. a * 32 + d) v ds))"
proof (induction body arbitrary: v)
  case (Cons c body)
  show ?case
  proof (cases "decode_char c")
    case (Inr d)
    then have "d < 2 ^ 5" by (simp add: decode_char_iff)
    then have "push_bit 5 v OR d = v * 32 + d" using shift_or [of d 5 v] by simp
    with Inr Cons [of "v * 32 + d"] show ?thesis
      by (cases "char_digits body") (simp_all add: char_digits_def)
  qed (simp add: char_digits_def)
qed (simp add: char_digits_def)

lemma decode_value:
  "try_fold (\<lambda>bits c. bind_ok (decode_char c) (\<lambda>d. Inr (push_bit 5 bits OR d))) 0 body
   = bind_ok (char_digits body) (\<lambda>ds. Inr (horner 32 ds))"
  by (simp only: decode_loop horner_def)

section \<open>The checksum as a shift register\<close>

definition lfsr :: "nat \<Rightarrow> bool \<Rightarrow> nat" where
  "lfsr c b = take_bit 12 (push_bit 1 c) XOR (if bit c 11 \<noteq> b then 0xF13 else 0)"

definition bits_msb :: "nat \<Rightarrow> nat \<Rightarrow> bool list" where
  "bits_msb n v = map (bit v) (rev [0..<n])"

lemma bit_and_one: "drop_bit i (v::nat) AND 1 = of_bool (bit v i)"
  by (simp add: and_low_bits(1) shift_right bit_iff_odd mod2_eq_if)

lemma crc12_step_lfsr: "crc12_step v c i = lfsr c (bit v i)"
proof -
  have poly: "CRC12_POLY AND 0x0fff = 0xF13" by (simp add: CRC12_POLY_def and_low_bits(4))
  have mask: "push_bit 1 c AND 0x0fff = take_bit 12 (push_bit 1 c)"
    by (simp add: and_low_bits(4) take_bit_eq_mod)
  have top: "CRC_BITS - 1 = 11" by (simp add: CRC_BITS_def)
  show ?thesis unfolding crc12_step_def Let_def poly mask bit_and_one top lfsr_def
    by (cases "bit c 11"; cases "bit v i") simp_all
qed

lemma lfsr_bound: "lfsr c b < 4096"
proof -
  have "take_bit 12 (lfsr c b) = lfsr c b"
    by (simp add: lfsr_def take_bit_xor)
  then show ?thesis using take_bit_nat_less_exp [of 12 "lfsr c b"] by simp
qed

lemma lfsr_run_bound: "c < 4096 \<Longrightarrow> foldl lfsr c bs < 4096"
  by (induction bs arbitrary: c) (simp_all add: lfsr_bound)

lemma crc12_lfsr: "crc12 v = foldl lfsr 0 (bits_msb 88 v)"
proof -
  have "foldl (crc12_step v) c is = foldl lfsr c (map (bit v) is)" for c "is"
    by (induction "is" arbitrary: c) (simp_all add: crc12_step_lfsr)
  then have "crc12 v = foldl lfsr 0 (bits_msb 88 v) AND 0x0fff"
    by (simp add: crc12_def bits_msb_def CHECKED_BITS_def)
  also have "\<dots> = foldl lfsr 0 (bits_msb 88 v)"
    using lfsr_run_bound [of 0 "bits_msb 88 v"] by (simp add: and_low_bits(4))
  finally show ?thesis .
qed

lemma crc12_bound: "crc12 v < 4096"
  using lfsr_run_bound [of 0] by (simp add: crc12_lfsr)

subsection \<open>The register is linear and loses nothing\<close>

lemma bit_lfsr:
  "bit (lfsr c b) n \<longleftrightarrow> (0 < n \<and> n < 12 \<and> bit c (n - 1)) \<noteq> ((bit c 11 \<noteq> b) \<and> bit (0xF13 :: nat) n)"
proof -
  have dbl: "bit (push_bit 1 c) n \<longleftrightarrow> 0 < n \<and> bit c (n - 1)"
    by (auto simp only: bit_push_bit_iff_nat)
  show ?thesis unfolding lfsr_def bit_xor_iff bit_take_bit_iff dbl by auto
qed

lemma lfsr_linear: "lfsr (c XOR d) (b = (\<not> e)) = lfsr c b XOR lfsr d e"
  by (rule bit_eqI) (auto simp: bit_lfsr bit_xor_iff)

lemma run_linear:
  "length bs = length es \<Longrightarrow>
   foldl lfsr (c XOR d) (map2 (\<noteq>) bs es) = foldl lfsr c bs XOR foldl lfsr d es"
  by (induction bs es arbitrary: c d rule: list_induct2) (simp_all add: lfsr_linear)

lemma lfsr_same_top: "lfsr r (bit r 11) = take_bit 12 (push_bit 1 r)"
  by (simp add: lfsr_def)

lemma lfsr_low_bit: "bit (lfsr r b) 0 \<longleftrightarrow> bit r 11 \<noteq> b"
  by (simp add: bit_lfsr)

lemma zero_by_bits: "c < 4096 \<Longrightarrow> (\<And>j. j < 12 \<Longrightarrow> \<not> bit c j) \<Longrightarrow> c = (0::nat)"
proof -
  assume "c < 4096" and low: "\<And>j. j < 12 \<Longrightarrow> \<not> bit c j"
  then have "take_bit 12 c = c" by (simp add: take_bit_nat_eq_self)
  then have "bit c j \<longleftrightarrow> j < 12 \<and> bit c j" for j by (metis bit_take_bit_iff)
  with low show "c = 0" by (intro bit_eqI) auto
qed

lemma run_settles:
  assumes "foldl lfsr r w = 0" "length w \<le> 12" "r < 4096"
  shows "(\<forall>i < length w. w ! i = bit r (11 - i)) \<and> (\<forall>j < 12 - length w. \<not> bit r j)"
  using assms
proof (induction w arbitrary: r)
  case (Cons b w)
  let ?r = "lfsr r b"
  from Cons.IH [of ?r] Cons.prems have
    hd: "\<forall>i < length w. w ! i = bit ?r (11 - i)" and tl: "\<forall>j < 12 - length w. \<not> bit ?r j"
    by (simp_all add: lfsr_bound)
  from tl Cons.prems(2) have "\<not> bit ?r 0" by simp
  then have top: "bit r 11 = b" by (simp add: lfsr_low_bit)
  have shift: "bit ?r n \<longleftrightarrow> 0 < n \<and> n < 12 \<and> bit r (n - 1)" for n by (auto simp: bit_lfsr top)
  have "(b # w) ! i = bit r (11 - i)" if "i < length (b # w)" for i
  proof (cases i)
    case (Suc j)
    with that Cons.prems(2) hd shift [of "11 - j"] show ?thesis by auto
  qed (simp add: top)
  moreover have "\<not> bit r j" if "j < 12 - length (b # w)" for j
    using tl that shift [of "Suc j"] by auto
  ultimately show ?case by blast
qed simp

lemma run_drains:
  assumes "r < 4096"
  shows "foldl lfsr r (bits_msb 12 r) = 0"
proof -
  have "foldl lfsr q (map (\<lambda>i. bit q (11 - i)) [0..<k]) = 0"
    if "k \<le> 12" "\<forall>j < 12 - k. \<not> bit q j" "q < 4096" for k q
    using that
  proof (induction k arbitrary: q)
    case 0
    then have "q = 0" by (intro zero_by_bits) auto
    then show ?case by simp
  next
    case (Suc k)
    let ?q = "lfsr q (bit q 11)"
    have shift: "bit ?q n \<longleftrightarrow> 0 < n \<and> n < 12 \<and> bit q (n - 1)" for n by (auto simp: bit_lfsr)
    have "map (\<lambda>i. bit q (11 - i)) [0..<Suc k] = bit q 11 # map (\<lambda>i. bit ?q (11 - i)) [0..<k]"
      using Suc.prems(1) by (auto simp: upt_conv_Cons map_Suc_upt [symmetric] o_def shift simp del: upt_Suc)
    moreover have "foldl lfsr ?q (map (\<lambda>i. bit ?q (11 - i)) [0..<k]) = 0"
      using Suc.prems by (intro Suc.IH) (auto simp: shift lfsr_bound)
    ultimately show ?case by simp
  qed
  from this [of 12 r] assms have "foldl lfsr r (map (\<lambda>i. bit r (11 - i)) [0..<12]) = 0" by simp
  moreover have "map (\<lambda>i. bit r (11 - i)) [0..<12] = bits_msb 12 r"
    by (simp add: bits_msb_def rev_map upt_rec numeral_eq_Suc)
  ultimately show ?thesis by simp
qed

lemma run_zeros: "foldl lfsr 0 (replicate n False) = 0"
  by (induction n) (simp_all add: lfsr_def)

lemma run_zeros_inj: "foldl lfsr c (replicate n False) = 0 \<Longrightarrow> c < 4096 \<Longrightarrow> c = 0"
proof (induction n arbitrary: c)
  case (Suc n)
  then have "lfsr c False = 0" by (simp add: lfsr_bound)
  with run_settles [of c "[False]"] Suc.prems(2) have "\<not> bit c 11" "\<forall>j < 11. \<not> bit c j" by auto
  then have "\<not> bit c j" if "j < 12" for j using that by (cases "j = 11") auto
  with Suc.prems(2) show ?case by (rule zero_by_bits)
qed simp

text \<open>A burst of at most twelve bits never cancels.\<close>

lemma burst_detected:
  assumes "foldl lfsr 0 (replicate a False @ w @ replicate z False) = 0" "length w \<le> 12"
  shows "\<forall>b \<in> set w. \<not> b"
proof -
  have "foldl lfsr 0 w = 0"
    using assms(1) run_zeros_inj [of "foldl lfsr 0 w" z] lfsr_run_bound [of 0 w] by (simp add: run_zeros)
  from run_settles [OF this assms(2)] show ?thesis by (auto simp: in_set_conv_nth)
qed

section \<open>Codewords\<close>

lemma bits_msb_append:
  assumes "d < 2 ^ m"
  shows "bits_msb (n + m) (v * 2 ^ m + d) = bits_msb n v @ bits_msb m d"
proof -
  have low: "\<not> bit d k" if "\<not> k < m" for k
    using assms that by (metis bit_take_bit_iff take_bit_nat_eq_self)
  have b: "bit (v * 2 ^ m + d) k \<longleftrightarrow> (if k < m then bit d k else bit v (k - m))" for k
    using low by (simp flip: shift_or [OF assms] add: bit_or_iff bit_push_bit_iff_nat)
  have "[0..<n + m] = [0..<m] @ map (\<lambda>i. i + m) [0..<n]"
    by (simp add: map_add_upt upt_add_eq_append [of 0 m n, simplified] add.commute)
  then show ?thesis by (simp add: bits_msb_def b rev_map o_def)
qed

lemma bits_msb_digits:
  "\<forall>d \<in> set ds. d < 32 \<Longrightarrow> bits_msb (5 * length ds) (horner 32 ds) = concat (map (bits_msb 5) ds)"
proof (induction ds rule: rev_induct)
  case (snoc d ds)
  then have "d < 2 ^ 5" by simp
  from bits_msb_append [OF this, of "5 * length ds" "horner 32 ds"] snoc show ?case by (simp add: add.commute)
qed (simp add: bits_msb_def)

lemma bits_msb_inject: "d < 32 \<Longrightarrow> e < 32 \<Longrightarrow> bits_msb 5 d = bits_msb 5 e \<Longrightarrow> d = e"
proof -
  assume d: "d < 32" "e < 32" and eq: "bits_msb 5 d = bits_msb 5 e"
  then have "\<forall>i < 5. bit d i = bit e i" by (auto simp: bits_msb_def)
  moreover have "bit x i \<longleftrightarrow> i < 5 \<and> bit x i" if "x < 32" for x i :: nat
  proof -
    have "take_bit 5 x = x" using that by (simp add: take_bit_nat_eq_self)
    then show ?thesis by (metis bit_take_bit_iff)
  qed
  ultimately show "d = e" using d by (intro bit_eqI) blast
qed

definition codeword :: "nat \<Rightarrow> bool" where
  "codeword n \<longleftrightarrow> n < 2 ^ 100 \<and> crc12 (n div 4096) = n mod 4096"

lemma codeword_run: "codeword n \<Longrightarrow> foldl lfsr 0 (bits_msb 100 n) = 0"
proof -
  assume n: "codeword n"
  have "bits_msb (88 + 12) (n div 4096 * 2 ^ 12 + n mod 4096) = bits_msb 88 (n div 4096) @ bits_msb 12 (n mod 4096)"
    by (rule bits_msb_append) simp
  then have "bits_msb 100 n = bits_msb 88 (n div 4096) @ bits_msb 12 (n mod 4096)" by simp
  with n run_drains [of "n mod 4096"] show ?thesis by (simp add: codeword_def flip: crc12_lfsr)
qed

text \<open>Two codewords that agree outside two adjacent digits are equal.\<close>

lemma map2_neq_same: "map2 (\<noteq>) bs bs = replicate (length bs) False"
  by (induction bs) simp_all

lemma map2_neq_none: "length bs = length es \<Longrightarrow> \<forall>b \<in> set (map2 (\<noteq>) bs es). \<not> b \<Longrightarrow> bs = es"
  by (induction bs es rule: list_induct2) auto

lemma concat_bits_inject:
  assumes "length xs = length ys" "\<forall>x \<in> set xs. x < 32" "\<forall>y \<in> set ys. y < 32"
    and "concat (map (bits_msb 5) xs) = concat (map (bits_msb 5) ys)"
  shows "xs = ys"
  using assms
proof (induction xs ys rule: list_induct2)
  case (Cons x xs y ys)
  have "length (bits_msb 5 x) = length (bits_msb 5 y)" by (simp add: bits_msb_def)
  moreover have "bits_msb 5 x @ concat (map (bits_msb 5) xs) = bits_msb 5 y @ concat (map (bits_msb 5) ys)"
    using Cons.prems(3) by simp
  ultimately have "bits_msb 5 x = bits_msb 5 y" "concat (map (bits_msb 5) xs) = concat (map (bits_msb 5) ys)"
    by auto
  then show ?case using Cons.prems(1,2) bits_msb_inject Cons.IH by simp
qed simp

lemma adjacent_digits_equal:
  assumes len: "length ds = 20" "length es = 20" and lt: "\<forall>d \<in> set ds. d < 32" "\<forall>d \<in> set es. d < 32"
    and cw: "codeword (horner 32 ds)" "codeword (horner 32 es)"
    and eq: "take i ds = take i es" "drop (i + 2) ds = drop (i + 2) es"
  shows "ds = es"
proof -
  let ?bits = "\<lambda>xs. concat (map (bits_msb 5) xs)"
  let ?m = "\<lambda>xs. take 2 (drop i xs)"
  have bits: "?bits ds = bits_msb 100 (horner 32 ds)" "?bits es = bits_msb 100 (horner 32 es)"
    using bits_msb_digits [OF lt(1)] bits_msb_digits [OF lt(2)] len by simp_all
  have len5: "length (?bits xs) = 5 * length xs" for xs by (induction xs) (simp_all add: bits_msb_def)
  have split: "xs = take i xs @ ?m xs @ drop (i + 2) xs" for xs :: "nat list"
    by (metis append_take_drop_id drop_drop add.commute)
  have lm: "length (?m ds) = length (?m es)" using len by simp
  have "?bits ds = ?bits (take i ds) @ ?bits (?m ds) @ ?bits (drop (i + 2) ds)"
    by (subst split) (simp only: map_append concat_append)
  moreover have "?bits es = ?bits (take i ds) @ ?bits (?m es) @ ?bits (drop (i + 2) ds)"
    by (subst split) (simp only: map_append concat_append eq)
  ultimately have "map2 (\<noteq>) (?bits ds) (?bits es) =
      replicate (length (?bits (take i ds))) False @ map2 (\<noteq>) (?bits (?m ds)) (?bits (?m es)) @
      replicate (length (?bits (drop (i + 2) ds))) False"
    using lm by (simp only: zip_append map_append len5 map2_neq_same)
  moreover have "foldl lfsr 0 (map2 (\<noteq>) (?bits ds) (?bits es)) = 0"
    using run_linear [of "?bits ds" "?bits es" 0 0] codeword_run [OF cw(1)] codeword_run [OF cw(2)] bits
    by (simp add: bits_msb_def)
  ultimately have "\<forall>b \<in> set (map2 (\<noteq>) (?bits (?m ds)) (?bits (?m es))). \<not> b"
    by (intro burst_detected) (simp_all add: len5)
  then have "?bits (?m ds) = ?bits (?m es)"
    by (rule map2_neq_none [rotated]) (simp only: len5 lm)
  moreover have "\<forall>x \<in> set (?m ds). x < 32" "\<forall>x \<in> set (?m es). x < 32"
    using lt by (meson in_set_dropD in_set_takeD)+
  ultimately have "?m ds = ?m es" using lm concat_bits_inject by blast
  with eq split show ?thesis by metis
qed

section \<open>What is printed and what is accepted\<close>

definition key_value :: "LicenseKey \<Rightarrow> nat" where
  "key_value k = horner 256 (map unat (lk_to_bytes k))"

definition key_of_value :: "nat \<Rightarrow> LicenseKey" where
  "key_of_value c =
     \<lparr>lk_product_short = word_of_nat (drop_bit 80 c AND 0xff),
      lk_random = map (\<lambda>i. word_of_nat (drop_bit (72 - 8 * i) c AND 0xff)) [0..<10]\<rparr>"

definition key_chars :: "LicenseKey \<Rightarrow> string" where
  "key_chars k = map (\<lambda>d. ALPHABET ! d) (digits 32 20 (payload_bits k))"

lemma unat_byte_lt: "unat (b :: u8) < 256"
  using unsigned_less [of b, where ?'a = nat] by simp

lemma key_value_bound:
  assumes "length (lk_random k) = 10"
  shows "key_value k < 256 ^ 11"
  using horner_bound [of "map unat (lk_to_bytes k)" 256] assms
  by (simp add: key_value_def lk_to_bytes_def unat_byte_lt)

lemma payload_bits_value: "payload_bits k = key_value k * 4096 + crc12 (key_value k)"
proof -
  have loop: "foldl (\<lambda>v b. push_bit 8 v OR unat b) v bs = foldl (\<lambda>a d. a * 256 + d) v (map unat bs)"
    for v and bs :: bytes
  proof (induction bs arbitrary: v)
    case (Cons b bs)
    have "push_bit 8 v OR unat b = v * 256 + unat b"
      using shift_or [of "unat b" 8 v] unat_byte_lt [of b] by simp
    with Cons show ?case by simp
  qed simp
  have "foldl (\<lambda>v b. push_bit 8 v OR unat b) (unat (lk_product_short k)) (lk_random k) = key_value k"
    by (simp add: loop key_value_def lk_to_bytes_def horner_def)
  with shift_or [of "crc12 (key_value k)" 12 "key_value k"] crc12_bound [of "key_value k"] show ?thesis
    by (simp add: payload_bits_def CRC_BITS_def Let_def)
qed

lemma payload_bits_bound:
  assumes "length (lk_random k) = 10"
  shows "payload_bits k < 2 ^ 100"
  using key_value_bound [OF assms] crc12_bound [of "key_value k"] by (simp add: payload_bits_value)

lemma key_bytes_of_value: "map unat (lk_to_bytes (key_of_value c)) = digits 256 11 c"
proof -
  have byte: "unat (word_of_nat (n AND 0xff) :: u8) = n mod 256" for n
    by (simp add: and_low_bits(3) unat_of_nat)
  have "(256::nat) ^ (10 - i) = 2 ^ (80 - 8 * i)" for i
  proof -
    have "80 - 8 * i = 8 * (10 - i)" by simp
    then show ?thesis by (simp only: power_mult) simp
  qed
  then have "digits 256 11 c = map (\<lambda>i. c div 2 ^ (80 - 8 * i) mod 256) [0..<11]"
    by (simp add: digits_def)
  also have "\<dots> = c div 2 ^ 80 mod 256 # map (\<lambda>i. c div 2 ^ (72 - 8 * i) mod 256) [0..<10]"
  proof -
    have "[0..<11] = 0 # map Suc [0..<10]" by (simp only: map_Suc_upt) (simp add: upt_conv_Cons)
    then show ?thesis by (simp only: list.map map_map o_def) simp
  qed
  finally show ?thesis
    by (simp add: lk_to_bytes_def key_of_value_def byte o_def shift_right del: upt_Suc)
qed

lemma key_of_value_inverse:
  assumes "length (lk_random k) = 10"
  shows "key_of_value (key_value k) = k"
proof -
  have "map unat (lk_to_bytes (key_of_value (key_value k))) = map unat (lk_to_bytes k)"
    using digits_horner [of "map unat (lk_to_bytes k)" 256] assms
    by (simp add: key_bytes_of_value key_value_def unat_byte_lt) (simp add: lk_to_bytes_def)
  then have "lk_to_bytes (key_of_value (key_value k)) = lk_to_bytes k"
    by (rule map_injective) (simp add: inj_on_def unsigned_word_eqI)
  then show ?thesis by (simp add: lk_to_bytes_def)
qed

lemma value_of_key: "c < 256 ^ 11 \<Longrightarrow> key_value (key_of_value c) = c"
  by (simp add: key_value_def key_bytes_of_value horner_digits)

lemma key_char_digit:
  assumes "i < 20"
  shows "key_char n i = ALPHABET ! (digits 32 20 n ! i)"
proof -
  have "KEY_BITS - 5 * (i + 1) = 5 * (20 - 1 - i)" using assms by (simp add: KEY_BITS_def)
  then show ?thesis using assms
    by (simp add: key_char_def digits_def and_low_bits(2) shift_right power_mult)
qed

lemma digits_lt_32: "d \<in> set (digits 32 20 n) \<Longrightarrow> d < 32"
  by (rule digits_bound) simp_all

lemma presented_key: "presented_chars (to_string_grouped k) = ''CL1'' @ key_chars k"
proof -
  let ?n = "payload_bits k"
  have sep: "is_ascii_alphanumeric c \<and> to_uppercase c = c" if "c = key_char ?n i" "i < 20" for c i
    using that alphabet_char [OF digits_lt_32 [OF nth_mem, of i ?n]] by (simp add: key_char_digit)
  have "\<not> is_ascii_alphanumeric (CHR ''-'')" by (simp add: is_ascii_alphanumeric_def)
  then have "map to_uppercase (filter is_ascii_alphanumeric
        (concat (map (\<lambda>i. (if i mod 5 = 0 then ''-'' else []) @ [key_char ?n i]) js)))
      = map (key_char ?n) js" if "\<forall>j \<in> set js. j < 20" for js
    using that sep by (induction js) auto
  from this [of "[0..<20]"] have body: "map to_uppercase (filter is_ascii_alphanumeric
        (concat (map (\<lambda>i. (if i mod 5 = 0 then ''-'' else []) @ [key_char ?n i]) [0..<20])))
      = map (key_char ?n) [0..<20]" by simp
  have chars: "map (key_char ?n) [0..<20] = key_chars k"
    by (rule nth_equalityI) (simp_all add: key_chars_def key_char_digit del: upt_Suc)
  have "list_all (\<lambda>c. is_ascii_alphanumeric c \<and> to_uppercase c = c) ''CL1''" by code_simp
  moreover have "char_of (48 + PROTO_VER) = CHR ''1''" by code_simp
  ultimately show ?thesis using body chars
    by (simp add: presented_chars_def to_string_grouped_def KEY_CHARS_def Let_def del: upt_Suc)
qed

lemma key_body_prefixed: "key_body (CHR ''C'' # CHR ''L'' # CHR ''1'' # rest) = Inr rest"
  by (simp add: key_body_def confusable_def PROTO_VER_def)

lemma char_digits_iff:
  "char_digits b = Inr ds \<longleftrightarrow> (\<forall>d \<in> set ds. d < 32) \<and> map confusable b = map (\<lambda>d. ALPHABET ! d) ds"
proof (induction b arbitrary: ds)
  case (Cons c b)
  show ?case
  proof
    assume "char_digits (c # b) = Inr ds"
    then obtain e es where "decode_char c = Inr e" "char_digits b = Inr es" "ds = e # es"
      by (auto simp: char_digits_def split: sum.splits)
    with Cons [of es] show "(\<forall>d \<in> set ds. d < 32) \<and> map confusable (c # b) = map (\<lambda>d. ALPHABET ! d) ds"
      by (simp add: decode_char_iff)
  next
    assume r: "(\<forall>d \<in> set ds. d < 32) \<and> map confusable (c # b) = map (\<lambda>d. ALPHABET ! d) ds"
    then obtain e es where ds: "ds = e # es" by (cases ds) auto
    with r have "decode_char c = Inr e" by (simp add: decode_char_iff)
    with ds r Cons [of es] show "char_digits (c # b) = Inr ds" by (simp add: char_digits_def)
  qed
qed (auto simp: char_digits_def)

lemma decode_body_iff:
  "decode_body b = Inr k \<longleftrightarrow> length (lk_random k) = 10 \<and> map confusable b = key_chars k"
proof
  assume acc: "decode_body b = Inr k"
  then obtain ds where len: "length b = 20" and ds: "char_digits b = Inr ds"
    and crc: "crc12 (horner 32 ds div 4096) = horner 32 ds mod 4096"
    and k: "k = key_of_value (horner 32 ds div 4096)"
    by (auto simp: decode_body_def KEY_CHARS_def decode_value bind_ok_Inr_iff Let_def CRC_BITS_def shift_right
        and_low_bits(4) key_of_value_def split: if_splits)
  from char_digits_bound [OF ds] len have lt: "\<forall>d \<in> set ds. d < 32" "length ds = 20" by auto
  from horner_bound [OF lt(1)] lt(2) have "horner 32 ds < 32 ^ 20" by simp
  then have "horner 32 ds div 4096 < 256 ^ 11" by (simp add: less_mult_imp_div_less)
  then have "payload_bits k = horner 32 ds" by (simp add: payload_bits_value k value_of_key crc)
  with digits_horner [OF lt(1)] lt(2) have "digits 32 20 (payload_bits k) = ds" by simp
  with ds show "length (lk_random k) = 10 \<and> map confusable b = key_chars k"
    by (simp add: key_chars_def char_digits_iff k key_of_value_def)
next
  assume r: "length (lk_random k) = 10 \<and> map confusable b = key_chars k"
  let ?n = "payload_bits k"
  from r have "char_digits b = Inr (digits 32 20 ?n)"
    by (simp add: char_digits_iff key_chars_def digits_lt_32)
  moreover have "horner 32 (digits 32 20 ?n) = ?n"
    using payload_bits_bound [of k] r by (intro horner_digits) simp_all
  moreover have "?n div 4096 = key_value k" "?n mod 4096 = crc12 (key_value k)"
    using crc12_bound [of "key_value k"] by (simp_all add: payload_bits_value)
  moreover have "length b = 20" using r by (metis key_chars_def length_digits length_map)
  ultimately show "decode_body b = Inr k"
    using key_of_value_inverse [of k] r
    by (simp add: decode_body_def KEY_CHARS_def decode_value Let_def CRC_BITS_def shift_right and_low_bits(4)
        key_of_value_def)
qed

lemma key_chars_plain: "map confusable (key_chars k) = key_chars k"
  by (simp add: key_chars_def alphabet_char(1) digits_lt_32)

interpretation license_key_text: codec to_string_grouped "\<lambda>s. result_ok (lk_parse s)" "\<lambda>k. length (lk_random k) = 10"
  by unfold_locales
    (simp add: lk_parse_def presented_key key_body_prefixed decode_body_iff key_chars_plain)

section \<open>Properties\<close>


text \<open>
  C40. Typing errors are caught: two accepted key bodies that agree except on two adjacent
  characters denote the same key.  So no mistyped character, no swap of neighbours and no
  pair of adjacent errors turns a valid key into another valid one.
\<close>

theorem license_key_typos_detected:
  assumes "decode_body b = Inr k" "decode_body b' = Inr k'"
    and "take i b = take i b'" "drop (i + 2) b = drop (i + 2) b'"
  shows "k = k'"
proof -
  have len: "length (lk_random k) = 10" "length (lk_random k') = 10"
    and chars: "map confusable b = key_chars k" "map confusable b' = key_chars k'"
    using assms(1,2) by (simp_all add: decode_body_iff)
  have cw: "codeword (horner 32 (digits 32 20 (payload_bits q)))" if "length (lk_random q) = 10" for q
    using payload_bits_bound [OF that] crc12_bound [of "key_value q"]
    by (simp add: horner_digits codeword_def) (simp add: payload_bits_value)
  have inj: "xs = ys" if "map (\<lambda>d. ALPHABET ! d) xs = map (\<lambda>d. ALPHABET ! d) ys"
    "\<forall>d \<in> set xs. d < 32" "\<forall>d \<in> set ys. d < 32" for xs ys
  proof (rule map_inj_on [OF that(1)])
    show "inj_on (\<lambda>d. ALPHABET ! d) (set xs \<union> set ys)"
      using that(2,3) alphabet(1,2) by (auto simp: inj_on_def nth_eq_iff_index_eq)
  qed
  have "take i (key_chars k) = take i (key_chars k')" "drop (i + 2) (key_chars k) = drop (i + 2) (key_chars k')"
    using assms(3,4) chars by (metis take_map, metis drop_map)
  then have m: "map (\<lambda>d. ALPHABET ! d) (take i (digits 32 20 (payload_bits k))) =
      map (\<lambda>d. ALPHABET ! d) (take i (digits 32 20 (payload_bits k')))"
    "map (\<lambda>d. ALPHABET ! d) (drop (i + 2) (digits 32 20 (payload_bits k))) =
      map (\<lambda>d. ALPHABET ! d) (drop (i + 2) (digits 32 20 (payload_bits k')))"
    by (simp_all only: key_chars_def take_map drop_map)
  have lt: "\<forall>d \<in> set (digits 32 20 n). d < 32" for n using digits_lt_32 by blast
  from m(1) have t: "take i (digits 32 20 (payload_bits k)) = take i (digits 32 20 (payload_bits k'))"
    by (rule inj) (meson in_set_takeD digits_lt_32)+
  from m(2) have d: "drop (i + 2) (digits 32 20 (payload_bits k)) = drop (i + 2) (digits 32 20 (payload_bits k'))"
    by (rule inj) (meson in_set_dropD digits_lt_32)+
  from adjacent_digits_equal [OF length_digits length_digits lt lt cw [OF len(1)] cw [OF len(2)] t d]
  have "key_chars k = key_chars k'" by (simp add: key_chars_def)
  then show ?thesis using len assms(1) chars by (metis decode_body_iff sum.inject(2))
qed

definition demo_key :: LicenseKey where
  "demo_key = \<lparr>lk_product_short = 7, lk_random = [0, 1, 2, 3, 4, 5, 6, 7, 8, 9]\<rparr>"

theorem license_key_typos_detected_witness:
  "\<exists>k. decode_body (key_chars demo_key) = Inr k \<and> k = demo_key"
proof -
  have "decode_body (key_chars demo_key) = Inr demo_key"
    by (simp add: decode_body_iff demo_key_def) (simp add: key_chars_def alphabet_char(1) digits_lt_32)
  with license_key_typos_detected [OF this this, of 0] show ?thesis by blast
qed

end
