(* ===== verification/Entitlement_Wire.thy ===== *)
theory Entitlement_Wire
  imports Wire_Fields
begin

text \<open>
  The wire form of resolved entitlements (\<open>copylocker-proto/src/entitlements.rs\<close>): features,
  limits, version scope and subscription hint, with the decoders and their errors.
\<close>

section \<open>Version scope\<close>

fun encode_version_scope :: "VersionScope \<Rightarrow> CborValue" where
  "encode_version_scope Unlimited = build (put 0 (Uint 0) [])"
| "encode_version_scope (SemverRange r) = build (put 1 (CText r) [])"
| "encode_version_scope (ReleasedBefore t) = build (put 2 (cbor_int t) [])"
| "encode_version_scope (Pinned ids) = build (put 3 (Array (map CText ids)) [])"

definition decode_version_scope :: "CborValue \<Rightarrow> (ProtoError, VersionScope) result" where
  "decode_version_scope v =
     bind_ok (ok_or (as_map v) (Codec Malformed)) (\<lambda>entries.
       if length entries \<noteq> 1 then Inl (Codec Malformed)
       else if field_opt v 0 \<noteq> None then Inr Unlimited
       else if field_opt v 1 \<noteq> None then bind_ok (field_text v 1) (\<lambda>r. Inr (SemverRange r))
       else if field_opt v 2 \<noteq> None then bind_ok (field_int v 2) (\<lambda>t. Inr (ReleasedBefore t))
       else if field_opt v 3 \<noteq> None then bind_ok (field_text_array v 3) (\<lambda>ids. Inr (Pinned ids))
       else Inl (Codec UnknownDiscriminant))"

section \<open>Subscription hint\<close>

definition encode_hint :: "SubscriptionHint \<Rightarrow> CborValue" where
  "encode_hint h = put_all
     [(0, Some (Uint (hint_state_u8 (hint_state h)))),
      (1, Some (cbor_int (hint_current_period_end h))),
      (2, map_option Uint (hint_fallback_progress_months h)),
      (3, map_option Uint (hint_fallback_required_months h))]"

definition decode_hint :: "CborValue \<Rightarrow> (ProtoError, SubscriptionHint) result" where
  "decode_hint v =
     bind_ok (field_u8 v 0) (\<lambda>state_raw.
     bind_ok (ok_or (hint_state_from_u8 state_raw) (Codec UnknownDiscriminant)) (\<lambda>state.
     bind_ok (field_int v 1) (\<lambda>period_end.
     bind_ok (field_opt_narrow u32_max v 2) (\<lambda>progress.
     bind_ok (field_opt_narrow u32_max v 3) (\<lambda>required.
     Inr \<lparr>hint_state = state, hint_current_period_end = period_end,
          hint_fallback_progress_months = progress, hint_fallback_required_months = required\<rparr>)))))"

section \<open>Entitlements\<close>

definition ent_encode :: "Entitlements \<Rightarrow> CborValue" where
  "ent_encode e = put_all
     [(0, Some (Array (map CText (ent_features e)))),
      (1, Some (Map (map (\<lambda>(k, v). (CText k, cbor_int v)) (ent_limits e)))),
      (2, Some (CText (ent_tier_id e))),
      (3, Some (CText (ent_tier_label e))),
      (4, Some (Uint (ent_catalog_version e))),
      (5, map_option encode_version_scope (ent_version_scope e)),
      (6, map_option encode_hint (ent_subscription_hint e))]"

definition limit_step ::
  "(string, LimitValue) bmap \<Rightarrow> CborValue \<times> CborValue \<Rightarrow> (ProtoError, (string, LimitValue) bmap) result"
where
  "limit_step limits kv =
     bind_ok (ok_or (as_str (fst kv)) (Codec (TypeMismatch 1))) (\<lambda>key.
     bind_ok (ok_or (as_int (snd kv)) (Codec (TypeMismatch 1))) (\<lambda>n.
     Inr (bmap_insert key n limits)))"

definition ent_decode :: "CborValue \<Rightarrow> (ProtoError, Entitlements) result" where
  "ent_decode v =
     (if as_map v = None then Inl (Codec Malformed) else
     bind_ok (field_text_array v 0) (\<lambda>feature_list.
     let features = bset_of_list feature_list
     in if length features \<noteq> length feature_list then Inl (Codec NotCanonical) else
     bind_ok (field_req v 1) (\<lambda>raw.
     bind_ok (ok_or (as_map raw) (Codec (TypeMismatch 1))) (\<lambda>limits_raw.
     bind_ok (try_fold limit_step [] limits_raw) (\<lambda>limits.
     bind_ok (field_text v 2) (\<lambda>tier_id.
     bind_ok (field_text v 3) (\<lambda>tier_label.
     bind_ok (field_u32 v 4) (\<lambda>catalog_version.
     bind_ok (field_opt_decode decode_version_scope v 5) (\<lambda>version_scope.
     bind_ok (field_opt_decode decode_hint v 6) (\<lambda>hint.
     Inr \<lparr>ent_features = features, ent_limits = limits, ent_tier_id = tier_id,
          ent_tier_label = tier_label, ent_catalog_version = catalog_version,
          ent_version_scope = version_scope, ent_subscription_hint = hint\<rparr>))))))))))"

section \<open>Ranges of the types\<close>

fun scope_ok :: "VersionScope \<Rightarrow> bool" where
  "scope_ok (ReleasedBefore t) = in_i64 t"
| "scope_ok _ = True"

definition hint_ok :: "SubscriptionHint \<Rightarrow> bool" where
  "hint_ok h \<longleftrightarrow> in_i64 (hint_current_period_end h) \<and>
     pred_option (\<lambda>n. n \<le> u32_max) (hint_fallback_progress_months h) \<and>
     pred_option (\<lambda>n. n \<le> u32_max) (hint_fallback_required_months h)"

definition ent_ok :: "Entitlements \<Rightarrow> bool" where
  "ent_ok e \<longleftrightarrow> bset_wf (ent_features e) \<and> bmap_wf (ent_limits e) \<and>
     list_all (\<lambda>(k, v). in_i64 v) (ent_limits e) \<and> ent_catalog_version e \<le> u32_max \<and>
     pred_option scope_ok (ent_version_scope e) \<and> pred_option hint_ok (ent_subscription_hint e)"

section \<open>Decoding inverts encoding\<close>

lemma canon_single: "canon (Map [(Uint k, v)]) = Map [(Uint k, canon v)]"
  by (simp add: canon_Map by_key_def del: canon.simps(2))

lemma version_scope_back:
  assumes "scope_ok s"
  shows "decode_version_scope (canon (encode_version_scope s)) = Inr s"
  using assms by (cases s) (simp_all add: decode_version_scope_def field_defs field_text_array_def
      build_def put_def try_map_text canon_single del: canon.simps(2))

lemma version_scope_nodup: "nodup (encode_version_scope s)"
  by (cases s) (simp_all add: build_def put_def)

lemma version_scope_not_null: "\<not> is_null (canon (encode_version_scope s))"
  by (cases s) (simp_all add: build_def put_def canon_single del: canon.simps(2))

lemma hint_back: "hint_ok h \<Longrightarrow> decode_hint (canon (encode_hint h)) = Inr h"
proof -
  assume ok: "hint_ok h"
  note get = encode_hint_def get_canon_fields
  have u8: "hint_state_u8 (hint_state h) \<le> 255" by (cases "hint_state h") simp_all
  have "field_opt_narrow u32_max (canon (encode_hint h)) 2 = Inr (hint_fallback_progress_months h)"
    "field_opt_narrow u32_max (canon (encode_hint h)) 3 = Inr (hint_fallback_required_months h)"
    using ok by (auto intro!: opt_narrow_back simp: hint_ok_def get o_def)
  with ok u8 show ?thesis
    by (simp add: decode_hint_def field_defs hint_ok_def get hint_state_wire.dec_enc)
qed

lemma hint_nodup: "nodup (encode_hint h)"
  unfolding encode_hint_def by (rule nodup_fields) simp_all

lemma hint_not_null: "\<not> is_null (canon (encode_hint h))"
  by (simp add: encode_hint_def put_all_entries canon_Map del: canon.simps(2))

lemma limits_back:
  assumes "list_all (\<lambda>(k, v). in_i64 v) kvs"
  shows "try_fold limit_step acc (map (\<lambda>(k, v). (CText k, cbor_int v)) kvs) = Inr (bmap_copy kvs acc)"
  using assms by (induction kvs arbitrary: acc) (auto simp: limit_step_def bmap_copy_def)

lemma bset_of_sorted: "bset_wf s \<Longrightarrow> bset_of_list s = s"
  by (rule bset_canonical) (auto simp: bset_of_list_def bset.wf_fold_ins bset.elems_fold_ins)

lemma ent_back:
  assumes "ent_ok e"
  shows "ent_decode (canon (ent_encode e)) = Inr e"
proof -
  let ?v = "canon (ent_encode e)"
  note get = ent_encode_def get_canon_fields
  obtain kvs where c: "canon (Map (map (\<lambda>(k, v). (CText k, cbor_int v)) (ent_limits e))) =
      Map (map (\<lambda>(k, v). (CText k, canon (cbor_int v))) kvs)"
    and m: "bmap_copy kvs [] = ent_limits e" and kvs: "set kvs = set (ent_limits e)"
    using canon_plain_keys [of "ent_limits e" CText cbor_int, OF _ canon_CText] assms by (auto simp only: ent_ok_def)
  have "list_all (\<lambda>(k, v). in_i64 v) kvs" using assms kvs by (auto simp: ent_ok_def list_all_iff)
  then have limits: "try_fold limit_step [] (map (\<lambda>(k, v). (CText k, cbor_int v)) kvs) = Inr (ent_limits e)"
    by (simp add: limits_back m)
  have scope: "field_opt_decode decode_version_scope ?v 5 = Inr (ent_version_scope e)"
    using assms by (intro opt_decode_back [where enc = "\<lambda>s. canon (encode_version_scope s)"])
      (auto simp: get o_def ent_ok_def version_scope_back version_scope_not_null)
  have hint: "field_opt_decode decode_hint ?v 6 = Inr (ent_subscription_hint e)"
    using assms by (intro opt_decode_back [where enc = "\<lambda>h. canon (encode_hint h)"])
      (auto simp: get o_def ent_ok_def hint_back hint_not_null)
  have "as_map ?v \<noteq> None" unfolding ent_encode_def using as_map_canon_fields by fastforce
  with assms limits scope hint show ?thesis
    by (simp add: ent_decode_def ent_ok_def bset_of_sorted field_defs field_text_array_def try_map_text get c
        del: canon.simps(2))
qed

lemma ent_nodup:
  assumes "ent_ok e"
  shows "nodup (ent_encode e)"
proof -
  have "nodup (Map (map (\<lambda>(k, v). (CText k, cbor_int v)) (ent_limits e)))"
    using assms by (intro nodup_plain_keys) (simp_all add: ent_ok_def inj_CText)
  then show ?thesis unfolding ent_encode_def
    by (intro nodup_fields) (simp_all add: option.pred_set option.set_map version_scope_nodup hint_nodup del: nodup.simps(2))
qed

lemma ent_not_null: "\<not> is_null (canon (ent_encode e))"
  by (simp add: ent_encode_def put_all_entries canon_Map del: canon.simps(2))

interpretation ent_wire: wire_record ent_encode ent_decode lim ent_ok for lim
  by unfold_locales (simp_all add: ent_nodup ent_back, simp add: ent_encode_def as_map_canon_fields)

text \<open>
  The decoder refuses a repeated feature so that no two encodings mean one value, but it takes
  the features in any order: two distinct canonical messages mean the same entitlements.
\<close>

definition listed_features :: "string list \<Rightarrow> CborValue" where
  "listed_features fs = Map
     [(Uint 0, Array (map CText fs)), (Uint 1, Map []), (Uint 2, CText ''pro''),
      (Uint 3, CText ''Pro''), (Uint 4, Uint 1)]"

lemma feature_order_is_ambiguous:
  "ent_decode (listed_features [''b'', ''a'']) = ent_decode (listed_features [''a'', ''b''])"
  "ent_decode (listed_features [''a'', ''b'']) = Inr \<lparr>ent_features = [''a'', ''b''], ent_limits = [],
     ent_tier_id = ''pro'', ent_tier_label = ''Pro'', ent_catalog_version = 1,
     ent_version_scope = None, ent_subscription_hint = None\<rparr>"
  "canonical (listed_features [''b'', ''a''])"
  "to_canonical (listed_features [''b'', ''a'']) \<noteq> to_canonical (listed_features [''a'', ''b''])"
proof -
  have sets: "bset_of_list [''b'', ''a''] = [''a'', ''b'']" "bset_of_list [''a'', ''b''] = [''a'', ''b'']"
    by code_simp+
  have arr: "try_map (\<lambda>v. ok_or (as_str v) (mismatch 0)) (map CText fs) = Inr fs" for fs
    by (rule try_map_text)
  have d: "ent_decode (listed_features fs) = (if length (bset_of_list fs) \<noteq> length fs then Inl (Codec NotCanonical)
     else Inr \<lparr>ent_features = bset_of_list fs, ent_limits = [],
     ent_tier_id = ''pro'', ent_tier_label = ''Pro'', ent_catalog_version = 1,
     ent_version_scope = None, ent_subscription_hint = None\<rparr>)" for fs
    by (simp add: listed_features_def ent_decode_def field_text_array_def field_defs field_opt_decode_def arr u32_max_def Let_def)
  show "ent_decode (listed_features [''b'', ''a'']) = ent_decode (listed_features [''a'', ''b''])"
    "ent_decode (listed_features [''a'', ''b'']) = Inr \<lparr>ent_features = [''a'', ''b''], ent_limits = [],
     ent_tier_id = ''pro'', ent_tier_label = ''Pro'', ent_catalog_version = 1,
     ent_version_scope = None, ent_subscription_hint = None\<rparr>"
    unfolding d sets by simp_all
  show "canonical (listed_features [''b'', ''a''])"
    "to_canonical (listed_features [''b'', ''a'']) \<noteq> to_canonical (listed_features [''a'', ''b''])"
    by code_simp+
qed

end
