(* ===== verification/Artifacts.thy ===== *)
theory Artifacts
  imports Entitlement_Wire
begin

text \<open>
  The signed protocol artifacts (\<open>copylocker-proto/src/artifacts.rs\<close>): for each the record, its
  value with the frozen field numbers, and its decoder with the order in which the source
  reads the fields.  Every artifact is a \<open>wire_record\<close>.
\<close>

section \<open>Nested maps of wrapped keys\<close>

definition enc_preloaded :: "(u64, (string, bytes) bmap) bmap \<Rightarrow> CborValue" where
  "enc_preloaded m = Map (map (\<lambda>(vid, keks). (Uint vid, enc_text_bytes_map keks)) m)"

definition kek_step ::
  "(string, bytes) bmap \<Rightarrow> CborValue \<times> CborValue \<Rightarrow> (ProtoError, (string, bytes) bmap) result"
where
  "kek_step keks e =
     bind_ok (ok_or (as_str (fst e)) (Codec (TypeMismatch 22))) (\<lambda>name.
     bind_ok (ok_or (as_bytes (snd e)) (Codec (TypeMismatch 22))) (\<lambda>blob.
     Inr (bmap_insert name blob keks)))"

definition preloaded_step ::
  "(u64, (string, bytes) bmap) bmap \<Rightarrow> CborValue \<times> CborValue \<Rightarrow>
   (ProtoError, (u64, (string, bytes) bmap) bmap) result"
where
  "preloaded_step out e =
     bind_ok (ok_or (as_uint (fst e)) (Codec (TypeMismatch 22))) (\<lambda>vid.
     bind_ok (ok_or (as_map (snd e)) (Codec (TypeMismatch 22))) (\<lambda>inner_entries.
     bind_ok (try_fold kek_step [] inner_entries) (\<lambda>keks.
     Inr (bmap_insert vid keks out))))"

definition decode_preloaded :: "CborValue \<Rightarrow> (ProtoError, (u64, (string, bytes) bmap) bmap) result" where
  "decode_preloaded m =
     bind_ok (ok_or (as_map m) (Codec (TypeMismatch 22))) (\<lambda>entries. try_fold preloaded_step [] entries)"

definition preloaded_ok :: "(u64, (string, bytes) bmap) bmap \<Rightarrow> bool" where
  "preloaded_ok m \<longleftrightarrow> bmap_wf m \<and> list_all (\<lambda>(vid, keks). bmap_wf keks) m"

definition field_opt_text_array :: "CborValue \<Rightarrow> u64 \<Rightarrow> (ProtoError, string list option) result" where
  "field_opt_text_array v k =
     (case field_opt v k of
        None \<Rightarrow> Inr None
      | Some _ \<Rightarrow> bind_ok (field_text_array v k) (\<lambda>ss. Inr (Some ss)))"

section \<open>Epoch certificate\<close>

record EpochCert =
  ec_proto_ver :: nat
  ec_suite_id :: SuiteId
  ec_epoch_id :: EpochId
  ec_vk :: bytes
  ec_vk_fast :: bytes
  ec_not_before :: i64
  ec_not_after :: i64
  ec_product_scope :: "string option"
  ec_issuer_vk_digest :: Digest

definition epoch_cert_to_value :: "EpochCert \<Rightarrow> CborValue" where
  "epoch_cert_to_value c = put_all
     [(0, Some (Uint (ec_proto_ver c))),
      (1, Some (Bytes (ec_suite_id c))),
      (2, Some (Bytes (ec_epoch_id c))),
      (3, Some (Bytes (ec_vk c))),
      (4, Some (Bytes (ec_vk_fast c))),
      (5, Some (cbor_int (ec_not_before c))),
      (6, Some (cbor_int (ec_not_after c))),
      (7, map_option CText (ec_product_scope c)),
      (8, Some (Bytes (ec_issuer_vk_digest c)))]"

definition epoch_cert_from_value :: "CborValue \<Rightarrow> (ProtoError, EpochCert) result" where
  "epoch_cert_from_value v =
     bind_ok (field_u8 v 0) (\<lambda>proto_ver.
     bind_ok (field_suite_id v 1) (\<lambda>suite_id.
     bind_ok (field_epoch_id v 2) (\<lambda>epoch_id.
     bind_ok (field_bytes v 3) (\<lambda>vk.
     bind_ok (field_bytes v 4) (\<lambda>vk_fast.
     bind_ok (field_int v 5) (\<lambda>not_before.
     bind_ok (field_int v 6) (\<lambda>not_after.
     bind_ok (field_opt_text v 7) (\<lambda>product_scope.
     bind_ok (field_fixed 32 v 8) (\<lambda>issuer_vk_digest.
     Inr \<lparr>ec_proto_ver = proto_ver,
          ec_suite_id = suite_id,
          ec_epoch_id = epoch_id,
          ec_vk = vk,
          ec_vk_fast = vk_fast,
          ec_not_before = not_before,
          ec_not_after = not_after,
          ec_product_scope = product_scope,
          ec_issuer_vk_digest = issuer_vk_digest\<rparr>)))))))))"

definition epoch_cert_ok :: "EpochCert \<Rightarrow> bool" where
  "epoch_cert_ok c \<longleftrightarrow>
     ec_proto_ver c \<le> 255 \<and>
     length (ec_suite_id c) = 4 \<and>
     length (ec_epoch_id c) = 8 \<and>
     in_i64 (ec_not_before c) \<and>
     in_i64 (ec_not_after c) \<and>
     length (ec_issuer_vk_digest c) = 32"

definition ec_window :: "EpochCert \<Rightarrow> TimeWindow" where
  "ec_window c = tw_new (ec_not_before c) (ec_not_after c)"

section \<open>Machine credential\<close>

record MachineCredential =
  mc_proto_ver :: nat
  mc_suite_id :: SuiteId
  mc_product_id :: string
  mc_license_id :: LicenseId
  mc_machine_id :: MachineId
  mc_fingerprint :: Fingerprint
  mc_kem_ct :: bytes
  mc_sealed_cs :: bytes
  mc_offline_nonce :: bytes
  mc_entitlements :: Entitlements
  mc_issued_at :: i64
  mc_not_after :: i64
  mc_refresh_after :: i64
  mc_grace_seconds :: u32
  mc_mode :: Mode
  mc_revocation_epoch :: u64
  mc_epoch_id :: EpochId
  mc_build_fingerprint :: "string option"
  mc_policy_flags :: "u64 option"
  mc_security_floor :: u64
  mc_variant_id :: u64
  mc_wrapped_keks :: "(string, bytes) bmap"
  mc_preloaded_keks :: "(u64, (string, bytes) bmap) bmap option"

definition machine_cred_to_value :: "MachineCredential \<Rightarrow> CborValue" where
  "machine_cred_to_value c = put_all
     [(0, Some (Uint (mc_proto_ver c))),
      (1, Some (Bytes (mc_suite_id c))),
      (2, Some (CText (mc_product_id c))),
      (3, Some (Bytes (mc_license_id c))),
      (4, Some (Bytes (mc_machine_id c))),
      (5, Some (Bytes (mc_fingerprint c))),
      (6, Some (Bytes (mc_kem_ct c))),
      (7, Some (Bytes (mc_sealed_cs c))),
      (8, Some (Bytes (mc_offline_nonce c))),
      (9, Some (ent_encode (mc_entitlements c))),
      (10, Some (cbor_int (mc_issued_at c))),
      (11, Some (cbor_int (mc_not_after c))),
      (12, Some (cbor_int (mc_refresh_after c))),
      (13, Some (Uint (mc_grace_seconds c))),
      (14, Some (Uint (mode_u8 (mc_mode c)))),
      (15, Some (Uint (mc_revocation_epoch c))),
      (16, Some (Bytes (mc_epoch_id c))),
      (17, map_option CText (mc_build_fingerprint c)),
      (18, map_option Uint (mc_policy_flags c)),
      (19, Some (Uint (mc_security_floor c))),
      (20, Some (Uint (mc_variant_id c))),
      (21, Some (enc_text_bytes_map (mc_wrapped_keks c))),
      (22, map_option enc_preloaded (mc_preloaded_keks c))]"

definition machine_cred_from_value :: "CborValue \<Rightarrow> (ProtoError, MachineCredential) result" where
  "machine_cred_from_value v =
     bind_ok (field_u8 v 14) (\<lambda>mode_raw.
     bind_ok (field_opt_decode decode_preloaded v 22) (\<lambda>preloaded_keks.
     bind_ok (field_u8 v 0) (\<lambda>proto_ver.
     bind_ok (field_suite_id v 1) (\<lambda>suite_id.
     bind_ok (field_text v 2) (\<lambda>product_id.
     bind_ok (field_license_id v 3) (\<lambda>license_id.
     bind_ok (field_machine_id v 4) (\<lambda>machine_id.
     bind_ok (field_fingerprint v 5) (\<lambda>fingerprint.
     bind_ok (field_bytes v 6) (\<lambda>kem_ct.
     bind_ok (field_bytes v 7) (\<lambda>sealed_cs.
     bind_ok (field_fixed 32 v 8) (\<lambda>offline_nonce.
     bind_ok (bind_ok (field_req v 9) ent_decode) (\<lambda>entitlements.
     bind_ok (field_int v 10) (\<lambda>issued_at.
     bind_ok (field_int v 11) (\<lambda>not_after.
     bind_ok (field_int v 12) (\<lambda>refresh_after.
     bind_ok (field_u32 v 13) (\<lambda>grace_seconds.
     bind_ok (ok_or (mode_from_u8 mode_raw) (Codec UnknownDiscriminant)) (\<lambda>mode.
     bind_ok (field_uint v 15) (\<lambda>revocation_epoch.
     bind_ok (field_epoch_id v 16) (\<lambda>epoch_id.
     bind_ok (field_opt_text v 17) (\<lambda>build_fingerprint.
     bind_ok (field_opt_uint v 18) (\<lambda>policy_flags.
     bind_ok (field_uint v 19) (\<lambda>security_floor.
     bind_ok (field_uint v 20) (\<lambda>variant_id.
     bind_ok (field_text_bytes_map v 21) (\<lambda>wrapped_keks.
     Inr \<lparr>mc_proto_ver = proto_ver,
          mc_suite_id = suite_id,
          mc_product_id = product_id,
          mc_license_id = license_id,
          mc_machine_id = machine_id,
          mc_fingerprint = fingerprint,
          mc_kem_ct = kem_ct,
          mc_sealed_cs = sealed_cs,
          mc_offline_nonce = offline_nonce,
          mc_entitlements = entitlements,
          mc_issued_at = issued_at,
          mc_not_after = not_after,
          mc_refresh_after = refresh_after,
          mc_grace_seconds = grace_seconds,
          mc_mode = mode,
          mc_revocation_epoch = revocation_epoch,
          mc_epoch_id = epoch_id,
          mc_build_fingerprint = build_fingerprint,
          mc_policy_flags = policy_flags,
          mc_security_floor = security_floor,
          mc_variant_id = variant_id,
          mc_wrapped_keks = wrapped_keks,
          mc_preloaded_keks = preloaded_keks\<rparr>))))))))))))))))))))))))"

definition machine_cred_ok :: "MachineCredential \<Rightarrow> bool" where
  "machine_cred_ok c \<longleftrightarrow>
     mc_proto_ver c \<le> 255 \<and>
     length (mc_suite_id c) = 4 \<and>
     length (mc_license_id c) = 16 \<and>
     length (mc_machine_id c) = 16 \<and>
     length (mc_offline_nonce c) = 32 \<and>
     ent_ok (mc_entitlements c) \<and>
     in_i64 (mc_issued_at c) \<and>
     in_i64 (mc_not_after c) \<and>
     in_i64 (mc_refresh_after c) \<and>
     mc_grace_seconds c \<le> u32_max \<and>
     length (mc_epoch_id c) = 8 \<and>
     bmap_wf (mc_wrapped_keks c) \<and>
     pred_option preloaded_ok (mc_preloaded_keks c)"

definition mc_window :: "MachineCredential \<Rightarrow> TimeWindow" where
  "mc_window c = tw_new (mc_issued_at c) (mc_not_after c)"

definition mc_grace_deadline :: "MachineCredential \<Rightarrow> i64" where
  "mc_grace_deadline c =
     (let soft = sat_add (mc_refresh_after c) (int (mc_grace_seconds c))
      in if mc_not_after c = UNLIMITED then soft else min soft (mc_not_after c))"

section \<open>Validation ticket\<close>

record ValidationTicket =
  vt_proto_ver :: nat
  vt_suite_id :: SuiteId
  vt_machine_id :: MachineId
  vt_nonce_c_echo :: bytes
  vt_server_nonce :: bytes
  vt_server_time :: i64
  vt_next_refresh_after :: i64
  vt_not_after :: i64
  vt_revocation_epoch :: u64
  vt_verdict :: Verdict
  vt_entitlements :: "Entitlements option"
  vt_epoch_id :: EpochId
  vt_suspicion_score :: "nat option"
  vt_security_floor :: u64
  vt_release_status :: "nat option"
  vt_wrapped_keks :: "(string, bytes) bmap option"
  vt_refresh_now :: "bool option"

definition ticket_to_value :: "ValidationTicket \<Rightarrow> CborValue" where
  "ticket_to_value t = put_all
     [(0, Some (Uint (vt_proto_ver t))),
      (1, Some (Bytes (vt_suite_id t))),
      (2, Some (Bytes (vt_machine_id t))),
      (3, Some (Bytes (vt_nonce_c_echo t))),
      (4, Some (Bytes (vt_server_nonce t))),
      (5, Some (cbor_int (vt_server_time t))),
      (6, Some (cbor_int (vt_next_refresh_after t))),
      (7, Some (cbor_int (vt_not_after t))),
      (8, Some (Uint (vt_revocation_epoch t))),
      (9, Some (Uint (verdict_u8 (vt_verdict t)))),
      (10, map_option ent_encode (vt_entitlements t)),
      (11, Some (Bytes (vt_epoch_id t))),
      (12, map_option Uint (vt_suspicion_score t)),
      (13, Some (Uint (vt_security_floor t))),
      (14, map_option Uint (vt_release_status t)),
      (15, map_option enc_text_bytes_map (vt_wrapped_keks t)),
      (16, map_option Bool (vt_refresh_now t))]"

definition ticket_from_value :: "CborValue \<Rightarrow> (ProtoError, ValidationTicket) result" where
  "ticket_from_value v =
     bind_ok (field_u8 v 9) (\<lambda>verdict_raw.
     bind_ok (field_opt_narrow 255 v 12) (\<lambda>suspicion_score.
     if (case suspicion_score of None \<Rightarrow> False | Some s \<Rightarrow> s > 100) then Inl (FieldOutOfRange 12) else
     bind_ok (field_u8 v 0) (\<lambda>proto_ver.
     bind_ok (field_suite_id v 1) (\<lambda>suite_id.
     bind_ok (field_machine_id v 2) (\<lambda>machine_id.
     bind_ok (field_fixed 32 v 3) (\<lambda>nonce_c_echo.
     bind_ok (field_fixed 32 v 4) (\<lambda>server_nonce.
     bind_ok (field_int v 5) (\<lambda>server_time.
     bind_ok (field_int v 6) (\<lambda>next_refresh_after.
     bind_ok (field_int v 7) (\<lambda>not_after.
     bind_ok (field_uint v 8) (\<lambda>revocation_epoch.
     bind_ok (ok_or (verdict_from_u8 verdict_raw) (Codec UnknownDiscriminant)) (\<lambda>verdict.
     bind_ok (field_opt_decode ent_decode v 10) (\<lambda>entitlements.
     bind_ok (field_epoch_id v 11) (\<lambda>epoch_id.
     bind_ok (field_uint v 13) (\<lambda>security_floor.
     bind_ok (field_opt_narrow 255 v 14) (\<lambda>release_status.
     bind_ok (field_opt_text_bytes_map v 15) (\<lambda>wrapped_keks.
     bind_ok (field_opt_with as_bool v 16) (\<lambda>refresh_now.
     Inr \<lparr>vt_proto_ver = proto_ver,
          vt_suite_id = suite_id,
          vt_machine_id = machine_id,
          vt_nonce_c_echo = nonce_c_echo,
          vt_server_nonce = server_nonce,
          vt_server_time = server_time,
          vt_next_refresh_after = next_refresh_after,
          vt_not_after = not_after,
          vt_revocation_epoch = revocation_epoch,
          vt_verdict = verdict,
          vt_entitlements = entitlements,
          vt_epoch_id = epoch_id,
          vt_suspicion_score = suspicion_score,
          vt_security_floor = security_floor,
          vt_release_status = release_status,
          vt_wrapped_keks = wrapped_keks,
          vt_refresh_now = refresh_now\<rparr>))))))))))))))))))"

definition ticket_ok :: "ValidationTicket \<Rightarrow> bool" where
  "ticket_ok t \<longleftrightarrow>
     vt_proto_ver t \<le> 255 \<and>
     length (vt_suite_id t) = 4 \<and>
     length (vt_machine_id t) = 16 \<and>
     length (vt_nonce_c_echo t) = 32 \<and>
     length (vt_server_nonce t) = 32 \<and>
     in_i64 (vt_server_time t) \<and>
     in_i64 (vt_next_refresh_after t) \<and>
     in_i64 (vt_not_after t) \<and>
     pred_option ent_ok (vt_entitlements t) \<and>
     length (vt_epoch_id t) = 8 \<and>
     pred_option (\<lambda>n. n \<le> 100) (vt_suspicion_score t) \<and>
     pred_option (\<lambda>n. n \<le> 255) (vt_release_status t) \<and>
     pred_option bmap_wf (vt_wrapped_keks t)"

section \<open>Kill order\<close>

record KillOrder =
  ko_proto_ver :: nat
  ko_suite_id :: SuiteId
  ko_machine_id :: MachineId
  ko_nonce_c_echo :: bytes
  ko_server_time :: i64
  ko_reason :: KillReason
  ko_user_message :: "string option"
  ko_revocation_epoch :: u64

definition kill_order_to_value :: "KillOrder \<Rightarrow> CborValue" where
  "kill_order_to_value k = put_all
     [(0, Some (Uint (ko_proto_ver k))),
      (1, Some (Bytes (ko_suite_id k))),
      (2, Some (Bytes (ko_machine_id k))),
      (3, Some (Bytes (ko_nonce_c_echo k))),
      (4, Some (cbor_int (ko_server_time k))),
      (5, Some (Uint (kill_reason_u8 (ko_reason k)))),
      (6, map_option CText (ko_user_message k)),
      (7, Some (Uint (ko_revocation_epoch k)))]"

definition kill_order_from_value :: "CborValue \<Rightarrow> (ProtoError, KillOrder) result" where
  "kill_order_from_value v =
     bind_ok (field_u8 v 5) (\<lambda>reason_raw.
     bind_ok (field_u8 v 0) (\<lambda>proto_ver.
     bind_ok (field_suite_id v 1) (\<lambda>suite_id.
     bind_ok (field_machine_id v 2) (\<lambda>machine_id.
     bind_ok (field_fixed 32 v 3) (\<lambda>nonce_c_echo.
     bind_ok (field_int v 4) (\<lambda>server_time.
     bind_ok (ok_or (kill_reason_from_u8 reason_raw) (Codec UnknownDiscriminant)) (\<lambda>reason.
     bind_ok (field_opt_text v 6) (\<lambda>user_message.
     bind_ok (field_uint v 7) (\<lambda>revocation_epoch.
     Inr \<lparr>ko_proto_ver = proto_ver,
          ko_suite_id = suite_id,
          ko_machine_id = machine_id,
          ko_nonce_c_echo = nonce_c_echo,
          ko_server_time = server_time,
          ko_reason = reason,
          ko_user_message = user_message,
          ko_revocation_epoch = revocation_epoch\<rparr>)))))))))"

definition kill_order_ok :: "KillOrder \<Rightarrow> bool" where
  "kill_order_ok k \<longleftrightarrow>
     ko_proto_ver k \<le> 255 \<and>
     length (ko_suite_id k) = 4 \<and>
     length (ko_machine_id k) = 16 \<and>
     length (ko_nonce_c_echo k) = 32 \<and>
     in_i64 (ko_server_time k)"

section \<open>Revocation batch\<close>

record RevocationBatch =
  rb_proto_ver :: nat
  rb_suite_id :: SuiteId
  rb_from_epoch :: u64
  rb_to_epoch :: u64
  rb_issued_at :: i64
  rb_revoked_license_ids :: "LicenseId list"
  rb_revoked_machine_ids :: "MachineId list"
  rb_revoked_epoch_ids :: "EpochId list"
  rb_bloom_filter :: "bytes option"

definition revocation_batch_to_value :: "RevocationBatch \<Rightarrow> CborValue" where
  "revocation_batch_to_value b = put_all
     [(0, Some (Uint (rb_proto_ver b))),
      (1, Some (Bytes (rb_suite_id b))),
      (2, Some (Uint (rb_from_epoch b))),
      (3, Some (Uint (rb_to_epoch b))),
      (4, Some (cbor_int (rb_issued_at b))),
      (5, Some (Array (map Bytes (rb_revoked_license_ids b)))),
      (6, Some (Array (map Bytes (rb_revoked_machine_ids b)))),
      (7, Some (Array (map Bytes (rb_revoked_epoch_ids b)))),
      (8, map_option Bytes (rb_bloom_filter b))]"

definition revocation_batch_from_value :: "CborValue \<Rightarrow> (ProtoError, RevocationBatch) result" where
  "revocation_batch_from_value v =
     bind_ok (field_u8 v 0) (\<lambda>proto_ver.
     bind_ok (field_suite_id v 1) (\<lambda>suite_id.
     bind_ok (field_uint v 2) (\<lambda>from_epoch.
     bind_ok (field_uint v 3) (\<lambda>to_epoch.
     bind_ok (field_int v 4) (\<lambda>issued_at.
     bind_ok (field_fixed_array 16 v 5) (\<lambda>revoked_license_ids.
     bind_ok (field_fixed_array 16 v 6) (\<lambda>revoked_machine_ids.
     bind_ok (field_fixed_array 8 v 7) (\<lambda>revoked_epoch_ids.
     bind_ok (field_opt_bytes v 8) (\<lambda>bloom_filter.
     Inr \<lparr>rb_proto_ver = proto_ver,
          rb_suite_id = suite_id,
          rb_from_epoch = from_epoch,
          rb_to_epoch = to_epoch,
          rb_issued_at = issued_at,
          rb_revoked_license_ids = revoked_license_ids,
          rb_revoked_machine_ids = revoked_machine_ids,
          rb_revoked_epoch_ids = revoked_epoch_ids,
          rb_bloom_filter = bloom_filter\<rparr>)))))))))"

definition revocation_batch_ok :: "RevocationBatch \<Rightarrow> bool" where
  "revocation_batch_ok b \<longleftrightarrow>
     rb_proto_ver b \<le> 255 \<and>
     length (rb_suite_id b) = 4 \<and>
     in_i64 (rb_issued_at b) \<and>
     list_all (\<lambda>b. length b = 16) (rb_revoked_license_ids b) \<and>
     list_all (\<lambda>b. length b = 16) (rb_revoked_machine_ids b) \<and>
     list_all (\<lambda>b. length b = 8) (rb_revoked_epoch_ids b)"

section \<open>Offline licence key\<close>

record OfflineLicenseKey =
  olk_proto_ver :: nat
  olk_suite_id :: SuiteId
  olk_product_id :: string
  olk_license_id :: LicenseId
  olk_entitlements :: Entitlements
  olk_issued_at :: i64
  olk_not_after :: i64
  olk_bound_fingerprint :: "Fingerprint option"
  olk_max_seats :: u64
  olk_epoch_id :: EpochId
  olk_machine_id :: MachineId
  olk_offline_nonce :: bytes
  olk_key_seed :: bytes
  olk_build_fingerprint :: string
  olk_variant_id :: u64
  olk_security_floor :: u64
  olk_revocation_epoch :: u64
  olk_wrapped_keks :: "(string, bytes) bmap"

definition olk_to_value :: "OfflineLicenseKey \<Rightarrow> CborValue" where
  "olk_to_value k = put_all
     [(0, Some (Uint (olk_proto_ver k))),
      (1, Some (Bytes (olk_suite_id k))),
      (2, Some (CText (olk_product_id k))),
      (3, Some (Bytes (olk_license_id k))),
      (4, Some (ent_encode (olk_entitlements k))),
      (5, Some (cbor_int (olk_issued_at k))),
      (6, Some (cbor_int (olk_not_after k))),
      (7, map_option Bytes (olk_bound_fingerprint k)),
      (8, Some (Uint (olk_max_seats k))),
      (9, Some (Bytes (olk_epoch_id k))),
      (10, Some (Bytes (olk_machine_id k))),
      (11, Some (Bytes (olk_offline_nonce k))),
      (12, Some (Bytes (olk_key_seed k))),
      (13, Some (CText (olk_build_fingerprint k))),
      (14, Some (Uint (olk_variant_id k))),
      (15, Some (Uint (olk_security_floor k))),
      (16, Some (Uint (olk_revocation_epoch k))),
      (17, Some (enc_text_bytes_map (olk_wrapped_keks k)))]"

definition olk_from_value :: "CborValue \<Rightarrow> (ProtoError, OfflineLicenseKey) result" where
  "olk_from_value v =
     bind_ok (field_u8 v 0) (\<lambda>proto_ver.
     bind_ok (field_suite_id v 1) (\<lambda>suite_id.
     bind_ok (field_text v 2) (\<lambda>product_id.
     bind_ok (field_license_id v 3) (\<lambda>license_id.
     bind_ok (bind_ok (field_req v 4) ent_decode) (\<lambda>entitlements.
     bind_ok (field_int v 5) (\<lambda>issued_at.
     bind_ok (field_int v 6) (\<lambda>not_after.
     bind_ok (field_opt_bytes v 7) (\<lambda>bound_fingerprint.
     bind_ok (field_uint v 8) (\<lambda>max_seats.
     bind_ok (field_epoch_id v 9) (\<lambda>epoch_id.
     bind_ok (field_machine_id v 10) (\<lambda>machine_id.
     bind_ok (field_fixed 32 v 11) (\<lambda>offline_nonce.
     bind_ok (field_fixed 32 v 12) (\<lambda>key_seed.
     bind_ok (field_text v 13) (\<lambda>build_fingerprint.
     bind_ok (field_uint v 14) (\<lambda>variant_id.
     bind_ok (field_uint v 15) (\<lambda>security_floor.
     bind_ok (field_uint v 16) (\<lambda>revocation_epoch.
     bind_ok (field_text_bytes_map v 17) (\<lambda>wrapped_keks.
     Inr \<lparr>olk_proto_ver = proto_ver,
          olk_suite_id = suite_id,
          olk_product_id = product_id,
          olk_license_id = license_id,
          olk_entitlements = entitlements,
          olk_issued_at = issued_at,
          olk_not_after = not_after,
          olk_bound_fingerprint = bound_fingerprint,
          olk_max_seats = max_seats,
          olk_epoch_id = epoch_id,
          olk_machine_id = machine_id,
          olk_offline_nonce = offline_nonce,
          olk_key_seed = key_seed,
          olk_build_fingerprint = build_fingerprint,
          olk_variant_id = variant_id,
          olk_security_floor = security_floor,
          olk_revocation_epoch = revocation_epoch,
          olk_wrapped_keks = wrapped_keks\<rparr>))))))))))))))))))"

definition olk_ok :: "OfflineLicenseKey \<Rightarrow> bool" where
  "olk_ok k \<longleftrightarrow>
     olk_proto_ver k \<le> 255 \<and>
     length (olk_suite_id k) = 4 \<and>
     length (olk_license_id k) = 16 \<and>
     ent_ok (olk_entitlements k) \<and>
     in_i64 (olk_issued_at k) \<and>
     in_i64 (olk_not_after k) \<and>
     length (olk_epoch_id k) = 8 \<and>
     length (olk_machine_id k) = 16 \<and>
     length (olk_offline_nonce k) = 32 \<and>
     length (olk_key_seed k) = 32 \<and>
     bmap_wf (olk_wrapped_keks k)"

section \<open>Integrity manifest\<close>

record IntegrityManifest =
  im_proto_ver :: nat
  im_suite_id :: SuiteId
  im_product_id :: string
  im_build_fingerprint :: string
  im_built_at :: i64
  im_hash_alg :: string
  im_entries :: "(string, bytes) bmap"
  im_guarded :: "(string, bytes) bmap option"
  im_sealed_assets :: "string list option"
  im_root :: bytes

definition manifest_to_value :: "IntegrityManifest \<Rightarrow> CborValue" where
  "manifest_to_value m = put_all
     [(0, Some (Uint (im_proto_ver m))),
      (1, Some (Bytes (im_suite_id m))),
      (2, Some (CText (im_product_id m))),
      (3, Some (CText (im_build_fingerprint m))),
      (4, Some (cbor_int (im_built_at m))),
      (5, Some (CText (im_hash_alg m))),
      (6, Some (enc_text_bytes_map (im_entries m))),
      (7, map_option enc_text_bytes_map (im_guarded m)),
      (8, map_option (\<lambda>ss. Array (map CText ss)) (im_sealed_assets m)),
      (9, Some (Bytes (im_root m)))]"

definition manifest_from_value :: "CborValue \<Rightarrow> (ProtoError, IntegrityManifest) result" where
  "manifest_from_value v =
     bind_ok (field_u8 v 0) (\<lambda>proto_ver.
     bind_ok (field_suite_id v 1) (\<lambda>suite_id.
     bind_ok (field_text v 2) (\<lambda>product_id.
     bind_ok (field_text v 3) (\<lambda>build_fingerprint.
     bind_ok (field_int v 4) (\<lambda>built_at.
     bind_ok (field_text v 5) (\<lambda>hash_alg.
     bind_ok (field_text_bytes_map v 6) (\<lambda>entries.
     bind_ok (field_opt_text_bytes_map v 7) (\<lambda>guarded.
     bind_ok (field_opt_text_array v 8) (\<lambda>sealed_assets.
     bind_ok (field_bytes v 9) (\<lambda>root.
     Inr \<lparr>im_proto_ver = proto_ver,
          im_suite_id = suite_id,
          im_product_id = product_id,
          im_build_fingerprint = build_fingerprint,
          im_built_at = built_at,
          im_hash_alg = hash_alg,
          im_entries = entries,
          im_guarded = guarded,
          im_sealed_assets = sealed_assets,
          im_root = root\<rparr>))))))))))"

definition manifest_ok :: "IntegrityManifest \<Rightarrow> bool" where
  "manifest_ok m \<longleftrightarrow>
     im_proto_ver m \<le> 255 \<and>
     length (im_suite_id m) = 4 \<and>
     in_i64 (im_built_at m) \<and>
     bmap_wf (im_entries m) \<and>
     pred_option bmap_wf (im_guarded m)"

section \<open>Offline activation response\<close>

record ActivationResponse =
  ar_proto_ver :: nat
  ar_suite_id :: SuiteId
  ar_nonce_c_echo :: bytes
  ar_credential :: bytes
  ar_chain :: "bytes list"
  ar_server_time :: i64
  ar_valid_until :: i64

definition activation_response_to_value :: "ActivationResponse \<Rightarrow> CborValue" where
  "activation_response_to_value r = put_all
     [(0, Some (Uint (ar_proto_ver r))),
      (1, Some (Bytes (ar_suite_id r))),
      (2, Some (Bytes (ar_nonce_c_echo r))),
      (3, Some (Bytes (ar_credential r))),
      (4, Some (Array (map Bytes (ar_chain r)))),
      (5, Some (cbor_int (ar_server_time r))),
      (6, Some (cbor_int (ar_valid_until r)))]"

definition activation_response_from_value :: "CborValue \<Rightarrow> (ProtoError, ActivationResponse) result" where
  "activation_response_from_value v =
     bind_ok (field_req v 4) (\<lambda>chain_value.
     bind_ok (ok_or (as_array chain_value) (Codec (TypeMismatch 4))) (\<lambda>chain_raw.
     bind_ok (try_map (\<lambda>c. ok_or (as_bytes c) (Codec (TypeMismatch 4))) chain_raw) (\<lambda>chain.
     bind_ok (field_u8 v 0) (\<lambda>proto_ver.
     bind_ok (field_suite_id v 1) (\<lambda>suite_id.
     bind_ok (field_fixed 32 v 2) (\<lambda>nonce_c_echo.
     bind_ok (field_bytes v 3) (\<lambda>credential.
     bind_ok (field_int v 5) (\<lambda>server_time.
     bind_ok (field_int v 6) (\<lambda>valid_until.
     Inr \<lparr>ar_proto_ver = proto_ver,
          ar_suite_id = suite_id,
          ar_nonce_c_echo = nonce_c_echo,
          ar_credential = credential,
          ar_chain = chain,
          ar_server_time = server_time,
          ar_valid_until = valid_until\<rparr>)))))))))"

definition activation_response_ok :: "ActivationResponse \<Rightarrow> bool" where
  "activation_response_ok r \<longleftrightarrow>
     ar_proto_ver r \<le> 255 \<and>
     length (ar_suite_id r) = 4 \<and>
     length (ar_nonce_c_echo r) = 32 \<and>
     in_i64 (ar_server_time r) \<and>
     in_i64 (ar_valid_until r)"

section \<open>Every artifact survives the wire\<close>

lemma keks_back:
  "try_fold kek_step acc (map (\<lambda>(k, v). (CText k, Bytes v)) kvs) = Inr (bmap_copy kvs acc)"
  by (induction kvs arbitrary: acc) (auto simp: kek_step_def bmap_copy_def)

lemma preloaded_step_back:
  assumes "bmap_wf keks"
  shows "preloaded_step out (Uint vid, canon (enc_text_bytes_map keks)) = Inr (bmap_insert vid keks out)"
proof -
  obtain kvs where "canon (enc_text_bytes_map keks) = Map (map (\<lambda>(k, v). (CText k, canon (Bytes v))) kvs)"
    and "bmap_copy kvs [] = keks"
    using canon_plain_keys [OF assms, where kenc = CText and enc = Bytes, OF canon_CText]
    unfolding enc_text_bytes_map_def by blast
  then show ?thesis by (simp add: preloaded_step_def keks_back)
qed

lemma preloaded_fold:
  assumes "list_all (\<lambda>(vid, keks). bmap_wf keks) kvs"
  shows "try_fold preloaded_step acc (map (\<lambda>(k, v). (Uint k, canon (enc_text_bytes_map v))) kvs) = Inr (bmap_copy kvs acc)"
  using assms by (induction kvs arbitrary: acc) (auto simp: preloaded_step_back bmap_copy_def)

lemma preloaded_back:
  assumes "preloaded_ok m"
  shows "decode_preloaded (canon (enc_preloaded m)) = Inr m"
proof -
  obtain kvs where "canon (enc_preloaded m) = Map (map (\<lambda>(k, v). (Uint k, canon (enc_text_bytes_map v))) kvs)"
    and "bmap_copy kvs [] = m" and "set kvs = set m"
    using canon_plain_keys [of m, where kenc = Uint and enc = enc_text_bytes_map, OF _ canon_Uint] assms
    unfolding enc_preloaded_def preloaded_ok_def by blast
  moreover from this assms have "list_all (\<lambda>(vid, keks). bmap_wf keks) kvs"
    by (simp add: preloaded_ok_def list_all_iff)
  ultimately show ?thesis by (simp add: decode_preloaded_def preloaded_fold)
qed

lemma preloaded_nodup: "preloaded_ok m \<Longrightarrow> nodup (enc_preloaded m)"
  unfolding enc_preloaded_def
  by (rule nodup_plain_keys) (auto simp: preloaded_ok_def inj_Uint list_all_iff nodup_text_bytes_map)

lemma preloaded_not_null: "\<not> is_null (canon (enc_preloaded m))"
  by (simp add: enc_preloaded_def canon_Map del: canon.simps(2))

lemma opt_text_array_back:
  "cbor_get v k = map_option (\<lambda>ss. Array (map CText ss)) ss \<Longrightarrow> field_opt_text_array v k = Inr ss"
  by (cases ss) (simp_all add: field_opt_text_array_def field_opt_def field_text_array_def field_with_def
      field_req_def try_map_text)

lemmas nodup_rules = nodup_text_bytes_map ent_nodup preloaded_nodup

interpretation epoch_cert: wire_record epoch_cert_to_value epoch_cert_from_value BULK_LIMITS epoch_cert_ok
proof
  fix c
  show "nodup (epoch_cert_to_value c)"
    unfolding epoch_cert_to_value_def by (rule nodup_fields) simp_all
  show "\<exists>m. as_map (canon (epoch_cert_to_value c)) = Some m"
    by (simp add: epoch_cert_to_value_def as_map_canon_fields)
  assume "epoch_cert_ok c"
  then show "epoch_cert_from_value (canon (epoch_cert_to_value c)) = Inr c"
    by (simp add: epoch_cert_from_value_def epoch_cert_ok_def read_defs epoch_cert_to_value_def get_canon_fields)
qed

lemma ent_field_back:
  "ent_ok e \<Longrightarrow> cbor_get v k = Some (canon (ent_encode e)) \<Longrightarrow> bind_ok (field_req v k) ent_decode = Inr e"
  by (simp add: field_req_def ent_back)

lemma opt_ent_field_back:
  "pred_option ent_ok e \<Longrightarrow> cbor_get v k = map_option (\<lambda>x. canon (ent_encode x)) e \<Longrightarrow>
   field_opt_decode ent_decode v k = Inr e"
  by (rule opt_decode_back) (auto simp: ent_back ent_not_null)

interpretation machine_cred: wire_record machine_cred_to_value machine_cred_from_value BULK_LIMITS machine_cred_ok
proof
  fix c
  let ?v = "canon (machine_cred_to_value c)"
  note get = machine_cred_to_value_def get_canon_fields
  show "\<exists>m. as_map ?v = Some m" by (simp add: machine_cred_to_value_def as_map_canon_fields)
  assume ok: "machine_cred_ok c"
  then show "nodup (machine_cred_to_value c)"
    unfolding machine_cred_to_value_def
    by (intro nodup_fields) (simp_all add: machine_cred_ok_def nodup_rules option.pred_set option.set_map)
  have mode: "mode_u8 (mc_mode c) \<le> 255" by (cases "mc_mode c") simp_all
  have pre: "field_opt_decode decode_preloaded ?v 22 = Inr (mc_preloaded_keks c)"
    using ok by (intro opt_decode_back [where enc = "\<lambda>m. canon (enc_preloaded m)"])
      (auto simp: get o_def machine_cred_ok_def preloaded_back preloaded_not_null)
  have keks: "field_text_bytes_map ?v 21 = Inr (mc_wrapped_keks c)"
    using ok by (intro text_bytes_map_canon) (simp_all add: get machine_cred_ok_def)
  have ents: "bind_ok (field_req ?v 9) ent_decode = Inr (mc_entitlements c)"
    using ok by (intro ent_field_back) (simp_all add: get machine_cred_ok_def)
  from ok mode pre keks ents show "machine_cred_from_value ?v = Inr c"
    by (simp add: machine_cred_from_value_def machine_cred_ok_def read_defs get mode_wire.dec_enc)
qed

interpretation ticket: wire_record ticket_to_value ticket_from_value CLIENT_LIMITS ticket_ok
proof
  fix t
  let ?v = "canon (ticket_to_value t)"
  note get = ticket_to_value_def get_canon_fields
  show "\<exists>m. as_map ?v = Some m" by (simp add: ticket_to_value_def as_map_canon_fields)
  assume ok: "ticket_ok t"
  then show "nodup (ticket_to_value t)"
    unfolding ticket_to_value_def
    by (intro nodup_fields) (simp_all add: ticket_ok_def nodup_rules option.pred_set option.set_map)
  have verdict: "verdict_u8 (vt_verdict t) \<le> 255" by (cases "vt_verdict t") simp_all
  have score: "field_opt_narrow 255 ?v 12 = Inr (vt_suspicion_score t)"
    and status: "field_opt_narrow 255 ?v 14 = Inr (vt_release_status t)"
    using ok by (auto intro!: opt_narrow_back simp: get ticket_ok_def option.pred_set)
  have plausible: "\<not> (case vt_suspicion_score t of None \<Rightarrow> False | Some s \<Rightarrow> s > 100)"
    using ok by (auto simp: ticket_ok_def split: option.splits)
  have keks: "field_opt_text_bytes_map ?v 15 = Inr (vt_wrapped_keks t)"
    using ok by (intro opt_text_bytes_map_canon) (simp_all add: get o_def ticket_ok_def)
  have ents: "field_opt_decode ent_decode ?v 10 = Inr (vt_entitlements t)"
    using ok by (intro opt_ent_field_back) (simp_all add: get o_def ticket_ok_def)
  from ok verdict score status plausible keks ents show "ticket_from_value ?v = Inr t"
    by (simp add: ticket_from_value_def ticket_ok_def read_defs get verdict_wire.dec_enc)
qed

interpretation kill_order: wire_record kill_order_to_value kill_order_from_value CLIENT_LIMITS kill_order_ok
proof
  fix k
  show "nodup (kill_order_to_value k)"
    unfolding kill_order_to_value_def by (rule nodup_fields) simp_all
  show "\<exists>m. as_map (canon (kill_order_to_value k)) = Some m"
    by (simp add: kill_order_to_value_def as_map_canon_fields)
  assume "kill_order_ok k"
  moreover have "kill_reason_u8 (ko_reason k) \<le> 255" by (cases "ko_reason k") simp_all
  ultimately show "kill_order_from_value (canon (kill_order_to_value k)) = Inr k"
    by (simp add: kill_order_from_value_def kill_order_ok_def read_defs kill_order_to_value_def
        get_canon_fields kill_reason_wire.dec_enc)
qed

interpretation revocation_batch:
  wire_record revocation_batch_to_value revocation_batch_from_value BULK_LIMITS revocation_batch_ok
proof
  fix b
  show "nodup (revocation_batch_to_value b)"
    unfolding revocation_batch_to_value_def by (rule nodup_fields) simp_all
  show "\<exists>m. as_map (canon (revocation_batch_to_value b)) = Some m"
    by (simp add: revocation_batch_to_value_def as_map_canon_fields)
  assume "revocation_batch_ok b"
  then show "revocation_batch_from_value (canon (revocation_batch_to_value b)) = Inr b"
    by (simp add: revocation_batch_from_value_def revocation_batch_ok_def read_defs
        revocation_batch_to_value_def get_canon_fields)
qed

interpretation olk: wire_record olk_to_value olk_from_value CLIENT_LIMITS olk_ok
proof
  fix k
  let ?v = "canon (olk_to_value k)"
  note get = olk_to_value_def get_canon_fields
  show "\<exists>m. as_map ?v = Some m" by (simp add: olk_to_value_def as_map_canon_fields)
  assume ok: "olk_ok k"
  then show "nodup (olk_to_value k)"
    unfolding olk_to_value_def by (intro nodup_fields) (simp_all add: olk_ok_def nodup_rules)
  have keks: "field_text_bytes_map ?v 17 = Inr (olk_wrapped_keks k)"
    using ok by (intro text_bytes_map_canon) (simp_all add: get olk_ok_def)
  have ents: "bind_ok (field_req ?v 4) ent_decode = Inr (olk_entitlements k)"
    using ok by (intro ent_field_back) (simp_all add: get olk_ok_def)
  from ok keks ents show "olk_from_value ?v = Inr k"
    by (simp add: olk_from_value_def olk_ok_def read_defs get)
qed

interpretation manifest: wire_record manifest_to_value manifest_from_value BULK_LIMITS manifest_ok
proof
  fix m
  let ?v = "canon (manifest_to_value m)"
  note get = manifest_to_value_def get_canon_fields
  show "\<exists>m. as_map ?v = Some m" by (simp add: manifest_to_value_def as_map_canon_fields)
  assume ok: "manifest_ok m"
  then show "nodup (manifest_to_value m)"
    unfolding manifest_to_value_def
    by (intro nodup_fields) (simp_all add: manifest_ok_def nodup_rules option.pred_set option.set_map)
  have entries: "field_text_bytes_map ?v 6 = Inr (im_entries m)"
    using ok by (intro text_bytes_map_canon) (simp_all add: get manifest_ok_def)
  have guarded: "field_opt_text_bytes_map ?v 7 = Inr (im_guarded m)"
    using ok by (intro opt_text_bytes_map_canon) (simp_all add: get o_def manifest_ok_def)
  have sealed: "field_opt_text_array ?v 8 = Inr (im_sealed_assets m)"
    by (rule opt_text_array_back) (simp add: get o_def)
  from ok entries guarded sealed show "manifest_from_value ?v = Inr m"
    by (simp add: manifest_from_value_def manifest_ok_def read_defs get)
qed

interpretation activation_response:
  wire_record activation_response_to_value activation_response_from_value BULK_LIMITS activation_response_ok
proof
  fix r
  show "nodup (activation_response_to_value r)"
    unfolding activation_response_to_value_def by (rule nodup_fields) simp_all
  show "\<exists>m. as_map (canon (activation_response_to_value r)) = Some m"
    by (simp add: activation_response_to_value_def as_map_canon_fields)
  assume "activation_response_ok r"
  then show "activation_response_from_value (canon (activation_response_to_value r)) = Inr r"
    by (simp add: activation_response_from_value_def activation_response_ok_def read_defs
        activation_response_to_value_def get_canon_fields)
qed

section \<open>Properties\<close>

definition demo_entitlements :: Entitlements where
  "demo_entitlements =
     \<lparr>ent_features = [], ent_limits = [], ent_tier_id = [], ent_tier_label = [], ent_catalog_version = 1,
      ent_version_scope = None, ent_subscription_hint = None\<rparr>"

definition demo_credential :: MachineCredential where
  "demo_credential =
     \<lparr>mc_proto_ver = 1, mc_suite_id = [1, 0, 0, 1], mc_product_id = [], mc_license_id = replicate 16 1,
      mc_machine_id = replicate 16 2, mc_fingerprint = [3], mc_kem_ct = [4], mc_sealed_cs = [5],
      mc_offline_nonce = replicate 32 6, mc_entitlements = demo_entitlements, mc_issued_at = 10,
      mc_not_after = 90, mc_refresh_after = 50, mc_grace_seconds = 7, mc_mode = OfflineHybrid,
      mc_revocation_epoch = 4, mc_epoch_id = replicate 8 5, mc_build_fingerprint = None, mc_policy_flags = None,
      mc_security_floor = 0, mc_variant_id = 3, mc_wrapped_keks = [], mc_preloaded_keks = None\<rparr>"

definition demo_wire_ticket :: ValidationTicket where
  "demo_wire_ticket =
     \<lparr>vt_proto_ver = 1, vt_suite_id = [1, 0, 0, 1], vt_machine_id = replicate 16 2, vt_nonce_c_echo = replicate 32 3,
      vt_server_nonce = replicate 32 4, vt_server_time = 50, vt_next_refresh_after = 60, vt_not_after = 90,
      vt_revocation_epoch = 4, vt_verdict = Verdict.Ok, vt_entitlements = None, vt_epoch_id = replicate 8 5,
      vt_suspicion_score = Some 40, vt_security_floor = 0, vt_release_status = Some 0, vt_wrapped_keks = None,
      vt_refresh_now = None\<rparr>"

definition demo_wire_kill :: KillOrder where
  "demo_wire_kill =
     \<lparr>ko_proto_ver = 1, ko_suite_id = [1, 0, 0, 1], ko_machine_id = replicate 16 2, ko_nonce_c_echo = replicate 32 3,
      ko_server_time = 50, ko_reason = RevokedLicense, ko_user_message = None, ko_revocation_epoch = 4\<rparr>"

text \<open>
  C23. What the issuer signs is what the client reads: a machine credential, a validation ticket
  and a kill order whose fields have the ranges of their types and whose values respect the
  reader's limits decode, from their own canonical bytes, to themselves, with every optional
  field, nested entitlement and wrapped key; hence two of them with the same bytes are equal.
\<close>

theorem artifacts_roundtrip:
  assumes "machine_cred_ok c" "within BULK_LIMITS 0 (machine_cred_to_value c)"
    and "ticket_ok t" "within CLIENT_LIMITS 0 (ticket_to_value t)"
    and "kill_order_ok k" "within CLIENT_LIMITS 0 (kill_order_to_value k)"
  shows "record_decode machine_cred_from_value BULK_LIMITS (record_encode machine_cred_to_value c) = Inr c \<and>
    record_decode ticket_from_value CLIENT_LIMITS (record_encode ticket_to_value t) = Inr t \<and>
    record_decode kill_order_from_value CLIENT_LIMITS (record_encode kill_order_to_value k) = Inr k"
  using assms machine_cred.decode_encode [of c] ticket.decode_encode [of t] kill_order.decode_encode [of k] by blast

theorem artifacts_roundtrip_witness:
  "record_decode machine_cred_from_value BULK_LIMITS (record_encode machine_cred_to_value demo_credential) =
     Inr demo_credential \<and>
   record_decode ticket_from_value CLIENT_LIMITS (record_encode ticket_to_value demo_wire_ticket) = Inr demo_wire_ticket \<and>
   record_decode kill_order_from_value CLIENT_LIMITS (record_encode kill_order_to_value demo_wire_kill) = Inr demo_wire_kill"
proof (rule artifacts_roundtrip)
  note limits = put_all_entries entries_of_def BULK_LIMITS_def CLIENT_LIMITS_def MAX_CBOR_DEPTH_def u64_max_def cbor_int_def
  show "machine_cred_ok demo_credential" "ticket_ok demo_wire_ticket" "kill_order_ok demo_wire_kill"
    by (simp_all add: machine_cred_ok_def demo_credential_def ent_ok_def demo_entitlements_def ticket_ok_def
        demo_wire_ticket_def kill_order_ok_def demo_wire_kill_def sat_defs u32_max_def bset_wf_def bmap_wf_def)
  show "within BULK_LIMITS 0 (machine_cred_to_value demo_credential)"
    by (simp add: machine_cred_to_value_def demo_credential_def ent_encode_def demo_entitlements_def limits
        enc_text_bytes_map_def str_bytes_def)
  show "within CLIENT_LIMITS 0 (ticket_to_value demo_wire_ticket)"
    "within CLIENT_LIMITS 0 (kill_order_to_value demo_wire_kill)"
    by (simp_all add: ticket_to_value_def demo_wire_ticket_def kill_order_to_value_def demo_wire_kill_def limits)
qed

end
