(* ===== verification/Crypto_Slots.thy ===== *)
theory Crypto_Slots
  imports Wire
begin

text \<open>
  The crypto slots (\<open>copylocker-suite\<close>) and how \<open>copylocker-suite-std\<close> fills them: the domain
  context of signatures, length-prefixed inputs of hashes and key derivation, nonce-carrying
  ciphertexts, the hybrid and the fast signature, and the device binder.  The primitives
  themselves (SHA-256, ML-DSA, Ed25519, HKDF, Argon2id, XChaCha20-Poly1305) come from other
  packages and are arguments of the definitions.
\<close>

section \<open>Domain separation\<close>

definition DOMAIN_PREFIX :: bytes where "DOMAIN_PREFIX = str_bytes ''copylocker/v1/''"

record DomainCtx =
  dc_kind :: ArtifactKind
  dc_suite_id :: SuiteId
  dc_product_id :: string

definition dc_new :: "ArtifactKind \<Rightarrow> SuiteId \<Rightarrow> string \<Rightarrow> DomainCtx" where
  "dc_new k s p = \<lparr>dc_kind = k, dc_suite_id = s, dc_product_id = p\<rparr>"

definition dc_encoded_len :: "DomainCtx \<Rightarrow> nat" where
  "dc_encoded_len c =
     length DOMAIN_PREFIX + length (ctx_name (dc_kind c)) + 1 + SUITE_ID_LEN + length (dc_product_id c)"

definition dc_to_bytes :: "DomainCtx \<Rightarrow> bytes" where
  "dc_to_bytes c =
     DOMAIN_PREFIX @ str_bytes (ctx_name (dc_kind c)) @ [0x00] @ dc_suite_id c @ str_bytes (dc_product_id c)"

section \<open>Length-prefixed parts\<close>

definition prefixed :: "nat \<Rightarrow> bytes \<Rightarrow> bytes" where
  "prefixed k b = to_be_bytes k (length b) @ b"

text \<open>The input \<open>hash_parts\<close> feeds to the streaming hash.\<close>

definition hash_parts :: "(bytes \<Rightarrow> Digest) \<Rightarrow> bytes list \<Rightarrow> Digest" where
  "hash_parts hash parts = hash (concat (map (prefixed 8) parts))"

section \<open>Key derivation\<close>

type_synonym Prk = bytes

definition PRK_MAX_LEN :: nat where "PRK_MAX_LEN = 64"

definition prk_from_bytes :: "bytes \<Rightarrow> Prk" where
  "prk_from_bytes b =
     (let n = min (length b) PRK_MAX_LEN in take n b @ replicate (PRK_MAX_LEN - n) 0)"

text \<open>
  A key derivation scheme: \<open>kdf_extract salt ikm\<close>, \<open>kdf_expand prk info n\<close> for \<open>n\<close> bytes of
  output, \<open>kdf_stretch salt input n\<close>.
\<close>

record KeyDerivation =
  kdf_extract :: "bytes \<Rightarrow> bytes \<Rightarrow> Prk"
  kdf_expand :: "Prk \<Rightarrow> bytes \<Rightarrow> nat \<Rightarrow> (CryptoError, bytes) result"
  kdf_stretch :: "bytes \<Rightarrow> bytes \<Rightarrow> nat \<Rightarrow> (CryptoError, bytes) result"

definition info_step :: "bytes \<Rightarrow> bytes \<Rightarrow> (CryptoError, bytes) result" where
  "info_step info p = (if length p \<le> u32_max then Inr (info @ prefixed 4 p) else Inl OutputTooLong)"

definition expand_parts :: "KeyDerivation \<Rightarrow> Prk \<Rightarrow> bytes list \<Rightarrow> nat \<Rightarrow> (CryptoError, bytes) result" where
  "expand_parts K prk parts n =
     bind_ok (try_fold info_step [] parts) (\<lambda>info. kdf_expand K prk info n)"

definition derive_key :: "KeyDerivation \<Rightarrow> Prk \<Rightarrow> bytes list \<Rightarrow> (CryptoError, bytes) result" where
  "derive_key K prk parts = expand_parts K prk parts 32"

definition derive_from :: "KeyDerivation \<Rightarrow> bytes \<Rightarrow> bytes \<Rightarrow> bytes list \<Rightarrow> (CryptoError, bytes) result" where
  "derive_from K salt ikm parts = derive_key K (kdf_extract K salt ikm) parts"

definition M_COST :: nat where "M_COST = 64 * 1024"
definition T_COST :: nat where "T_COST = 3"
definition P_COST :: nat where "P_COST = 1"

text \<open>
  HKDF-SHA-512: \<open>hk_extract\<close>, \<open>hk_from_prk\<close>, \<open>hk_expand\<close> and \<open>argon2id m t p salt input n\<close>
  are the packages' functions; \<open>None\<close> is their error.
\<close>

definition hkdf_sha512 ::
  "(bytes \<Rightarrow> bytes \<Rightarrow> bytes) \<Rightarrow> (bytes \<Rightarrow> 'hk option) \<Rightarrow> ('hk \<Rightarrow> bytes \<Rightarrow> nat \<Rightarrow> bytes option) \<Rightarrow>
   (nat \<Rightarrow> nat \<Rightarrow> nat \<Rightarrow> bytes \<Rightarrow> bytes \<Rightarrow> nat \<Rightarrow> bytes option) \<Rightarrow> KeyDerivation"
where
  "hkdf_sha512 hk_extract hk_from_prk hk_expand argon2id =
     \<lparr>kdf_extract = \<lambda>salt ikm. prk_from_bytes (hk_extract salt ikm),
      kdf_expand = \<lambda>prk info n.
        if n > 255 * 64 then Inl OutputTooLong
        else bind_ok (ok_or (hk_from_prk prk) BadLength) (\<lambda>hk. ok_or (hk_expand hk info n) OutputTooLong),
      kdf_stretch = \<lambda>salt input n.
        if length salt < 8 then Inl BadLength
        else ok_or (argon2id M_COST T_COST P_COST salt input n) BadLength\<rparr>"

section \<open>Authenticated encryption\<close>

record AeadScheme =
  aead_key_len :: nat
  aead_nonce_len :: nat
  aead_tag_len :: nat
  aead_random_nonce_safe :: bool
  aead_seal :: "bytes \<Rightarrow> bytes \<Rightarrow> bytes \<Rightarrow> bytes \<Rightarrow> (CryptoError, bytes) result"
  aead_open :: "bytes \<Rightarrow> bytes \<Rightarrow> bytes \<Rightarrow> bytes \<Rightarrow> (CryptoError, bytes) result"

text \<open>A random source is what it fills a buffer of a given width with.\<close>

type_synonym CryptoRng = "nat \<Rightarrow> bytes"

definition random_nonce :: "AeadScheme \<Rightarrow> CryptoRng \<Rightarrow> (CryptoError, bytes) result" where
  "random_nonce A rng =
     (if \<not> aead_random_nonce_safe A then Inl BadLength else Inr (rng (aead_nonce_len A)))"

definition seal_with_nonce ::
  "AeadScheme \<Rightarrow> bytes \<Rightarrow> bytes \<Rightarrow> bytes \<Rightarrow> CryptoRng \<Rightarrow> (CryptoError, bytes) result"
where
  "seal_with_nonce A key aad pt rng =
     bind_ok (random_nonce A rng) (\<lambda>nonce.
     bind_ok (aead_seal A key nonce aad pt) (\<lambda>ct. Inr (nonce @ ct)))"

definition open_with_nonce :: "AeadScheme \<Rightarrow> bytes \<Rightarrow> bytes \<Rightarrow> bytes \<Rightarrow> (CryptoError, bytes) result" where
  "open_with_nonce A key aad blob =
     (if length blob < aead_nonce_len A + aead_tag_len A then Inl BadLength
      else aead_open A key (take (aead_nonce_len A) blob) aad (drop (aead_nonce_len A) blob))"

definition xchacha20poly1305 ::
  "(bytes \<Rightarrow> bytes \<Rightarrow> bytes \<Rightarrow> bytes \<Rightarrow> bytes option) \<Rightarrow>
   (bytes \<Rightarrow> bytes \<Rightarrow> bytes \<Rightarrow> bytes \<Rightarrow> bytes option) \<Rightarrow> AeadScheme"
where
  "xchacha20poly1305 encrypt decrypt =
     \<lparr>aead_key_len = 32, aead_nonce_len = 24, aead_tag_len = 16, aead_random_nonce_safe = True,
      aead_seal = \<lambda>key nonce aad pt.
        if length key \<noteq> 32 \<or> length nonce \<noteq> 24 then Inl BadLength
        else ok_or (encrypt key nonce aad pt) Invalid,
      aead_open = \<lambda>key nonce aad ct.
        if length key \<noteq> 32 \<or> length nonce \<noteq> 24 then Inl BadLength
        else if length ct < 16 then Inl BadLength
        else ok_or (decrypt key nonce aad ct) Invalid\<rparr>"

section \<open>Device binding\<close>

record EnvEvidence =
  env_module_digest :: Digest
  env_build_fingerprint :: bytes
  env_extra :: "bytes list"

definition evidence_parts :: "EnvEvidence \<Rightarrow> bytes list" where
  "evidence_parts e = [env_module_digest e, env_build_fingerprint e] @ env_extra e"

definition BIND_SALT :: bytes where "BIND_SALT = str_bytes ''copylocker/bind/v1''"

definition hkdf_bind ::
  "(bytes \<Rightarrow> Digest) \<Rightarrow> KeyDerivation \<Rightarrow> bytes \<Rightarrow> Fingerprint \<Rightarrow> EnvEvidence \<Rightarrow> (CryptoError, bytes) result"
where
  "hkdf_bind sha256 K secret fp env =
     derive_from K BIND_SALT secret [fp, hash_parts sha256 (evidence_parts env)]"

section \<open>Signatures\<close>

definition HYBRID_TBS_LABEL :: bytes where "HYBRID_TBS_LABEL = str_bytes ''copylocker/hybrid-sig/v1''"
definition ED_SK_LEN :: nat where "ED_SK_LEN = 32"
definition ED_VK_LEN :: nat where "ED_VK_LEN = 32"
definition ED_SIG_LEN :: nat where "ED_SIG_LEN = 64"
definition PQ_SK_SEED_LEN :: nat where "PQ_SK_SEED_LEN = 32"

record PqParams =
  pq_vk_len :: nat
  pq_sig_len :: nat
  pq_level :: SecurityLevel

definition ml_dsa_44 :: PqParams where
  "ml_dsa_44 = \<lparr>pq_vk_len = 1312, pq_sig_len = 2420, pq_level = Category1\<rparr>"

definition ml_dsa_65 :: PqParams where
  "ml_dsa_65 = \<lparr>pq_vk_len = 1952, pq_sig_len = 3309, pq_level = Category3\<rparr>"

definition ml_dsa_87 :: PqParams where
  "ml_dsa_87 = \<lparr>pq_vk_len = 2592, pq_sig_len = 4627, pq_level = Category5\<rparr>"

text \<open>The functions of the packages \<open>sha2\<close>, \<open>ml_dsa\<close> and \<open>ed25519_dalek\<close> the signatures use.\<close>

record ('pvk, 'psig, 'evk, 'esig) SigPrims =
  sp_sha256 :: "bytes \<Rightarrow> Digest"
  sp_pq_sign :: "bytes \<Rightarrow> bytes \<Rightarrow> bytes option"
  sp_pq_key :: "bytes \<Rightarrow> 'pvk"
  sp_pq_sig_decode :: "bytes \<Rightarrow> 'psig option"
  sp_pq_verify :: "'pvk \<Rightarrow> bytes \<Rightarrow> 'psig \<Rightarrow> bool"
  sp_pq_vk_encode :: "'pvk \<Rightarrow> bytes"
  sp_pq_vk_decode :: "bytes \<Rightarrow> 'pvk"
  sp_ed_sign :: "bytes \<Rightarrow> bytes \<Rightarrow> bytes"
  sp_ed_key :: "bytes \<Rightarrow> 'evk"
  sp_ed_sig_from_slice :: "bytes \<Rightarrow> 'esig option"
  sp_ed_verify_strict :: "'evk \<Rightarrow> bytes \<Rightarrow> 'esig \<Rightarrow> bool"
  sp_ed_vk_bytes :: "'evk \<Rightarrow> bytes"
  sp_ed_vk_from_bytes :: "bytes \<Rightarrow> 'evk option"

definition hybrid_tbs :: "(bytes \<Rightarrow> Digest) \<Rightarrow> DomainCtx \<Rightarrow> bytes \<Rightarrow> bytes" where
  "hybrid_tbs sha256 ctx msg = HYBRID_TBS_LABEL @ prefixed 4 (dc_to_bytes ctx) @ sha256 msg"

record HybridSigningKey =
  hsk_pq_seed :: bytes
  hsk_ed_seed :: bytes

record ('pvk, 'evk) HybridVerifyingKey =
  hvk_pq :: 'pvk
  hvk_ed :: 'evk

definition hybrid_generate_sk :: "CryptoRng \<Rightarrow> CryptoRng \<Rightarrow> HybridSigningKey" where
  "hybrid_generate_sk first second =
     \<lparr>hsk_pq_seed = first PQ_SK_SEED_LEN, hsk_ed_seed = second ED_SK_LEN\<rparr>"

definition hybrid_verifying_key ::
  "('pvk, 'psig, 'evk, 'esig) SigPrims \<Rightarrow> HybridSigningKey \<Rightarrow> ('pvk, 'evk) HybridVerifyingKey"
where
  "hybrid_verifying_key S sk =
     \<lparr>hvk_pq = sp_pq_key S (hsk_pq_seed sk), hvk_ed = sp_ed_key S (hsk_ed_seed sk)\<rparr>"

definition hybrid_sign ::
  "('pvk, 'psig, 'evk, 'esig) SigPrims \<Rightarrow> HybridSigningKey \<Rightarrow> DomainCtx \<Rightarrow> bytes \<Rightarrow> (CryptoError, bytes) result"
where
  "hybrid_sign S sk ctx msg =
     (let tbs = hybrid_tbs (sp_sha256 S) ctx msg in
      bind_ok (ok_or (sp_pq_sign S (hsk_pq_seed sk) tbs) Invalid) (\<lambda>pq_bytes.
      let ed_bytes = sp_ed_sign S (hsk_ed_seed sk) tbs in
      Inr (prefixed 4 pq_bytes @ prefixed 4 ed_bytes)))"

definition read_prefixed :: "bytes \<Rightarrow> (bytes \<times> bytes) option" where
  "read_prefixed b =
     (if length b < 4 then None else
      let len = from_be_bytes (take 4 b); rest = drop 4 b in
      if length rest < len then None else Some (take len rest, drop len rest))"

definition split_hybrid :: "bytes \<Rightarrow> (CryptoError, bytes \<times> bytes) result" where
  "split_hybrid sig =
     (case read_prefixed sig of None \<Rightarrow> Inl BadLength | Some (pq, rest) \<Rightarrow>
      case read_prefixed rest of None \<Rightarrow> Inl BadLength | Some (ed, tail) \<Rightarrow>
      if tail \<noteq> [] then Inl BadLength else Inr (pq, ed))"

definition decode_pq_sig :: "('pvk, 'psig, 'evk, 'esig) SigPrims \<Rightarrow> PqParams \<Rightarrow> bytes \<Rightarrow> 'psig option" where
  "decode_pq_sig S p bs = (if length bs \<noteq> pq_sig_len p then None else sp_pq_sig_decode S bs)"

definition pq_ok ::
  "('pvk, 'psig, 'evk, 'esig) SigPrims \<Rightarrow> PqParams \<Rightarrow> 'pvk \<Rightarrow> bytes \<Rightarrow> bytes \<Rightarrow> bool"
where
  "pq_ok S p vk tbs bs =
     (case decode_pq_sig S p bs of None \<Rightarrow> False | Some s \<Rightarrow> sp_pq_verify S vk tbs s)"

definition ed_ok :: "('pvk, 'psig, 'evk, 'esig) SigPrims \<Rightarrow> 'evk \<Rightarrow> bytes \<Rightarrow> bytes \<Rightarrow> bool" where
  "ed_ok S vk tbs bs =
     (case sp_ed_sig_from_slice S bs of None \<Rightarrow> False | Some s \<Rightarrow> sp_ed_verify_strict S vk tbs s)"

definition hybrid_verify ::
  "('pvk, 'psig, 'evk, 'esig) SigPrims \<Rightarrow> PqParams \<Rightarrow> ('pvk, 'evk) HybridVerifyingKey \<Rightarrow>
   DomainCtx \<Rightarrow> bytes \<Rightarrow> bytes \<Rightarrow> (CryptoError, unit) result"
where
  "hybrid_verify S p vk ctx msg sig =
     bind_ok (split_hybrid sig) (\<lambda>(pq_bytes, ed_bytes).
     let tbs = hybrid_tbs (sp_sha256 S) ctx msg
     in case (pq_ok S p (hvk_pq vk) tbs pq_bytes, ed_ok S (hvk_ed vk) tbs ed_bytes) of
          (True, True) \<Rightarrow> Inr ()
        | (True, False) \<Rightarrow> Inl HybridStripDetected
        | (False, True) \<Rightarrow> Inl HybridStripDetected
        | (False, False) \<Rightarrow> Inl Invalid)"

definition hybrid_encode_vk ::
  "('pvk, 'psig, 'evk, 'esig) SigPrims \<Rightarrow> ('pvk, 'evk) HybridVerifyingKey \<Rightarrow> bytes"
where
  "hybrid_encode_vk S vk = sp_pq_vk_encode S (hvk_pq vk) @ sp_ed_vk_bytes S (hvk_ed vk)"

definition hybrid_decode_vk ::
  "('pvk, 'psig, 'evk, 'esig) SigPrims \<Rightarrow> PqParams \<Rightarrow> bytes \<Rightarrow>
   (CryptoError, ('pvk, 'evk) HybridVerifyingKey) result"
where
  "hybrid_decode_vk S p bs =
     (if length bs \<noteq> pq_vk_len p + ED_VK_LEN then Inl BadLength else
      let pq_raw = take (pq_vk_len p) bs; ed_raw = drop (pq_vk_len p) bs in
      bind_ok (ok_or (sp_ed_vk_from_bytes S ed_raw) Invalid) (\<lambda>ed.
      Inr \<lparr>hvk_pq = sp_pq_vk_decode S pq_raw, hvk_ed = ed\<rparr>))"

definition hybrid_encode_sk :: "HybridSigningKey \<Rightarrow> bytes" where
  "hybrid_encode_sk sk = hsk_pq_seed sk @ hsk_ed_seed sk"

definition hybrid_decode_sk :: "bytes \<Rightarrow> (CryptoError, HybridSigningKey) result" where
  "hybrid_decode_sk bs =
     (if length bs \<noteq> PQ_SK_SEED_LEN + ED_SK_LEN then Inl BadLength
      else Inr \<lparr>hsk_pq_seed = take PQ_SK_SEED_LEN bs, hsk_ed_seed = drop PQ_SK_SEED_LEN bs\<rparr>)"

text \<open>The fast path signs the same message with Ed25519 alone.\<close>

definition fast_sign ::
  "('pvk, 'psig, 'evk, 'esig) SigPrims \<Rightarrow> bytes \<Rightarrow> DomainCtx \<Rightarrow> bytes \<Rightarrow> (CryptoError, bytes) result"
where
  "fast_sign S sk ctx msg = Inr (sp_ed_sign S sk (hybrid_tbs (sp_sha256 S) ctx msg))"

definition fast_verify ::
  "('pvk, 'psig, 'evk, 'esig) SigPrims \<Rightarrow> 'evk \<Rightarrow> DomainCtx \<Rightarrow> bytes \<Rightarrow> bytes \<Rightarrow> (CryptoError, unit) result"
where
  "fast_verify S vk ctx msg sig =
     (let tbs = hybrid_tbs (sp_sha256 S) ctx msg in
      bind_ok (ok_or (sp_ed_sig_from_slice S sig) BadLength) (\<lambda>s.
      if sp_ed_verify_strict S vk tbs s then Inr () else Inl Invalid))"

definition fast_decode_vk :: "('pvk, 'psig, 'evk, 'esig) SigPrims \<Rightarrow> bytes \<Rightarrow> (CryptoError, 'evk) result" where
  "fast_decode_vk S bs =
     (if length bs \<noteq> ED_VK_LEN then Inl BadLength else ok_or (sp_ed_vk_from_bytes S bs) Invalid)"

definition fast_decode_sk :: "bytes \<Rightarrow> (CryptoError, bytes) result" where
  "fast_decode_sk bs = (if length bs \<noteq> ED_SK_LEN then Inl BadLength else Inr bs)"

text \<open>The slot a signature fills, as the protocol layers use it.\<close>

record ('sk, 'vk) SignatureScheme =
  sig_sign :: "'sk \<Rightarrow> DomainCtx \<Rightarrow> bytes \<Rightarrow> (CryptoError, bytes) result"
  sig_verify :: "'vk \<Rightarrow> DomainCtx \<Rightarrow> bytes \<Rightarrow> bytes \<Rightarrow> (CryptoError, unit) result"
  sig_encode_vk :: "'vk \<Rightarrow> bytes"
  sig_decode_vk :: "bytes \<Rightarrow> (CryptoError, 'vk) result"

definition hybrid_scheme ::
  "('pvk, 'psig, 'evk, 'esig) SigPrims \<Rightarrow> PqParams \<Rightarrow>
   (HybridSigningKey, ('pvk, 'evk) HybridVerifyingKey) SignatureScheme"
where
  "hybrid_scheme S p =
     \<lparr>sig_sign = hybrid_sign S, sig_verify = hybrid_verify S p,
      sig_encode_vk = hybrid_encode_vk S, sig_decode_vk = hybrid_decode_vk S p\<rparr>"

definition fast_scheme :: "('pvk, 'psig, 'evk, 'esig) SigPrims \<Rightarrow> (bytes, 'evk) SignatureScheme" where
  "fast_scheme S =
     \<lparr>sig_sign = fast_sign S, sig_verify = fast_verify S,
      sig_encode_vk = sp_ed_vk_bytes S, sig_decode_vk = fast_decode_vk S\<rparr>"

section \<open>Length prefixes are unambiguous\<close>

lemma prefixed_inject:
  assumes "prefixed k a @ x = prefixed k b @ y" "length a < 256 ^ k" "length b < 256 ^ k"
  shows "a = b \<and> x = y"
proof -
  have "to_be_bytes k (length a) = to_be_bytes k (length b)" "a @ x = b @ y"
    using assms(1) by (auto simp: prefixed_def append_eq_append_conv)
  moreover from this(1) have "length a = length b"
    using assms(2,3) by (metis from_to_be_bytes)
  ultimately show ?thesis by simp
qed

lemma prefixed_parts_inject:
  assumes "concat (map (prefixed k) ps) = concat (map (prefixed k) qs)" "0 < k"
    and "list_all (\<lambda>p. length p < 256 ^ k) ps" "list_all (\<lambda>p. length p < 256 ^ k) qs"
  shows "ps = qs"
  using assms
proof (induction ps arbitrary: qs)
  case Nil
  then show ?case by (cases qs) (auto simp: prefixed_def dest: arg_cong [where f = length])
next
  case (Cons p ps)
  show ?case
  proof (cases qs)
    case Nil
    with Cons.prems show ?thesis by (auto simp: prefixed_def dest: arg_cong [where f = length])
  next
    case (Cons q qs')
    with Cons.prems have "p = q \<and> concat (map (prefixed k) ps) = concat (map (prefixed k) qs')"
      by (intro prefixed_inject [of k]) simp_all
    with Cons Cons.prems Cons.IH show ?thesis by simp
  qed
qed

lemma info_fold:
  "try_fold info_step acc parts =
     (if list_all (\<lambda>p. length p \<le> u32_max) parts then Inr (acc @ concat (map (prefixed 4) parts))
      else Inl OutputTooLong)"
  by (induction parts arbitrary: acc) (auto simp: info_step_def)

lemma u32_bytes: "n \<le> u32_max \<longleftrightarrow> n < 256 ^ 4"
  by (auto simp: u32_max_def)

text \<open>The derived bytes are a function of the list of parts, and of nothing less.\<close>

lemma expand_parts_info:
  "expand_parts K prk parts n =
     (if list_all (\<lambda>p. length p \<le> u32_max) parts
      then kdf_expand K prk (concat (map (prefixed 4) parts)) n else Inl OutputTooLong)"
  by (simp add: expand_parts_def info_fold)

lemma info_inject:
  assumes "list_all (\<lambda>p. length p \<le> u32_max) ps" "list_all (\<lambda>p. length p \<le> u32_max) qs"
    and "concat (map (prefixed 4) ps) = concat (map (prefixed 4) qs)"
  shows "ps = qs"
  using assms by (intro prefixed_parts_inject [of 4]) (simp_all add: u32_bytes)

section \<open>Domain contexts are unambiguous\<close>

lemma ctx_name_nul_free: "0 \<notin> set (str_bytes (ctx_name k))"
proof -
  have "list_all (\<lambda>k. 0 \<notin> set (str_bytes (ctx_name k))) artifact_kind_all" by code_simp
  then show ?thesis by (auto simp: list_all_iff artifact_kind_all_complete)
qed

lemma takeWhile_nul: "0 \<notin> set a \<Longrightarrow> takeWhile (\<lambda>b. b \<noteq> 0) (a @ (0::u8) # x) = a"
  by (induction a) auto

lemma nul_split:
  assumes "(0::u8) \<notin> set a" "0 \<notin> set b" "a @ 0 # x = b @ 0 # y"
  shows "a = b \<and> x = y"
proof -
  have "a = b" using takeWhile_nul [OF assms(1), of x] takeWhile_nul [OF assms(2), of y] assms(3) by simp
  with assms(3) show ?thesis by simp
qed

lemma dc_to_bytes_inject:
  assumes "length (dc_suite_id c) = 4" "length (dc_suite_id c') = 4" "dc_to_bytes c = dc_to_bytes c'"
  shows "c = c'"
proof -
  from assms(3) have "str_bytes (ctx_name (dc_kind c)) @ 0 # dc_suite_id c @ str_bytes (dc_product_id c) =
      str_bytes (ctx_name (dc_kind c')) @ 0 # dc_suite_id c' @ str_bytes (dc_product_id c')"
    by (simp add: dc_to_bytes_def)
  then have "str_bytes (ctx_name (dc_kind c)) = str_bytes (ctx_name (dc_kind c')) \<and>
      dc_suite_id c @ str_bytes (dc_product_id c) = dc_suite_id c' @ str_bytes (dc_product_id c')"
    by (intro nul_split) (simp_all add: ctx_name_nul_free)
  with assms(1,2) show ?thesis by (simp add: append_eq_append_conv)
qed

lemma dc_encoded_len: "length (dc_suite_id c) = 4 \<Longrightarrow> length (dc_to_bytes c) = dc_encoded_len c"
  by (simp add: dc_to_bytes_def dc_encoded_len_def SUITE_ID_LEN_def)

lemma hybrid_tbs_inject:
  assumes "hybrid_tbs h c m = hybrid_tbs h c' m'"
    and "length (dc_suite_id c) = 4" "length (dc_suite_id c') = 4"
    and "length (dc_to_bytes c) \<le> u32_max" "length (dc_to_bytes c') \<le> u32_max"
  shows "c = c' \<and> h m = h m'"
proof -
  have "dc_to_bytes c = dc_to_bytes c' \<and> h m = h m'"
    using assms by (intro prefixed_inject [of 4]) (simp_all add: hybrid_tbs_def u32_bytes)
  with assms dc_to_bytes_inject show ?thesis by blast
qed

section \<open>The hybrid signature\<close>

lemma to_from_be_bytes: "to_be_bytes (length bs) (from_be_bytes bs) = bs"
proof (induction bs rule: rev_induct)
  case (snoc b bs)
  let ?n = "from_be_bytes bs * 256 + unat b"
  have b: "unat b < 256" using unsigned_less [of b, where 'a = nat] by simp
  then have "unat (word_of_nat ?n :: u8) = unat b" by (simp only: unat_byte) simp
  then have "word_of_nat ?n = b" by (rule unsigned_word_eqI)
  moreover have "?n div 256 = from_be_bytes bs" using b by simp
  ultimately show ?case using snoc by (simp only: from_be_bytes_snoc length_append list.size to_be_bytes.simps add_Suc_right add_0_right)
qed simp

lemma read_prefixed_iff:
  "read_prefixed b = Some (x, rest) \<longleftrightarrow> b = prefixed 4 x @ rest \<and> length x \<le> u32_max"
proof
  assume r: "read_prefixed b = Some (x, rest)"
  let ?len = "from_be_bytes (take 4 b)"
  have len: "length (take 4 b) = 4" and x: "x = take ?len (drop 4 b)" "rest = drop ?len (drop 4 b)"
    and enough: "\<not> length (drop 4 b) < ?len"
    using r by (auto simp: read_prefixed_def Let_def split: if_splits)
  have "?len < 256 ^ 4" using from_be_bytes_bound [of "take 4 b"] len by simp
  moreover have "length x = ?len" using x enough by simp
  moreover have "to_be_bytes 4 ?len = take 4 b" using to_from_be_bytes [of "take 4 b"] len by simp
  moreover have "b = take 4 b @ x @ rest" unfolding x by (metis append_take_drop_id)
  ultimately show "b = prefixed 4 x @ rest \<and> length x \<le> u32_max"
    by (simp add: prefixed_def u32_bytes)
next
  assume "b = prefixed 4 x @ rest \<and> length x \<le> u32_max"
  then show "read_prefixed b = Some (x, rest)"
    by (simp add: read_prefixed_def prefixed_def u32_bytes from_to_be_bytes)
qed

lemma split_hybrid_iff:
  "split_hybrid sig = Inr (pq, ed) \<longleftrightarrow>
   sig = prefixed 4 pq @ prefixed 4 ed \<and> length pq \<le> u32_max \<and> length ed \<le> u32_max"
proof -
  have "split_hybrid sig = Inr (pq, ed) \<longleftrightarrow>
      (\<exists>rest. read_prefixed sig = Some (pq, rest) \<and> read_prefixed rest = Some (ed, []))"
    by (auto simp: split_hybrid_def split: option.splits if_splits)
  also have "\<dots> \<longleftrightarrow> sig = prefixed 4 pq @ prefixed 4 ed \<and> length pq \<le> u32_max \<and> length ed \<le> u32_max"
    by (auto simp: read_prefixed_iff)
  finally show ?thesis .
qed

lemma hybrid_verify_split:
  assumes "split_hybrid sig = Inr (pq, ed)"
  shows "hybrid_verify S p vk ctx msg sig =
    (if pq_ok S p (hvk_pq vk) (hybrid_tbs (sp_sha256 S) ctx msg) pq
     then if ed_ok S (hvk_ed vk) (hybrid_tbs (sp_sha256 S) ctx msg) ed then Inr () else Inl HybridStripDetected
     else if ed_ok S (hvk_ed vk) (hybrid_tbs (sp_sha256 S) ctx msg) ed then Inl HybridStripDetected else Inl Invalid)"
  using assms by (simp add: hybrid_verify_def Let_def)

lemma hybrid_verify_iff:
  "hybrid_verify S p vk ctx msg sig = Inr () \<longleftrightarrow>
   (\<exists>pq ed. sig = prefixed 4 pq @ prefixed 4 ed \<and> length pq \<le> u32_max \<and> length ed \<le> u32_max \<and>
      pq_ok S p (hvk_pq vk) (hybrid_tbs (sp_sha256 S) ctx msg) pq \<and>
      ed_ok S (hvk_ed vk) (hybrid_tbs (sp_sha256 S) ctx msg) ed)"
proof -
  have "hybrid_verify S p vk ctx msg sig = Inr () \<longleftrightarrow>
    (\<exists>pq ed. split_hybrid sig = Inr (pq, ed) \<and>
      pq_ok S p (hvk_pq vk) (hybrid_tbs (sp_sha256 S) ctx msg) pq \<and>
      ed_ok S (hvk_ed vk) (hybrid_tbs (sp_sha256 S) ctx msg) ed)"
    by (cases "split_hybrid sig") (auto simp: hybrid_verify_def Let_def split: bool.splits)
  then show ?thesis by (simp only: split_hybrid_iff conj_assoc)
qed

text \<open>
  What the packages document of themselves: the key pair of a seed verifies the seed's own
  signatures, whose encodings have the published lengths.
\<close>

definition signs_correctly :: "('pvk, 'psig, 'evk, 'esig) SigPrims \<Rightarrow> PqParams \<Rightarrow> bool" where
  "signs_correctly S p \<longleftrightarrow>
     (\<forall>seed tbs sig. sp_pq_sign S seed tbs = Some sig \<longrightarrow>
        length sig = pq_sig_len p \<and>
        (\<exists>s. sp_pq_sig_decode S sig = Some s \<and> sp_pq_verify S (sp_pq_key S seed) tbs s)) \<and>
     (\<forall>seed tbs. length (sp_ed_sign S seed tbs) = ED_SIG_LEN \<and>
        (\<exists>s. sp_ed_sig_from_slice S (sp_ed_sign S seed tbs) = Some s \<and>
             sp_ed_verify_strict S (sp_ed_key S seed) tbs s))"

lemma hybrid_sign_verify:
  assumes "signs_correctly S p" "pq_sig_len p \<le> u32_max" "hybrid_sign S sk ctx msg = Inr sig"
  shows "hybrid_verify S p (hybrid_verifying_key S sk) ctx msg sig = Inr ()"
proof -
  let ?tbs = "hybrid_tbs (sp_sha256 S) ctx msg"
  from assms(3) obtain pq where pq: "sp_pq_sign S (hsk_pq_seed sk) ?tbs = Some pq"
    and sig: "sig = prefixed 4 pq @ prefixed 4 (sp_ed_sign S (hsk_ed_seed sk) ?tbs)"
    by (auto simp: hybrid_sign_def Let_def bind_ok_Inr_iff)
  from assms(1) pq have "length pq = pq_sig_len p \<and> pq_ok S p (sp_pq_key S (hsk_pq_seed sk)) ?tbs pq"
    by (fastforce simp: signs_correctly_def pq_ok_def decode_pq_sig_def)
  moreover from assms(1) have "length (sp_ed_sign S (hsk_ed_seed sk) ?tbs) = ED_SIG_LEN \<and>
      ed_ok S (sp_ed_key S (hsk_ed_seed sk)) ?tbs (sp_ed_sign S (hsk_ed_seed sk) ?tbs)"
    by (auto simp: signs_correctly_def ed_ok_def split: option.splits) (metis option.inject option.distinct(1))+
  ultimately show ?thesis
    unfolding hybrid_verify_iff using assms(2) sig
    by (intro exI [of _ pq] exI [of _ "sp_ed_sign S (hsk_ed_seed sk) ?tbs"])
      (simp add: hybrid_verifying_key_def ED_SIG_LEN_def u32_max_def)
qed

interpretation hybrid_sk: codec hybrid_encode_sk "\<lambda>bs. result_ok (hybrid_decode_sk bs)"
  "\<lambda>sk. length (hsk_pq_seed sk) = PQ_SK_SEED_LEN \<and> length (hsk_ed_seed sk) = ED_SK_LEN"
  by unfold_locales (simp add: hybrid_encode_sk_def hybrid_decode_sk_def)

section \<open>Sealing carries its nonce\<close>

text \<open>A scheme opens what it sealed, and its ciphertexts carry the tag.\<close>

definition aead_correct :: "AeadScheme \<Rightarrow> bool" where
  "aead_correct A \<longleftrightarrow>
     (\<forall>key nonce aad pt ct. aead_seal A key nonce aad pt = Inr ct \<longrightarrow>
        length ct = length pt + aead_tag_len A \<and> aead_open A key nonce aad ct = Inr pt)"

lemma open_sealed:
  assumes "aead_correct A" "length (rng (aead_nonce_len A)) = aead_nonce_len A"
    and "seal_with_nonce A key aad pt rng = Inr blob"
  shows "open_with_nonce A key aad blob = Inr pt"
    and "length blob = aead_nonce_len A + length pt + aead_tag_len A"
proof -
  from assms(3) obtain ct where ct: "aead_seal A key (rng (aead_nonce_len A)) aad pt = Inr ct"
    and blob: "blob = rng (aead_nonce_len A) @ ct"
    by (auto simp: seal_with_nonce_def random_nonce_def bind_ok_Inr_iff split: if_splits)
  from assms(1) ct have "length ct = length pt + aead_tag_len A"
    "aead_open A key (rng (aead_nonce_len A)) aad ct = Inr pt"
    by (auto simp: aead_correct_def)
  with assms(2) blob show "open_with_nonce A key aad blob = Inr pt"
    "length blob = aead_nonce_len A + length pt + aead_tag_len A"
    by (simp_all add: open_with_nonce_def)
qed

lemma xchacha_correct:
  assumes "\<And>key nonce aad pt ct. encrypt key nonce aad pt = Some ct \<Longrightarrow>
      length ct = length pt + 16 \<and> decrypt key nonce aad ct = Some pt"
  shows "aead_correct (xchacha20poly1305 encrypt decrypt)"
  using assms by (auto simp: aead_correct_def xchacha20poly1305_def split: if_splits)

section \<open>Properties\<close>

text \<open>A toy instance of the primitives: a signature repeats the last byte of its message.\<close>

definition toy_prims :: "(unit, u8, unit, u8) SigPrims" where
  "toy_prims =
     \<lparr>sp_sha256 = \<lambda>m. replicate 32 (word_of_nat (length m)),
      sp_pq_sign = \<lambda>seed m. Some (replicate 2420 (last m)),
      sp_pq_key = \<lambda>_. (), sp_pq_sig_decode = \<lambda>b. Some (last b),
      sp_pq_verify = \<lambda>_ m s. s = last m, sp_pq_vk_encode = \<lambda>_. replicate 1312 0,
      sp_pq_vk_decode = \<lambda>_. (), sp_ed_sign = \<lambda>seed m. replicate 64 (last m),
      sp_ed_key = \<lambda>_. (), sp_ed_sig_from_slice = \<lambda>b. if length b = 64 then Some (last b) else None,
      sp_ed_verify_strict = \<lambda>_ m s. s = last m, sp_ed_vk_bytes = \<lambda>_. replicate 32 0,
      sp_ed_vk_from_bytes = \<lambda>_. Some ()\<rparr>"

lemma toy_signs_correctly: "signs_correctly toy_prims ml_dsa_44"
  by (simp add: signs_correctly_def toy_prims_def ml_dsa_44_def ED_SIG_LEN_def)

text \<open>
  C12. A hybrid signature is both signatures or nothing: verification succeeds exactly when the
  bytes are two length-prefixed components and each verifies over the same message; with one
  of them alone it reports stripping.  What is signed determines the artifact kind, the suite,
  the product and the digest of the body, so a signature for one context is none for another;
  and the signer's own signatures verify.
\<close>

theorem hybrid_signature_sound:
  assumes "signs_correctly S p" "pq_sig_len p \<le> u32_max"
    and "length (dc_suite_id c) = 4" "length (dc_suite_id c') = 4"
    and "length (dc_product_id c) < 2 ^ 31" "length (dc_product_id c') < 2 ^ 31"
  shows "(hybrid_verify S p vk c msg sig = Inr () \<longleftrightarrow>
      (\<exists>pq ed. split_hybrid sig = Inr (pq, ed) \<and>
         pq_ok S p (hvk_pq vk) (hybrid_tbs (sp_sha256 S) c msg) pq \<and>
         ed_ok S (hvk_ed vk) (hybrid_tbs (sp_sha256 S) c msg) ed)) \<and>
    (\<forall>pq ed. split_hybrid sig = Inr (pq, ed) \<longrightarrow>
      (hybrid_verify S p vk c msg sig = Inl HybridStripDetected \<longleftrightarrow>
         pq_ok S p (hvk_pq vk) (hybrid_tbs (sp_sha256 S) c msg) pq \<noteq>
         ed_ok S (hvk_ed vk) (hybrid_tbs (sp_sha256 S) c msg) ed)) \<and>
    (hybrid_tbs (sp_sha256 S) c msg = hybrid_tbs (sp_sha256 S) c' msg' \<longrightarrow>
      c = c' \<and> sp_sha256 S msg = sp_sha256 S msg') \<and>
    (hybrid_sign S sk c msg = Inr sig \<longrightarrow> hybrid_verify S p (hybrid_verifying_key S sk) c msg sig = Inr ())"
proof -
  have short: "length (dc_to_bytes x) \<le> u32_max" if "length (dc_suite_id x) = 4" "length (dc_product_id x) < 2 ^ 31" for x
  proof -
    have "list_all (\<lambda>k. length (ctx_name k) \<le> 20) artifact_kind_all" by code_simp
    then have "length (ctx_name (dc_kind x)) \<le> 20" by (auto simp: list_all_iff artifact_kind_all_complete)
    with that show ?thesis by (simp add: dc_to_bytes_def DOMAIN_PREFIX_def u32_max_def)
  qed
  show ?thesis
    using hybrid_sign_verify [OF assms(1,2)] hybrid_tbs_inject [OF _ assms(3,4) short short] assms(3-6)
    by (auto simp: hybrid_verify_iff split_hybrid_iff hybrid_verify_split split: if_splits)
qed

theorem hybrid_signature_sound_witness:
  "let c = dc_new MachineCred [1, 0, 0, 1] ''acme''; c' = dc_new ArtifactKind.KillOrder [1, 0, 0, 1] ''acme'';
       sk = \<lparr>hsk_pq_seed = [], hsk_ed_seed = []\<rparr>
   in (\<exists>sig. hybrid_sign toy_prims sk c [7] = Inr sig \<and>
         hybrid_verify toy_prims ml_dsa_44 (hybrid_verifying_key toy_prims sk) c [7] sig = Inr ()) \<and>
      hybrid_tbs (sp_sha256 toy_prims) c [7] \<noteq> hybrid_tbs (sp_sha256 toy_prims) c' [7]"
proof -
  let ?c = "dc_new MachineCred [1, 0, 0, 1] ''acme''" and ?c' = "dc_new ArtifactKind.KillOrder [1, 0, 0, 1] ''acme''"
  let ?sk = "\<lparr>hsk_pq_seed = [], hsk_ed_seed = []\<rparr>"
  have "\<exists>sig. hybrid_sign toy_prims ?sk ?c [7] = Inr sig"
    by (simp add: hybrid_sign_def toy_prims_def Let_def)
  then obtain sig where sig: "hybrid_sign toy_prims ?sk ?c [7] = Inr sig" ..
  have "?c \<noteq> ?c'" by (simp add: dc_new_def)
  then show ?thesis
    using sig hybrid_signature_sound [OF toy_signs_correctly, of ?c ?c' "hybrid_verifying_key toy_prims ?sk" "[7]" sig "[7]" ?sk]
    by (auto simp: ml_dsa_44_def u32_max_def dc_new_def Let_def)
qed

end
