(* ===== verification/Trust_Chain.thy ===== *)
theory Trust_Chain
  imports Artifacts Crypto_Slots Interfaces
begin

text \<open>
  Signed envelopes (\<open>copylocker-proto/src/envelope.rs\<close>) and the chain from pinned root keys
  over epoch certificates to artifacts (\<open>chain.rs\<close>).  The signature scheme and the hash are
  arguments; nothing is assumed of them for soundness.
\<close>

section \<open>Artifacts as the signature layer sees them\<close>

record 'a Artifact =
  art_kind :: ArtifactKind
  art_to_canonical :: "'a \<Rightarrow> (CodecError, bytes) result"
  art_from_canonical :: "bytes \<Rightarrow> (CodecError, 'a) result"

definition artifact_impl ::
  "ArtifactKind \<Rightarrow> Limits \<Rightarrow> ('a \<Rightarrow> CborValue) \<Rightarrow> (CborValue \<Rightarrow> (ProtoError, 'a) result) \<Rightarrow> 'a Artifact"
where
  "artifact_impl kind limits to_value from_value =
     \<lparr>art_kind = kind, art_to_canonical = \<lambda>a. Inr (record_encode to_value a),
      art_from_canonical = from_canonical from_value limits\<rparr>"

definition epoch_cert_artifact :: "EpochCert Artifact" where
  "epoch_cert_artifact =
     artifact_impl ArtifactKind.EpochCert BULK_LIMITS epoch_cert_to_value epoch_cert_from_value"

definition machine_cred_artifact :: "MachineCredential Artifact" where
  "machine_cred_artifact =
     artifact_impl MachineCred BULK_LIMITS machine_cred_to_value machine_cred_from_value"

definition ticket_artifact :: "ValidationTicket Artifact" where
  "ticket_artifact = artifact_impl ArtifactKind.ValidationTicket CLIENT_LIMITS ticket_to_value ticket_from_value"

definition kill_order_artifact :: "KillOrder Artifact" where
  "kill_order_artifact =
     artifact_impl ArtifactKind.KillOrder CLIENT_LIMITS kill_order_to_value kill_order_from_value"

definition revocation_batch_artifact :: "RevocationBatch Artifact" where
  "revocation_batch_artifact =
     artifact_impl ArtifactKind.RevocationBatch BULK_LIMITS revocation_batch_to_value revocation_batch_from_value"

definition olk_artifact :: "OfflineLicenseKey Artifact" where
  "olk_artifact = artifact_impl ArtifactKind.OfflineLicenseKey CLIENT_LIMITS olk_to_value olk_from_value"

definition manifest_artifact :: "IntegrityManifest Artifact" where
  "manifest_artifact = artifact_impl ArtifactKind.IntegrityManifest BULK_LIMITS manifest_to_value manifest_from_value"

definition activation_response_artifact :: "ActivationResponse Artifact" where
  "activation_response_artifact =
     artifact_impl ArtifactKind.ActivationResponse BULK_LIMITS activation_response_to_value activation_response_from_value"

section \<open>Envelopes\<close>

record Envelope =
  env_proto_ver :: nat
  env_suite_id :: SuiteId
  env_kind :: ArtifactKind
  env_tbs :: bytes
  env_sig :: bytes
  env_epoch_ref :: "EpochId option"

definition env_seal ::
  "('sk, 'vk) SignatureScheme \<Rightarrow> 'a Artifact \<Rightarrow> 'a \<Rightarrow> SuiteId \<Rightarrow> string \<Rightarrow> EpochId option \<Rightarrow> 'sk \<Rightarrow>
   (ProtoError, Envelope) result"
where
  "env_seal S A a suite_id product_id epoch_ref sk =
     bind_ok (map_err Codec (art_to_canonical A a)) (\<lambda>tbs.
     let ctx = dc_new (art_kind A) suite_id product_id in
     bind_ok (map_err Crypto (sig_sign S sk ctx tbs)) (\<lambda>sig.
     Inr \<lparr>env_proto_ver = PROTO_VER, env_suite_id = suite_id, env_kind = art_kind A,
          env_tbs = tbs, env_sig = sig, env_epoch_ref = epoch_ref\<rparr>))"

definition env_open ::
  "('sk, 'vk) SignatureScheme \<Rightarrow> 'a Artifact \<Rightarrow> Envelope \<Rightarrow> string \<Rightarrow> 'vk \<Rightarrow> (ProtoError, 'a) result"
where
  "env_open S A env product_id vk =
     (if env_proto_ver env \<noteq> PROTO_VER then Inl (UnsupportedProtoVersion (env_proto_ver env))
      else if env_kind env \<noteq> art_kind A then Inl ArtifactKindMismatch
      else
        let ctx = dc_new (art_kind A) (env_suite_id env) product_id in
        bind_ok (map_err Crypto (sig_verify S vk ctx (env_tbs env) (env_sig env))) (\<lambda>_.
        map_err Codec (art_from_canonical A (env_tbs env))))"

definition peek_unverified :: "'a Artifact \<Rightarrow> Envelope \<Rightarrow> (ProtoError, 'a) result" where
  "peek_unverified A env =
     (if env_kind env \<noteq> art_kind A then Inl ArtifactKindMismatch
      else map_err Codec (art_from_canonical A (env_tbs env)))"

definition env_to_value :: "Envelope \<Rightarrow> CborValue" where
  "env_to_value e = put_all
     [(0, Some (Uint (env_proto_ver e))),
      (1, Some (Bytes (env_suite_id e))),
      (2, Some (Uint (artifact_kind_u8 (env_kind e)))),
      (3, Some (Bytes (env_tbs e))),
      (4, Some (Bytes (env_sig e))),
      (5, map_option Bytes (env_epoch_ref e))]"

definition env_encode :: "Envelope \<Rightarrow> bytes" where
  "env_encode e = to_canonical (env_to_value e)"

definition field_opt_fixed :: "nat \<Rightarrow> CborValue \<Rightarrow> u64 \<Rightarrow> (ProtoError, bytes option) result" where
  "field_opt_fixed n v k =
     (case field_opt v k of
        None \<Rightarrow> Inr None
      | Some _ \<Rightarrow> bind_ok (field_fixed n v k) (\<lambda>b. Inr (Some b)))"

definition env_from_value :: "CborValue \<Rightarrow> (ProtoError, Envelope) result" where
  "env_from_value v =
     bind_ok (field_u8 v 2) (\<lambda>kind_raw.
     bind_ok (field_u8 v 0) (\<lambda>proto_ver.
     bind_ok (field_suite_id v 1) (\<lambda>suite_id.
     bind_ok (ok_or (artifact_kind_from_u8 kind_raw) (Codec UnknownDiscriminant)) (\<lambda>kind.
     bind_ok (field_bytes v 3) (\<lambda>tbs.
     bind_ok (field_bytes v 4) (\<lambda>sig.
     bind_ok (field_opt_fixed 8 v 5) (\<lambda>epoch_ref.
     Inr \<lparr>env_proto_ver = proto_ver, env_suite_id = suite_id, env_kind = kind,
          env_tbs = tbs, env_sig = sig, env_epoch_ref = epoch_ref\<rparr>)))))))"

definition env_decode :: "bytes \<Rightarrow> (ProtoError, Envelope) result" where
  "env_decode bs =
     bind_ok (map_err Codec (decode_canonical bs BULK_LIMITS)) (\<lambda>v.
     if as_map v = None then Inl (Codec Malformed) else env_from_value v)"

section \<open>Roots and revocation knowledge\<close>

record PinnedRoots =
  root_current :: Digest
  root_next :: "Digest option"

definition roots_single :: "Digest \<Rightarrow> PinnedRoots" where
  "roots_single current = \<lparr>root_current = current, root_next = None\<rparr>"

definition roots_with_next :: "Digest \<Rightarrow> Digest \<Rightarrow> PinnedRoots" where
  "roots_with_next current nxt = \<lparr>root_current = current, root_next = Some nxt\<rparr>"

definition roots_accept :: "PinnedRoots \<Rightarrow> Digest \<Rightarrow> bool" where
  "roots_accept r d \<longleftrightarrow> root_current r = d \<or> root_next r = Some d"

record RevocationState =
  rs_epoch :: u64
  rs_revoked_epochs :: "EpochId list"

definition revocation_default :: RevocationState where
  "revocation_default = \<lparr>rs_epoch = 0, rs_revoked_epochs = []\<rparr>"

definition is_epoch_revoked :: "RevocationState \<Rightarrow> EpochId \<Rightarrow> bool" where
  "is_epoch_revoked r i \<longleftrightarrow> i \<in> set (rs_revoked_epochs r)"

definition push_revoked :: "EpochId list \<Rightarrow> EpochId \<Rightarrow> EpochId list" where
  "push_revoked known e = (if e \<in> set known then known else known @ [e])"

definition advance :: "u64 \<Rightarrow> EpochId list \<Rightarrow> RevocationState \<Rightarrow> (ProtoError, RevocationState) result" where
  "advance to_epoch revoked r =
     (if to_epoch < rs_epoch r then Inl MonotonicityViolation
      else Inr \<lparr>rs_epoch = to_epoch, rs_revoked_epochs = foldl push_revoked (rs_revoked_epochs r) revoked\<rparr>)"

section \<open>The chain\<close>

record 'vk VerifiedEpoch =
  ve_cert :: EpochCert
  ve_vk :: 'vk

record 'vk VerifiedChain =
  ch_roots :: PinnedRoots
  ch_epochs :: "'vk VerifiedEpoch list"
  ch_revocation :: RevocationState

definition chain_new :: "PinnedRoots \<Rightarrow> 'vk VerifiedChain" where
  "chain_new roots = \<lparr>ch_roots = roots, ch_epochs = [], ch_revocation = revocation_default\<rparr>"

definition add_epoch ::
  "('sk, 'vk) SignatureScheme \<Rightarrow> (bytes \<Rightarrow> Digest) \<Rightarrow> Envelope \<Rightarrow> string \<Rightarrow> 'vk \<Rightarrow> i64 \<Rightarrow>
   'vk VerifiedChain \<Rightarrow> (ProtoError, 'vk VerifiedChain) result"
where
  "add_epoch S hash env product_id root_vk now c =
     bind_ok (peek_unverified epoch_cert_artifact env) (\<lambda>cert.
     if \<not> roots_accept (ch_roots c) (ec_issuer_vk_digest cert) then Inl RootPinMismatch
     else if hash (sig_encode_vk S root_vk) \<noteq> ec_issuer_vk_digest cert then Inl RootPinMismatch
     else
     bind_ok (map_err Crypto (sig_verify S root_vk
       (dc_new ArtifactKind.EpochCert (ec_suite_id cert) product_id) (env_tbs env) (env_sig env))) (\<lambda>_.
     if \<not> tw_contains (ec_window cert) now then Inl OutsideValidityWindow
     else if is_epoch_revoked (ch_revocation c) (ec_epoch_id cert) then Inl ProtoError.EpochRevoked
     else
     bind_ok (map_err Crypto (sig_decode_vk S (ec_vk cert))) (\<lambda>vk.
     Inr (c\<lparr>ch_epochs := filter (\<lambda>e. ec_epoch_id (ve_cert e) \<noteq> ec_epoch_id cert) (ch_epochs c)
                          @ [\<lparr>ve_cert = cert, ve_vk = vk\<rparr>]\<rparr>))))"

definition chain_epoch :: "'vk VerifiedChain \<Rightarrow> EpochId \<Rightarrow> 'vk VerifiedEpoch option" where
  "chain_epoch c i = find (\<lambda>e. ec_epoch_id (ve_cert e) = i) (ch_epochs c)"

definition verify_artifact ::
  "('sk, 'vk) SignatureScheme \<Rightarrow> 'a Artifact \<Rightarrow> 'vk VerifiedChain \<Rightarrow> Envelope \<Rightarrow> string \<Rightarrow> i64 \<Rightarrow>
   (ProtoError, 'a) result"
where
  "verify_artifact S A c env product_id now =
     bind_ok (ok_or (env_epoch_ref env) UnknownEpoch) (\<lambda>epoch_id.
     bind_ok (ok_or (chain_epoch c epoch_id) UnknownEpoch) (\<lambda>epoch.
     if is_epoch_revoked (ch_revocation c) epoch_id then Inl ProtoError.EpochRevoked
     else if \<not> tw_contains (ec_window (ve_cert epoch)) now then Inl OutsideValidityWindow
     else env_open S A env product_id (ve_vk epoch)))"

definition verify_artifact_fast ::
  "('fsk, 'fvk) SignatureScheme \<Rightarrow> 'a Artifact \<Rightarrow> 'vk VerifiedChain \<Rightarrow> Envelope \<Rightarrow> string \<Rightarrow> i64 \<Rightarrow>
   (ProtoError, 'a) result"
where
  "verify_artifact_fast F A c env product_id now =
     bind_ok (ok_or (env_epoch_ref env) UnknownEpoch) (\<lambda>epoch_id.
     bind_ok (ok_or (chain_epoch c epoch_id) UnknownEpoch) (\<lambda>epoch.
     if is_epoch_revoked (ch_revocation c) epoch_id then Inl ProtoError.EpochRevoked
     else if \<not> tw_contains (ec_window (ve_cert epoch)) now then Inl OutsideValidityWindow
     else
     bind_ok (map_err (\<lambda>_. Crypto Invalid) (sig_decode_vk F (ec_vk_fast (ve_cert epoch)))) (\<lambda>vk.
     env_open F A env product_id vk)))"

section \<open>Envelopes on the wire\<close>

lemma opt_fixed_back:
  "pred_option (\<lambda>b. length b = n) b \<Longrightarrow> cbor_get v k = map_option Bytes b \<Longrightarrow> field_opt_fixed n v k = Inr b"
  by (cases b) (simp_all add: field_opt_fixed_def field_defs)

interpretation envelope: wire_record env_to_value env_from_value BULK_LIMITS
  "\<lambda>e. env_proto_ver e \<le> 255 \<and> length (env_suite_id e) = 4 \<and> pred_option (\<lambda>i. length i = 8) (env_epoch_ref e)"
proof
  fix e
  show "nodup (env_to_value e)"
    unfolding env_to_value_def by (rule nodup_fields) simp_all
  show "\<exists>m. as_map (canon (env_to_value e)) = Some m"
    by (simp add: env_to_value_def as_map_canon_fields)
  assume ok: "env_proto_ver e \<le> 255 \<and> length (env_suite_id e) = 4 \<and> pred_option (\<lambda>i. length i = 8) (env_epoch_ref e)"
  moreover have "artifact_kind_u8 (env_kind e) \<le> 255" by (cases "env_kind e") simp_all
  moreover have "field_opt_fixed 8 (canon (env_to_value e)) 5 = Inr (env_epoch_ref e)"
    using ok by (intro opt_fixed_back) (simp_all add: env_to_value_def get_canon_fields)
  ultimately show "env_from_value (canon (env_to_value e)) = Inr e"
    by (simp add: env_from_value_def read_defs env_to_value_def get_canon_fields artifact_kind_wire.dec_enc)
qed

lemma env_decode_record: "env_decode = record_decode env_from_value BULK_LIMITS"
  by (simp add: fun_eq_iff env_decode_def record_decode_def record_parse_def [abs_def])

lemma env_roundtrip: "envelope.fits e \<Longrightarrow> env_decode (env_encode e) = Inr e"
  using envelope.decode_encode [of e] by (simp add: env_decode_record env_encode_def record_encode_def)

section \<open>Opening\<close>

lemma env_open_iff:
  "env_open S A env product vk = Inr a \<longleftrightarrow>
   env_proto_ver env = PROTO_VER \<and> env_kind env = art_kind A \<and>
   sig_verify S vk (dc_new (art_kind A) (env_suite_id env) product) (env_tbs env) (env_sig env) = Inr () \<and>
   art_from_canonical A (env_tbs env) = Inr a"
  by (auto simp: env_open_def Let_def bind_ok_Inr_iff)

text \<open>A scheme verifies its own signatures; an artifact decodes its own encodings.\<close>

definition key_pair :: "('sk, 'vk) SignatureScheme \<Rightarrow> 'sk \<Rightarrow> 'vk \<Rightarrow> bool" where
  "key_pair S sk vk \<longleftrightarrow> (\<forall>ctx m sig. sig_sign S sk ctx m = Inr sig \<longrightarrow> sig_verify S vk ctx m sig = Inr ())"

lemma open_seal:
  assumes "key_pair S sk vk" "env_seal S A a suite product eref sk = Inr env"
    and "\<And>bs. art_to_canonical A a = Inr bs \<Longrightarrow> art_from_canonical A bs = Inr a"
  shows "env_open S A env product vk = Inr a"
  using assms by (auto simp: env_seal_def env_open_iff Let_def bind_ok_Inr_iff key_pair_def)

lemma hybrid_key_pair:
  assumes "signs_correctly S p" "pq_sig_len p \<le> u32_max"
  shows "key_pair (hybrid_scheme S p) sk (hybrid_verifying_key S sk)"
  using hybrid_sign_verify [OF assms] by (simp add: key_pair_def hybrid_scheme_def)

section \<open>What a chain can be trusted for\<close>

text \<open>
  An epoch is certified when its certificate is the body of bytes that verify, under the
  certificate's own domain, with a root key whose digest the certificate names and the client
  pins; its verifying key is the one in the certificate.
\<close>

definition certified ::
  "('sk, 'vk) SignatureScheme \<Rightarrow> (bytes \<Rightarrow> Digest) \<Rightarrow> PinnedRoots \<Rightarrow> 'vk VerifiedEpoch \<Rightarrow> bool"
where
  "certified S hash roots e \<longleftrightarrow>
     (\<exists>root_vk product tbs sig.
        roots_accept roots (hash (sig_encode_vk S root_vk)) \<and>
        ec_issuer_vk_digest (ve_cert e) = hash (sig_encode_vk S root_vk) \<and>
        sig_verify S root_vk (dc_new ArtifactKind.EpochCert (ec_suite_id (ve_cert e)) product) tbs sig = Inr () \<and>
        art_from_canonical epoch_cert_artifact tbs = Inr (ve_cert e) \<and>
        sig_decode_vk S (ec_vk (ve_cert e)) = Inr (ve_vk e))"

inductive chain_step ::
  "('sk, 'vk) SignatureScheme \<Rightarrow> (bytes \<Rightarrow> Digest) \<Rightarrow> 'vk VerifiedChain \<Rightarrow> 'vk VerifiedChain \<Rightarrow> bool"
  for S hash
where
  chain_add: "add_epoch S hash env product root_vk now c = Inr c' \<Longrightarrow> chain_step S hash c c'"
| chain_advance: "advance to_epoch revoked (ch_revocation c) = Inr r \<Longrightarrow>
    chain_step S hash c (c\<lparr>ch_revocation := r\<rparr>)"

inductive_cases chain_stepE: "chain_step S hash c c'"

definition chain_ok ::
  "('sk, 'vk) SignatureScheme \<Rightarrow> (bytes \<Rightarrow> Digest) \<Rightarrow> PinnedRoots \<Rightarrow> 'vk VerifiedChain \<Rightarrow> bool"
where
  "chain_ok S hash roots c \<longleftrightarrow> ch_roots c = roots \<and> list_all (certified S hash roots) (ch_epochs c) \<and>
     distinct (map (\<lambda>e. ec_epoch_id (ve_cert e)) (ch_epochs c))"

lemma add_epochE:
  assumes "add_epoch S hash env product root_vk now c = Inr c'"
  obtains cert vk where
    "c' = c\<lparr>ch_epochs := filter (\<lambda>e. ec_epoch_id (ve_cert e) \<noteq> ec_epoch_id cert) (ch_epochs c)
              @ [\<lparr>ve_cert = cert, ve_vk = vk\<rparr>]\<rparr>"
    "certified S hash (ch_roots c) \<lparr>ve_cert = cert, ve_vk = vk\<rparr>"
    "tw_contains (ec_window cert) now" "\<not> is_epoch_revoked (ch_revocation c) (ec_epoch_id cert)"
proof -
  obtain cert vk where c: "peek_unverified epoch_cert_artifact env = Inr cert"
    "roots_accept (ch_roots c) (ec_issuer_vk_digest cert)"
    "hash (sig_encode_vk S root_vk) = ec_issuer_vk_digest cert"
    "sig_verify S root_vk (dc_new ArtifactKind.EpochCert (ec_suite_id cert) product) (env_tbs env) (env_sig env) = Inr ()"
    "tw_contains (ec_window cert) now" "\<not> is_epoch_revoked (ch_revocation c) (ec_epoch_id cert)"
    "sig_decode_vk S (ec_vk cert) = Inr vk"
    "c' = c\<lparr>ch_epochs := filter (\<lambda>e. ec_epoch_id (ve_cert e) \<noteq> ec_epoch_id cert) (ch_epochs c)
              @ [\<lparr>ve_cert = cert, ve_vk = vk\<rparr>]\<rparr>"
    using assms by (auto simp: add_epoch_def bind_ok_Inr_iff split: if_splits)
  then have "certified S hash (ch_roots c) \<lparr>ve_cert = cert, ve_vk = vk\<rparr>"
    unfolding certified_def
    by (intro exI [of _ root_vk] exI [of _ product] exI [of _ "env_tbs env"] exI [of _ "env_sig env"])
      (auto simp: peek_unverified_def split: if_splits)
  with c that show thesis by blast
qed

interpretation trust_chain: safe_machine "\<lambda>c. c = chain_new roots" "chain_step S hash" "chain_ok S hash roots"
  for S :: "('sk, 'vk) SignatureScheme" and hash roots
proof
  fix c :: "'vk VerifiedChain" assume "c = chain_new roots"
  then show "chain_ok S hash roots c" by (simp add: chain_ok_def chain_new_def)
next
  fix c c' :: "'vk VerifiedChain" assume ok: "chain_ok S hash roots c" and "chain_step S hash c c'"
  from this(2) show "chain_ok S hash roots c'"
  proof (rule chain_stepE)
    fix env product root_vk now assume "add_epoch S hash env product root_vk now c = Inr c'"
    with ok show ?thesis
      by (elim add_epochE) (auto simp: chain_ok_def list_all_iff distinct_map_filter)
  next
    fix to_epoch revoked r assume "c' = c\<lparr>ch_revocation := r\<rparr>"
    with ok show ?thesis by (simp add: chain_ok_def)
  qed
qed

lemma chain_epoch_certified:
  assumes "chain_ok S hash roots c" "chain_epoch c i = Some e"
  shows "certified S hash roots e" "ec_epoch_id (ve_cert e) = i"
  using assms by (auto simp: chain_ok_def chain_epoch_def find_Some_iff list_all_iff)

section \<open>Revocation knowledge only grows\<close>

lemma set_push_revoked: "set (foldl push_revoked known es) = set known \<union> set es"
  by (induction es arbitrary: known) (auto simp: push_revoked_def)

lemma advance_grows:
  assumes "advance to_epoch revoked r = Inr r'"
  shows "rs_epoch r \<le> rs_epoch r'" "rs_epoch r' = to_epoch"
    "set (rs_revoked_epochs r') = set (rs_revoked_epochs r) \<union> set revoked"
  using assms by (auto simp: advance_def set_push_revoked split: if_splits)

lemma chain_step_grows:
  assumes "chain_step S hash c c'"
  shows "rs_epoch (ch_revocation c) \<le> rs_epoch (ch_revocation c') \<and>
    set (rs_revoked_epochs (ch_revocation c)) \<subseteq> set (rs_revoked_epochs (ch_revocation c'))"
  using assms by (rule chain_stepE) (auto elim!: add_epochE dest: advance_grows)

lemma chain_steps_grow:
  assumes "(chain_step S hash)\<^sup>*\<^sup>* c c'"
  shows "rs_epoch (ch_revocation c) \<le> rs_epoch (ch_revocation c') \<and>
    set (rs_revoked_epochs (ch_revocation c)) \<subseteq> set (rs_revoked_epochs (ch_revocation c'))"
  using assms by (induction rule: rtranclp_induct) (fastforce dest: chain_step_grows)+

section \<open>Properties\<close>

text \<open>A small deployment: a scheme whose signature is the key itself, one root and one epoch.\<close>

definition demo_scheme :: "(bytes, bytes) SignatureScheme" where
  "demo_scheme =
     \<lparr>sig_sign = \<lambda>sk _ _. Inr sk, sig_verify = \<lambda>vk _ _ s. if s = vk then Inr () else Inl Invalid,
      sig_encode_vk = \<lambda>vk. vk, sig_decode_vk = Inr\<rparr>"

definition demo_hash :: "bytes \<Rightarrow> Digest" where
  "demo_hash b = replicate 32 (hd b)"

definition demo_suite :: SuiteId where "demo_suite = [1, 0, 0, 1]"

definition demo_cert :: EpochCert where
  "demo_cert =
     \<lparr>ec_proto_ver = 1, ec_suite_id = demo_suite, ec_epoch_id = replicate 8 5, ec_vk = [7], ec_vk_fast = [8],
      ec_not_before = 10, ec_not_after = 90, ec_product_scope = None, ec_issuer_vk_digest = replicate 32 9\<rparr>"

definition demo_kill :: KillOrder where
  "demo_kill =
     \<lparr>ko_proto_ver = 1, ko_suite_id = demo_suite, ko_machine_id = replicate 16 2, ko_nonce_c_echo = replicate 32 3,
      ko_server_time = 50, ko_reason = RevokedLicense, ko_user_message = None, ko_revocation_epoch = 4\<rparr>"

definition demo_cert_env :: Envelope where
  "demo_cert_env =
     \<lparr>env_proto_ver = 1, env_suite_id = demo_suite, env_kind = ArtifactKind.EpochCert,
      env_tbs = record_encode epoch_cert_to_value demo_cert, env_sig = [9], env_epoch_ref = None\<rparr>"

definition demo_kill_env :: "bytes \<Rightarrow> Envelope" where
  "demo_kill_env sig =
     \<lparr>env_proto_ver = 1, env_suite_id = demo_suite, env_kind = ArtifactKind.KillOrder,
      env_tbs = record_encode kill_order_to_value demo_kill, env_sig = sig,
      env_epoch_ref = Some (replicate 8 5)\<rparr>"

definition demo_chain :: "bytes VerifiedChain" where
  "demo_chain =
     (chain_new (roots_single (replicate 32 9)))\<lparr>ch_epochs := [\<lparr>ve_cert = demo_cert, ve_vk = [7]\<rparr>]\<rparr>"

lemmas within_defs = put_all_entries entries_of_def BULK_LIMITS_def CLIENT_LIMITS_def MAX_CBOR_DEPTH_def
  u64_max_def cbor_int_def

lemma demo_cert_fits: "epoch_cert.fits demo_cert"
  by (simp add: epoch_cert_ok_def demo_cert_def demo_suite_def epoch_cert_to_value_def within_defs sat_defs)

lemma demo_kill_fits: "kill_order.fits demo_kill"
  by (simp add: kill_order_ok_def demo_kill_def demo_suite_def kill_order_to_value_def within_defs sat_defs)

lemma demo_bodies:
  "art_from_canonical epoch_cert_artifact (record_encode epoch_cert_to_value demo_cert) = Inr demo_cert"
  "art_from_canonical kill_order_artifact (record_encode kill_order_to_value demo_kill) = Inr demo_kill"
  using epoch_cert.from_canonical_encode [OF demo_cert_fits] kill_order.from_canonical_encode [OF demo_kill_fits]
  by (simp_all add: epoch_cert_artifact_def kill_order_artifact_def artifact_impl_def)

lemma demo_add:
  "add_epoch demo_scheme demo_hash demo_cert_env ''acme'' [9] 20 (chain_new (roots_single (replicate 32 9))) = Inr demo_chain"
proof -
  have "art_kind epoch_cert_artifact = ArtifactKind.EpochCert"
    by (simp add: epoch_cert_artifact_def artifact_impl_def)
  then have "peek_unverified epoch_cert_artifact demo_cert_env = Inr demo_cert"
    by (simp add: peek_unverified_def demo_cert_env_def demo_bodies)
  then show ?thesis
    by (simp add: add_epoch_def roots_accept_def chain_new_def roots_single_def demo_scheme_def demo_hash_def
        demo_cert_env_def ec_window_def tw_defs is_epoch_revoked_def revocation_default_def demo_chain_def
        demo_cert_def)
qed

lemma demo_chain_reachable:
  "reachable (\<lambda>c. c = chain_new (roots_single (replicate 32 9))) (chain_step demo_scheme demo_hash) demo_chain"
proof (rule reach_step [of _ _ "chain_new (roots_single (replicate 32 9))"])
  show "reachable (\<lambda>c. c = chain_new (roots_single (replicate 32 9))) (chain_step demo_scheme demo_hash)
      (chain_new (roots_single (replicate 32 9)))"
    by (rule reach_init) (rule refl)
  show "chain_step demo_scheme demo_hash (chain_new (roots_single (replicate 32 9))) demo_chain"
    by (rule chain_add [OF demo_add])
qed

text \<open>
  C1. Nothing is accepted outside the chain of trust: in every chain built by adding
  certificates and merging revocations, an accepted artifact carries a reference to an epoch
  that is certified by a pinned root, inside its validity window at the time of the check and
  not revoked, and the artifact is the decoding of exactly the bytes whose signature verified
  under that epoch's key (its fast key on the fast path), for this kind, suite and product.
\<close>

theorem accepted_artifacts_are_certified:
  assumes "reachable (\<lambda>c. c = chain_new roots) (chain_step S hash) c"
    and "verify_artifact S A c env product now = Inr a \<or> verify_artifact_fast F A c env product now = Inr a"
  shows "\<exists>e \<in> set (ch_epochs c). env_epoch_ref env = Some (ec_epoch_id (ve_cert e)) \<and>
    certified S hash roots e \<and> tw_contains (ec_window (ve_cert e)) now \<and>
    \<not> is_epoch_revoked (ch_revocation c) (ec_epoch_id (ve_cert e)) \<and>
    env_kind env = art_kind A \<and> art_from_canonical A (env_tbs env) = Inr a \<and>
    (sig_verify S (ve_vk e) (dc_new (art_kind A) (env_suite_id env) product) (env_tbs env) (env_sig env) = Inr () \<or>
     (\<exists>vk. sig_decode_vk F (ec_vk_fast (ve_cert e)) = Inr vk \<and>
        sig_verify F vk (dc_new (art_kind A) (env_suite_id env) product) (env_tbs env) (env_sig env) = Inr ()))"
proof -
  from assms(2) obtain i e where e: "env_epoch_ref env = Some i" "chain_epoch c i = Some e"
    "\<not> is_epoch_revoked (ch_revocation c) i" "tw_contains (ec_window (ve_cert e)) now"
    and o: "env_open S A env product (ve_vk e) = Inr a \<or>
      (\<exists>vk. sig_decode_vk F (ec_vk_fast (ve_cert e)) = Inr vk \<and> env_open F A env product vk = Inr a)"
    by (auto simp: verify_artifact_def verify_artifact_fast_def bind_ok_Inr_iff split: if_splits)
  moreover have "e \<in> set (ch_epochs c)" using e(2) by (auto simp: chain_epoch_def find_Some_iff)
  moreover have "certified S hash roots e" "ec_epoch_id (ve_cert e) = i"
    using chain_epoch_certified [OF trust_chain.reachable_inv [OF assms(1)] e(2)] .
  ultimately show ?thesis by (auto simp: env_open_iff)
qed

theorem accepted_artifacts_are_certified_witness:
  "verify_artifact demo_scheme kill_order_artifact demo_chain (demo_kill_env [7]) ''acme'' 20 = Inr demo_kill \<and>
   (\<exists>e \<in> set (ch_epochs demo_chain). certified demo_scheme demo_hash (roots_single (replicate 32 9)) e)"
proof -
  have v: "verify_artifact demo_scheme kill_order_artifact demo_chain (demo_kill_env [7]) ''acme'' 20 = Inr demo_kill"
    by (simp add: verify_artifact_def chain_epoch_def demo_chain_def chain_new_def demo_kill_env_def demo_cert_def
        is_epoch_revoked_def revocation_default_def ec_window_def tw_defs env_open_iff PROTO_VER_def demo_bodies)
      (simp add: kill_order_artifact_def artifact_impl_def demo_scheme_def)
  then show ?thesis
    using accepted_artifacts_are_certified [OF demo_chain_reachable, of kill_order_artifact "demo_kill_env [7]" "''acme''" 20
        demo_kill demo_scheme] by blast
qed

text \<open>
  C11. A revoked epoch is dead at once and for good: after a merged revocation names it, no
  further sequence of certificates and merges makes an artifact that refers to it acceptable
  on either path, and the revocation counter never goes back.
\<close>

theorem revoked_epoch_stays_dead:
  assumes "advance to_epoch revoked (ch_revocation c) = Inr r" "i \<in> set revoked"
    and "(chain_step S hash)\<^sup>*\<^sup>* (c\<lparr>ch_revocation := r\<rparr>) c'" "env_epoch_ref env = Some i"
  shows "verify_artifact S A c' env product now \<in> {Inl UnknownEpoch, Inl ProtoError.EpochRevoked} \<and>
    verify_artifact_fast F A c' env product now \<in> {Inl UnknownEpoch, Inl ProtoError.EpochRevoked} \<and>
    to_epoch \<le> rs_epoch (ch_revocation c')"
proof -
  have "i \<in> set (rs_revoked_epochs (ch_revocation c'))" "to_epoch \<le> rs_epoch (ch_revocation c')"
    using advance_grows [OF assms(1)] chain_steps_grow [OF assms(3)] assms(2) by auto
  with assms(4) show ?thesis
    by (cases "chain_epoch c' i") (simp_all add: verify_artifact_def verify_artifact_fast_def is_epoch_revoked_def)
qed

theorem revoked_epoch_stays_dead_witness:
  "verify_artifact demo_scheme kill_order_artifact
     (demo_chain\<lparr>ch_revocation := \<lparr>rs_epoch = 1, rs_revoked_epochs = [replicate 8 5]\<rparr>\<rparr>)
     (demo_kill_env [7]) ''acme'' 20 \<noteq> Inr demo_kill"
proof -
  have "advance 1 [replicate 8 5] (ch_revocation demo_chain) = Inr \<lparr>rs_epoch = 1, rs_revoked_epochs = [replicate 8 5]\<rparr>"
    by (simp add: advance_def demo_chain_def chain_new_def revocation_default_def push_revoked_def)
  moreover have "env_epoch_ref (demo_kill_env [7]) = Some (replicate 8 5)" by (simp add: demo_kill_env_def)
  ultimately show ?thesis
    using revoked_epoch_stays_dead [of 1 "[replicate 8 5]" demo_chain _ "replicate 8 5" demo_scheme demo_hash _
        "demo_kill_env [7]" kill_order_artifact "''acme''" 20] by fastforce
qed

end
