(* ===== verification/Client_Core.thy ===== *)
theory Client_Core
  imports Wire Interfaces
begin

text \<open>
  The client's domain core (\<open>copylocker-core\<close>): the two error families (\<open>error.rs\<close>), the
  clock guard (\<open>clock.rs\<close>) and the state machine that turns events into effects
  (\<open>state.rs\<close>).  The host supplies the wall clock, which may be set back at will.
\<close>

section \<open>Errors\<close>

datatype TransientError =
    Offline | Timeout | ServerError nat | RateLimited u32 | TransportFailure

fun transient_error_display :: "TransientError \<Rightarrow> string" where
  "transient_error_display Offline = ''offline''"
| "transient_error_display Timeout = ''request timed out''"
| "transient_error_display (ServerError c) = ''server error '' @ show_nat c"
| "transient_error_display (TransientError.RateLimited r) = ''rate limited, retry in '' @ show_nat r @ ''s''"
| "transient_error_display TransportFailure = ''transport failure''"

datatype FatalError =
    SignatureInvalid | ChainInvalid | EpochRevoked | NonceMismatch | MachineMismatch
  | RevocationRollback | CredentialCorrupt | Revoked KillReason | SecurityFloorRegression
  | IntegrityFailure

fun fatal_error_display :: "FatalError \<Rightarrow> string" where
  "fatal_error_display SignatureInvalid = ''signature invalid''"
| "fatal_error_display ChainInvalid = ''certificate chain invalid''"
| "fatal_error_display FatalError.EpochRevoked = ''signing epoch revoked''"
| "fatal_error_display FatalError.NonceMismatch = ''nonce echo mismatch''"
| "fatal_error_display FatalError.MachineMismatch = ''credential belongs to another device''"
| "fatal_error_display RevocationRollback = ''revocation state rolled back''"
| "fatal_error_display CredentialCorrupt = ''stored credential corrupt''"
| "fatal_error_display (FatalError.Revoked _) = ''credential revoked''"
| "fatal_error_display SecurityFloorRegression = ''security floor regression''"
| "fatal_error_display FatalError.IntegrityFailure = ''integrity check failed''"

fun fatal_from_proto :: "ProtoError \<Rightarrow> FatalError" where
  "fatal_from_proto RootPinMismatch = ChainInvalid"
| "fatal_from_proto UnknownEpoch = ChainInvalid"
| "fatal_from_proto OutsideValidityWindow = ChainInvalid"
| "fatal_from_proto ProtoError.EpochRevoked = FatalError.EpochRevoked"
| "fatal_from_proto ProtoError.NonceMismatch = FatalError.NonceMismatch"
| "fatal_from_proto ProtoError.MachineMismatch = FatalError.MachineMismatch"
| "fatal_from_proto MonotonicityViolation = RevocationRollback"
| "fatal_from_proto (Crypto _) = SignatureInvalid"
| "fatal_from_proto _ = CredentialCorrupt"

datatype CoreError = NoCredential | NotEntitled | DerivationFailed | AssetCorrupt | Fatal FatalError

fun core_error_display :: "CoreError \<Rightarrow> string" where
  "core_error_display NoCredential = ''no credential''"
| "core_error_display NotEntitled = ''not entitled''"
| "core_error_display DerivationFailed = ''key derivation failed''"
| "core_error_display AssetCorrupt = ''sealed asset is corrupt''"
| "core_error_display (Fatal e) = fatal_error_display e"

section \<open>The clock guard\<close>

datatype ClockVerdict = Ok | Rollback i64 | ImplausibleJump i64

definition SKEW_TOLERANCE_SECS :: i64 where "SKEW_TOLERANCE_SECS = 300"
definition FORWARD_JUMP_TOLERANCE_SECS :: i64 where "FORWARD_JUMP_TOLERANCE_SECS = 86400"
definition DEFAULT_ROLLBACK_THRESHOLD :: u32 where "DEFAULT_ROLLBACK_THRESHOLD = 3"

record ClockState =
  clk_last_seen_max :: i64
  clk_last_server_time :: i64
  clk_rollback_events :: u32

definition clock_new :: "i64 \<Rightarrow> ClockState" where
  "clock_new seed = \<lparr>clk_last_seen_max = seed, clk_last_server_time = seed, clk_rollback_events = 0\<rparr>"

definition clock_from_persisted :: "i64 \<Rightarrow> i64 \<Rightarrow> u32 \<Rightarrow> ClockState option" where
  "clock_from_persisted last_seen_max last_server_time rollback_events =
     (if last_server_time > last_seen_max then None
      else Some \<lparr>clk_last_seen_max = last_seen_max, clk_last_server_time = last_server_time,
                 clk_rollback_events = rollback_events\<rparr>)"

definition effective_now :: "ClockState \<Rightarrow> i64 \<Rightarrow> i64" where
  "effective_now c wall_clock =
     (if wall_clock > clk_last_seen_max c then wall_clock else clk_last_seen_max c)"

definition clock_check :: "ClockState \<Rightarrow> i64 \<Rightarrow> ClockVerdict \<times> ClockState" where
  "clock_check c wall_clock =
     (if sat_add wall_clock SKEW_TOLERANCE_SECS < clk_last_seen_max c
      then (Rollback (sat_sub (clk_last_seen_max c) wall_clock),
            c\<lparr>clk_rollback_events := sat_add_u32 (clk_rollback_events c) 1\<rparr>)
      else (ClockVerdict.Ok,
            if wall_clock > clk_last_seen_max c then c\<lparr>clk_last_seen_max := wall_clock\<rparr> else c))"

definition check_against_monotonic ::
  "ClockState \<Rightarrow> i64 \<Rightarrow> i64 \<Rightarrow> i64 \<Rightarrow> ClockVerdict \<times> ClockState"
where
  "check_against_monotonic c wall_clock monotonic_elapsed_secs session_start_wall =
     (let (verdict, c') = clock_check c wall_clock
      in if verdict \<noteq> ClockVerdict.Ok then (verdict, c')
         else let wall_elapsed = sat_sub wall_clock session_start_wall;
                  divergence = sat_sub wall_elapsed monotonic_elapsed_secs
              in if divergence > FORWARD_JUMP_TOLERANCE_SECS then (ImplausibleJump divergence, c')
                 else (ClockVerdict.Ok, c'))"

definition observe_server_time :: "ClockState \<Rightarrow> i64 \<Rightarrow> ClockState" where
  "observe_server_time c server_time =
     (let c1 = c\<lparr>clk_last_server_time := server_time\<rparr>
      in if server_time > clk_last_seen_max c1 then c1\<lparr>clk_last_seen_max := server_time\<rparr> else c1)"

definition clock_merge :: "ClockState \<Rightarrow> ClockState \<Rightarrow> ClockState" where
  "clock_merge c other =
     \<lparr>clk_last_seen_max =
        (if clk_last_seen_max other > clk_last_seen_max c then clk_last_seen_max other else clk_last_seen_max c),
      clk_last_server_time =
        (if clk_last_server_time other > clk_last_server_time c then clk_last_server_time other
         else clk_last_server_time c),
      clk_rollback_events = max (clk_rollback_events c) (clk_rollback_events other)\<rparr>"

definition exceeds_rollback_threshold :: "ClockState \<Rightarrow> u32 \<Rightarrow> bool" where
  "exceeds_rollback_threshold c threshold \<longleftrightarrow> clk_rollback_events c > threshold"

section \<open>Deadlines, events and effects\<close>

record Deadlines =
  ddl_refresh_after :: i64
  ddl_grace_deadline :: i64
  ddl_not_after :: i64

definition deadlines_default :: Deadlines where
  "deadlines_default = \<lparr>ddl_refresh_after = 0, ddl_grace_deadline = 0, ddl_not_after = 0\<rparr>"

definition refresh_due :: "Deadlines \<Rightarrow> i64 \<Rightarrow> bool" where
  "refresh_due d now \<longleftrightarrow> now \<ge> ddl_refresh_after d"

definition hard_expired :: "Deadlines \<Rightarrow> i64 \<Rightarrow> bool" where
  "hard_expired d now \<longleftrightarrow> ddl_not_after d \<noteq> 0 \<and> now \<ge> ddl_not_after d"

definition grace_exhausted :: "Deadlines \<Rightarrow> i64 \<Rightarrow> bool" where
  "grace_exhausted d now \<longleftrightarrow> now \<ge> ddl_grace_deadline d \<or> hard_expired d now"

datatype Event =
    Tick
  | NetworkAvailable
  | AppResumed (monotonic_gap_ms: u64)
  | CredentialLoaded
  | ActivationVerified
  | TicketVerified
  | TicketDenied Verdict
  | KillOrderVerified KillReason
  | NetworkFailed TransientError
  | VerificationFailed FatalError
  | UserDeactivate

datatype Effect =
    Persist bytes
  | SendValidation
  | WipeAll
  | StateChanged LicenseState StateReason
  | ScheduleWake i64

record CoreConfig =
  cfg_rollback_threshold :: u32
  cfg_min_validation_interval_secs :: i64

definition core_config_default :: CoreConfig where
  "core_config_default =
     \<lparr>cfg_rollback_threshold = DEFAULT_ROLLBACK_THRESHOLD, cfg_min_validation_interval_secs = 60\<rparr>"

record StateMachine =
  sm_state :: LicenseState
  sm_clock :: ClockState
  sm_deadlines :: Deadlines
  sm_config :: CoreConfig
  sm_last_validation_attempt :: i64
  sm_has_credential :: bool

definition sm_new :: "CoreConfig \<Rightarrow> i64 \<Rightarrow> StateMachine" where
  "sm_new config seed_time =
     \<lparr>sm_state = Unlicensed, sm_clock = clock_new seed_time, sm_deadlines = deadlines_default,
      sm_config = config, sm_last_validation_attempt = i64_min, sm_has_credential = False\<rparr>"

definition set_deadlines :: "Deadlines \<Rightarrow> StateMachine \<Rightarrow> StateMachine" where
  "set_deadlines d m = m\<lparr>sm_deadlines := d\<rparr>"

definition permits_key_derivation :: "StateMachine \<Rightarrow> bool" where
  "permits_key_derivation m \<longleftrightarrow> sm_has_credential m \<and> state_permits_key_derivation (sm_state m)"

definition should_opportunistically_validate :: "StateMachine \<Rightarrow> i64 \<Rightarrow> bool" where
  "should_opportunistically_validate m now \<longleftrightarrow>
     refresh_due (sm_deadlines m) now \<or>
     sat_sub now (sm_last_validation_attempt m) \<ge> cfg_min_validation_interval_secs (sm_config m)
       \<and> sm_state m \<noteq> LicenseState.Active"

definition note_validation_attempt :: "i64 \<Rightarrow> StateMachine \<Rightarrow> StateMachine" where
  "note_validation_attempt now m = m\<lparr>sm_last_validation_attempt := now\<rparr>"

section \<open>Transitions\<close>

type_synonym reaction = "Effect list \<times> StateMachine"

definition sm_transition :: "LicenseState \<Rightarrow> StateReason \<Rightarrow> StateMachine \<Rightarrow> reaction" where
  "sm_transition to reason m =
     (if sm_state m = to then ([], m) else ([StateChanged to reason], m\<lparr>sm_state := to\<rparr>))"

text \<open>\<open>effects.push\<close> after a transition.\<close>

definition push_effect :: "Effect \<Rightarrow> reaction \<Rightarrow> reaction" where
  "push_effect e r = (fst r @ [e], snd r)"

definition sm_activate :: "bool \<Rightarrow> StateMachine \<Rightarrow> reaction" where
  "sm_activate wake m =
     (let r = sm_transition LicenseState.Active Activated (m\<lparr>sm_has_credential := True\<rparr>)
      in if wake then push_effect (ScheduleWake (ddl_refresh_after (sm_deadlines m))) r else r)"

definition accept_ticket :: "StateMachine \<Rightarrow> reaction" where
  "accept_ticket m =
     push_effect (ScheduleWake (ddl_refresh_after (sm_deadlines m)))
       (sm_transition LicenseState.Active Validated m)"

definition deny_ticket :: "Verdict \<Rightarrow> StateMachine \<Rightarrow> reaction" where
  "deny_ticket verdict m =
     sm_transition Locked
       (case verdict of
          Verdict.Ok \<Rightarrow> Validated
        | Verdict.NeedsReactivation \<Rightarrow> ReactivationRequired
        | Verdict.VersionOutOfScope \<Rightarrow> StateReason.VersionOutOfScope) m"

definition sm_revoke :: "KillReason \<Rightarrow> StateMachine \<Rightarrow> reaction" where
  "sm_revoke reason m =
     ([WipeAll, StateChanged LicenseState.Revoked (StateReason.KillOrder reason)],
      m\<lparr>sm_has_credential := False, sm_state := LicenseState.Revoked\<rparr>)"

definition sm_tamper :: "StateMachine \<Rightarrow> reaction" where
  "sm_tamper m =
     ([WipeAll, StateChanged Tampered StateReason.IntegrityFailure],
      m\<lparr>sm_has_credential := False, sm_state := Tampered\<rparr>)"

definition sm_wipe :: "StateReason \<Rightarrow> StateMachine \<Rightarrow> reaction" where
  "sm_wipe reason m =
     ([WipeAll, StateChanged Unlicensed reason],
      m\<lparr>sm_has_credential := False, sm_state := Unlicensed\<rparr>)"

definition send_validation :: "i64 \<Rightarrow> StateMachine \<Rightarrow> reaction" where
  "send_validation now m = ([SendValidation], m\<lparr>sm_last_validation_attempt := now\<rparr>)"

definition lock_if_exhausted :: "i64 \<Rightarrow> StateMachine \<Rightarrow> reaction" where
  "lock_if_exhausted now m =
     (if grace_exhausted (sm_deadlines m) now then sm_transition Locked GraceExhausted m else ([], m))"

section \<open>Reactions, state by state\<close>

definition react_unlicensed :: "Event \<Rightarrow> StateMachine \<Rightarrow> reaction" where
  "react_unlicensed event m =
     (case event of
        CredentialLoaded \<Rightarrow> sm_activate True m
      | ActivationVerified \<Rightarrow> sm_activate True m
      | VerificationFailed _ \<Rightarrow> sm_transition Tampered StateReason.IntegrityFailure m
      | KillOrderVerified r \<Rightarrow> sm_revoke r m
      | _ \<Rightarrow> ([], m))"

definition react_activating :: "Event \<Rightarrow> StateMachine \<Rightarrow> reaction" where
  "react_activating event m =
     (case event of
        ActivationVerified \<Rightarrow> sm_activate True m
      | NetworkFailed _ \<Rightarrow> sm_transition Unlicensed NetworkUnavailable m
      | VerificationFailed _ \<Rightarrow> sm_transition Tampered StateReason.IntegrityFailure m
      | KillOrderVerified r \<Rightarrow> sm_revoke r m
      | UserDeactivate \<Rightarrow> sm_wipe UserRequested m
      | _ \<Rightarrow> ([], m))"

definition active_tick :: "i64 \<Rightarrow> StateMachine \<Rightarrow> reaction" where
  "active_tick now m =
     (if hard_expired (sm_deadlines m) now then sm_transition Locked CredentialExpired m
      else if refresh_due (sm_deadlines m) now then
        push_effect SendValidation
          (sm_transition NeedsRevalidation RefreshDue (m\<lparr>sm_last_validation_attempt := now\<rparr>))
      else ([], m))"

definition react_active :: "Event \<Rightarrow> i64 \<Rightarrow> StateMachine \<Rightarrow> reaction" where
  "react_active event now m =
     (case event of
        Tick \<Rightarrow> active_tick now m
      | AppResumed _ \<Rightarrow> active_tick now m
      | NetworkAvailable \<Rightarrow>
          if should_opportunistically_validate m now then send_validation now m else ([], m)
      | TicketVerified \<Rightarrow> accept_ticket m
      | TicketDenied v \<Rightarrow> deny_ticket v m
      | KillOrderVerified r \<Rightarrow> sm_revoke r m
      | VerificationFailed _ \<Rightarrow> sm_tamper m
      | UserDeactivate \<Rightarrow> sm_wipe UserRequested m
      | _ \<Rightarrow> ([], m))"

definition react_needs_revalidation :: "Event \<Rightarrow> i64 \<Rightarrow> StateMachine \<Rightarrow> reaction" where
  "react_needs_revalidation event now m =
     (case event of
        TicketVerified \<Rightarrow> accept_ticket m
      | TicketDenied v \<Rightarrow> deny_ticket v m
      | NetworkFailed _ \<Rightarrow>
          if grace_exhausted (sm_deadlines m) now then sm_transition Locked GraceExhausted m
          else push_effect (ScheduleWake (ddl_grace_deadline (sm_deadlines m)))
                 (sm_transition Grace NetworkUnavailable m)
      | Tick \<Rightarrow> lock_if_exhausted now m
      | AppResumed _ \<Rightarrow> lock_if_exhausted now m
      | NetworkAvailable \<Rightarrow> send_validation now m
      | KillOrderVerified r \<Rightarrow> sm_revoke r m
      | VerificationFailed _ \<Rightarrow> sm_tamper m
      | UserDeactivate \<Rightarrow> sm_wipe UserRequested m
      | _ \<Rightarrow> ([], m))"

definition react_grace :: "Event \<Rightarrow> i64 \<Rightarrow> StateMachine \<Rightarrow> reaction" where
  "react_grace event now m =
     (case event of
        TicketVerified \<Rightarrow> accept_ticket m
      | TicketDenied v \<Rightarrow> deny_ticket v m
      | Tick \<Rightarrow> lock_if_exhausted now m
      | AppResumed _ \<Rightarrow> lock_if_exhausted now m
      | NetworkAvailable \<Rightarrow> send_validation now m
      | KillOrderVerified r \<Rightarrow> sm_revoke r m
      | VerificationFailed _ \<Rightarrow> sm_tamper m
      | UserDeactivate \<Rightarrow> sm_wipe UserRequested m
      | _ \<Rightarrow> ([], m))"

definition react_locked :: "Event \<Rightarrow> i64 \<Rightarrow> StateMachine \<Rightarrow> reaction" where
  "react_locked event now m =
     (case event of
        TicketVerified \<Rightarrow> accept_ticket m
      | TicketDenied v \<Rightarrow> deny_ticket v m
      | NetworkAvailable \<Rightarrow> send_validation now m
      | KillOrderVerified r \<Rightarrow> sm_revoke r m
      | VerificationFailed _ \<Rightarrow> sm_tamper m
      | UserDeactivate \<Rightarrow> sm_wipe UserRequested m
      | _ \<Rightarrow> ([], m))"

text \<open>Revoked and tampered react alike.\<close>

definition react_terminal :: "Event \<Rightarrow> StateMachine \<Rightarrow> reaction" where
  "react_terminal event m = (case event of ActivationVerified \<Rightarrow> sm_activate False m | _ \<Rightarrow> ([], m))"

definition react :: "Event \<Rightarrow> i64 \<Rightarrow> StateMachine \<Rightarrow> reaction" where
  "react event now m =
     (case sm_state m of
        Unlicensed \<Rightarrow> react_unlicensed event m
      | Activating \<Rightarrow> react_activating event m
      | LicenseState.Active \<Rightarrow> react_active event now m
      | NeedsRevalidation \<Rightarrow> react_needs_revalidation event now m
      | Grace \<Rightarrow> react_grace event now m
      | Locked \<Rightarrow> react_locked event now m
      | LicenseState.Revoked \<Rightarrow> react_terminal event m
      | Tampered \<Rightarrow> react_terminal event m)"

definition time_driven :: "Event \<Rightarrow> bool" where
  "time_driven event \<longleftrightarrow> (case event of Tick \<Rightarrow> True | AppResumed _ \<Rightarrow> True | _ \<Rightarrow> False)"

definition handle :: "StateMachine \<Rightarrow> Event \<Rightarrow> i64 \<Rightarrow> reaction" where
  "handle m event wall_clock =
     (if time_driven event then
        (let (verdict, c) = clock_check (sm_clock m) wall_clock;
             m' = m\<lparr>sm_clock := c\<rparr>
         in if verdict = ClockVerdict.Ok then react event (effective_now c wall_clock) m'
            else if exceeds_rollback_threshold c (cfg_rollback_threshold (sm_config m))
            then sm_transition Locked StateReason.ClockRollback m'
            else if sm_state m = LicenseState.Active
            then push_effect SendValidation (sm_transition NeedsRevalidation StateReason.ClockRollback m')
            else react event (effective_now c wall_clock) m')
      else react event (effective_now (sm_clock m) wall_clock) m)"

section \<open>The clock only moves forward\<close>

datatype ClockOp = Check i64 | CheckMonotonic i64 i64 i64 | ServerTime i64 | Merge ClockState

fun clock_step :: "ClockOp \<Rightarrow> ClockState \<Rightarrow> ClockState" where
  "clock_step (Check w) c = snd (clock_check c w)"
| "clock_step (CheckMonotonic w e s) c = snd (check_against_monotonic c w e s)"
| "clock_step (ServerTime t) c = observe_server_time c t"
| "clock_step (Merge o') c = clock_merge c o'"

lemma clock_check_max: "clk_last_seen_max c \<le> clk_last_seen_max (snd (clock_check c w))"
  by (simp add: clock_check_def)

lemma monotonic_clock: "snd (check_against_monotonic c w e s) = snd (clock_check c w)"
  by (simp add: check_against_monotonic_def Let_def case_prod_beta)

interpretation clock: high_water clk_last_seen_max clock_step
proof unfold_locales
  fix c op show "clk_last_seen_max c \<le> clk_last_seen_max (clock_step op c)"
    by (cases op) (simp_all add: clock_check_max monotonic_clock observe_server_time_def clock_merge_def Let_def)
qed

text \<open>What is persisted can be restored: server time never passes the high-water mark.\<close>

definition clock_ok :: "ClockState \<Rightarrow> bool" where
  "clock_ok c \<longleftrightarrow>
     clock_from_persisted (clk_last_seen_max c) (clk_last_server_time c) (clk_rollback_events c) = Some c"

lemma clock_ok_iff: "clock_ok c \<longleftrightarrow> clk_last_server_time c \<le> clk_last_seen_max c"
  by (simp add: clock_ok_def clock_from_persisted_def not_less)

lemma clock_ok_new: "clock_ok (clock_new seed)"
  by (simp add: clock_ok_iff clock_new_def)

lemma clock_ok_check: "clock_ok c \<Longrightarrow> clock_ok (snd (clock_check c w))"
  by (auto simp: clock_ok_iff clock_check_def)

lemma clock_ok_step:
  assumes "clock_ok c" "\<And>o'. op = Merge o' \<Longrightarrow> clock_ok o'"
  shows "clock_ok (clock_step op c)"
  using assms
  by (cases op) (auto simp: clock_ok_check monotonic_clock, auto simp: clock_ok_iff observe_server_time_def clock_merge_def Let_def)

lemma effective_now_ge: "clk_last_seen_max c \<le> effective_now c w" "w \<le> effective_now c w"
  by (simp_all add: effective_now_def)

section \<open>What a reaction changes\<close>

lemmas reaction_defs =
  react_unlicensed_def react_activating_def react_active_def react_needs_revalidation_def react_grace_def
  react_locked_def react_terminal_def active_tick_def lock_if_exhausted_def send_validation_def
  sm_activate_def accept_ticket_def deny_ticket_def sm_revoke_def sm_tamper_def sm_wipe_def
  push_effect_def sm_transition_def Let_def

lemma react_frame:
  "sm_clock (snd (react e now m)) = sm_clock m" "sm_deadlines (snd (react e now m)) = sm_deadlines m"
  "sm_config (snd (react e now m)) = sm_config m"
  by (cases "sm_state m"; cases e; simp add: react_def reaction_defs)+

lemma handle_clock:
  "sm_clock (snd (handle m e w)) = (if time_driven e then snd (clock_check (sm_clock m) w) else sm_clock m)"
  "sm_deadlines (snd (handle m e w)) = sm_deadlines m"
  by (simp_all add: handle_def Let_def case_prod_beta react_frame push_effect_def sm_transition_def)

text \<open>The states that follow from the state and the event.\<close>

definition machine_ok :: "StateMachine \<Rightarrow> bool" where
  "machine_ok m \<longleftrightarrow>
     sm_state m \<noteq> Activating \<and>
     (sm_state m \<in> {Unlicensed, LicenseState.Revoked, Tampered} \<longrightarrow> \<not> sm_has_credential m) \<and>
     clock_ok (sm_clock m)"

lemma react_machine_ok:
  assumes "machine_ok m"
  shows "machine_ok (snd (react e now m))"
proof -
  have "sm_state (snd (react e now m)) \<noteq> Activating \<and>
    (sm_state (snd (react e now m)) \<in> {Unlicensed, LicenseState.Revoked, Tampered} \<longrightarrow>
      \<not> sm_has_credential (snd (react e now m)))"
    using assms by (cases "sm_state m"; cases e) (auto simp: machine_ok_def react_def reaction_defs)
  with assms show ?thesis by (simp add: machine_ok_def react_frame)
qed

lemma transition_machine_ok:
  "machine_ok m \<Longrightarrow> to \<notin> {Activating, Unlicensed, LicenseState.Revoked, Tampered} \<Longrightarrow>
   machine_ok (snd (sm_transition to reason m))"
  by (auto simp: machine_ok_def sm_transition_def)

lemma handle_machine_ok:
  assumes "machine_ok m"
  shows "machine_ok (snd (handle m e w))"
proof -
  have c: "machine_ok (m\<lparr>sm_clock := snd (clock_check (sm_clock m) w)\<rparr>)"
    using assms by (simp add: machine_ok_def clock_ok_check)
  show ?thesis
    by (simp add: handle_def Let_def case_prod_beta push_effect_def react_machine_ok transition_machine_ok assms c)
qed

text \<open>The host also installs deadlines, notes attempts and merges stored clock states.\<close>

inductive client_step :: "StateMachine \<Rightarrow> StateMachine \<Rightarrow> bool" where
  client_handle: "client_step m (snd (handle m e w))"
| client_deadlines: "client_step m (set_deadlines d m)"
| client_attempt: "client_step m (note_validation_attempt now m)"
| client_clock: "(\<And>o'. op = Merge o' \<Longrightarrow> clock_ok o') \<Longrightarrow> client_step m (m\<lparr>sm_clock := clock_step op (sm_clock m)\<rparr>)"

definition client_init :: "StateMachine \<Rightarrow> bool" where
  "client_init m \<longleftrightarrow> m = sm_new (sm_config m) (clk_last_seen_max (sm_clock m))"

interpretation client: safe_machine client_init client_step machine_ok
proof unfold_locales
  fix m assume "client_init m"
  then obtain cfg seed where "m = sm_new cfg seed" unfolding client_init_def by blast
  then show "machine_ok m" by (simp add: machine_ok_def sm_new_def clock_ok_new)
next
  fix m m' assume inv: "machine_ok m" and "client_step m m'"
  from this(2) show "machine_ok m'"
  proof cases
    case (client_handle e w)
    with inv show ?thesis by (simp add: handle_machine_ok)
  next
    case (client_clock op)
    with inv show ?thesis by (simp add: machine_ok_def clock_ok_step)
  qed (use inv in \<open>simp_all add: machine_ok_def set_deadlines_def note_validation_attempt_def\<close>)
qed

section \<open>Credentials\<close>

definition grants_credential :: "Event \<Rightarrow> bool" where
  "grants_credential e \<longleftrightarrow> e = CredentialLoaded \<or> e = ActivationVerified"

definition destroys_credential :: "Event \<Rightarrow> bool" where
  "destroys_credential e \<longleftrightarrow>
     (case e of KillOrderVerified _ \<Rightarrow> True | VerificationFailed _ \<Rightarrow> True | UserDeactivate \<Rightarrow> True | _ \<Rightarrow> False)"

lemma react_credential:
  "\<not> sm_has_credential m \<Longrightarrow> \<not> grants_credential e \<Longrightarrow> \<not> sm_has_credential (snd (react e now m))"
  by (cases "sm_state m"; cases e) (simp_all add: react_def reaction_defs grants_credential_def)

lemma handle_credential:
  assumes "\<not> sm_has_credential m" "\<not> grants_credential e"
  shows "\<not> sm_has_credential (snd (handle m e w))"
proof -
  have "\<not> sm_has_credential (snd (react e now (m\<lparr>sm_clock := c\<rparr>)))" for now c
    using assms by (intro react_credential) simp_all
  then show ?thesis using assms
    by (simp add: handle_def Let_def case_prod_beta push_effect_def sm_transition_def react_credential)
qed

lemma handle_destroys:
  assumes "machine_ok m" "destroys_credential e"
  shows "\<not> sm_has_credential (snd (handle m e w))"
proof -
  have "\<not> time_driven e" using assms(2) by (cases e) (simp_all add: destroys_credential_def time_driven_def)
  then show ?thesis using assms
    by (cases "sm_state m"; cases e)
      (simp_all add: handle_def react_def reaction_defs destroys_credential_def machine_ok_def)
qed

lemma kill_order_ends_keys: "\<not> state_permits_key_derivation (sm_state (snd (handle m (KillOrderVerified r) w)))"
  by (cases "sm_state m") (simp_all add: handle_def time_driven_def react_def reaction_defs)

definition handle_all :: "(Event \<times> i64) list \<Rightarrow> StateMachine \<Rightarrow> StateMachine" where
  "handle_all es m = fold (\<lambda>(e, w) m. snd (handle m e w)) es m"

lemma handle_all_credential:
  "\<not> sm_has_credential m \<Longrightarrow> \<forall>(e, w) \<in> set es. \<not> grants_credential e \<Longrightarrow> \<not> sm_has_credential (handle_all es m)"
  by (induction es arbitrary: m) (auto simp: handle_all_def handle_credential)

section \<open>Deadlines\<close>

lemma hard_expired_mono: "hard_expired d t \<Longrightarrow> t \<le> t' \<Longrightarrow> hard_expired d t'"
  by (auto simp: hard_expired_def)

lemma grace_exhausted_mono: "grace_exhausted d t \<Longrightarrow> t \<le> t' \<Longrightarrow> grace_exhausted d t'"
  by (auto simp: grace_exhausted_def intro: hard_expired_mono)

text \<open>A time-driven event never evaluates a deadline before the high-water mark.\<close>

lemma handle_time_driven:
  assumes "time_driven e"
  obtains
    (reacts) now where "clk_last_seen_max (sm_clock m) \<le> now"
      "snd (handle m e w) = snd (react e now (m\<lparr>sm_clock := snd (clock_check (sm_clock m) w)\<rparr>))"
  | (locks) "sm_state (snd (handle m e w)) = Locked"
  | (rechecks) "sm_state m = LicenseState.Active" "sm_state (snd (handle m e w)) = NeedsRevalidation"
proof -
  let ?c = "snd (clock_check (sm_clock m) w)"
  have le: "clk_last_seen_max (sm_clock m) \<le> effective_now ?c w"
    using clock_check_max effective_now_ge(1) order_trans by blast
  have "snd (handle m e w) = snd (react e (effective_now ?c w) (m\<lparr>sm_clock := ?c\<rparr>))
    \<or> sm_state (snd (handle m e w)) = Locked
    \<or> sm_state m = LicenseState.Active \<and> sm_state (snd (handle m e w)) = NeedsRevalidation"
    using assms by (simp add: handle_def Let_def case_prod_beta push_effect_def sm_transition_def)
  then show thesis using le that by blast
qed

lemma tick_locks_grace:
  assumes "time_driven e" "sm_state m = NeedsRevalidation \<or> sm_state m = Grace"
    and "grace_exhausted (sm_deadlines m) (clk_last_seen_max (sm_clock m))"
  shows "sm_state (snd (handle m e w)) = Locked"
  using assms(1)
proof (cases rule: handle_time_driven [where m = m and w = w])
  case (reacts now)
  with assms grace_exhausted_mono show ?thesis
    by (cases e) (auto simp: react_def reaction_defs time_driven_def)
qed (use assms in simp_all)

lemma tick_active_expired:
  assumes "time_driven e" "sm_state m = LicenseState.Active"
    and "hard_expired (sm_deadlines m) (clk_last_seen_max (sm_clock m))"
  shows "sm_state (snd (handle m e w)) = Locked \<or> sm_state (snd (handle m e w)) = NeedsRevalidation"
  using assms(1)
proof (cases rule: handle_time_driven [where m = m and w = w])
  case (reacts now)
  with assms hard_expired_mono show ?thesis
    by (cases e) (auto simp: react_def reaction_defs time_driven_def)
qed simp_all

lemma tick_unusable:
  assumes "time_driven e" "\<not> state_permits_key_derivation (sm_state m)"
  shows "\<not> state_permits_key_derivation (sm_state (snd (handle m e w)))"
  using assms(1)
proof (cases rule: handle_time_driven [where m = m and w = w])
  case (reacts now)
  with assms show ?thesis
    by (cases "sm_state m"; cases e) (auto simp: react_def reaction_defs time_driven_def)
qed (use assms in simp_all)

lemma handle_keeps_max: "clk_last_seen_max (sm_clock m) \<le> clk_last_seen_max (sm_clock (snd (handle m e w)))"
  by (simp add: handle_clock clock_check_max)

lemma two_ticks_lock:
  assumes "time_driven e1" "time_driven e2"
    and expired: "hard_expired (sm_deadlines m) (clk_last_seen_max (sm_clock m))"
  shows "\<not> state_permits_key_derivation (sm_state (snd (handle (snd (handle m e1 w1)) e2 w2)))"
proof -
  let ?m = "snd (handle m e1 w1)"
  have still: "grace_exhausted (sm_deadlines ?m) (clk_last_seen_max (sm_clock ?m))"
    using expired handle_keeps_max [of m e1 w1]
    by (auto simp: handle_clock(2) grace_exhausted_def intro: hard_expired_mono)
  have "sm_state ?m = NeedsRevalidation \<or> \<not> state_permits_key_derivation (sm_state ?m)"
  proof (cases "sm_state m")
    case Active
    with tick_active_expired [OF assms(1) Active expired, of w1] show ?thesis by auto
  next
    case NeedsRevalidation
    with tick_locks_grace [OF assms(1), of m w1] expired show ?thesis by (simp add: grace_exhausted_def)
  next
    case Grace
    with tick_locks_grace [OF assms(1), of m w1] expired show ?thesis by (simp add: grace_exhausted_def)
  qed (use tick_unusable [OF assms(1), of m w1] in auto)
  then show ?thesis
    using tick_locks_grace [OF assms(2) _ still, of w2] tick_unusable [OF assms(2), of ?m w2] by auto
qed

section \<open>Where the code and its comments part\<close>

text \<open>
  Revoked is documented as terminal until a fresh activation, but enough rollbacks move it
  to Locked and a ticket then to Active (without a credential, so no key can be derived).
\<close>

definition demo_client :: "u32 \<Rightarrow> StateMachine" where
  "demo_client n =
     \<lparr>sm_state = (if n > 3 then Locked else LicenseState.Revoked),
      sm_clock = \<lparr>clk_last_seen_max = 1000, clk_last_server_time = 1000, clk_rollback_events = n\<rparr>,
      sm_deadlines = deadlines_default, sm_config = core_config_default,
      sm_last_validation_attempt = 0, sm_has_credential = False\<rparr>"

lemma demo_client_rollback: "n \<le> 3 \<Longrightarrow> snd (handle (demo_client n) Tick 0) = demo_client (n + 1)"
  by (auto simp: handle_def time_driven_def clock_check_def demo_client_def core_config_default_def
      DEFAULT_ROLLBACK_THRESHOLD_def SKEW_TOLERANCE_SECS_def exceeds_rollback_threshold_def
      sm_transition_def react_def react_terminal_def sat_add_def sat_i64_def i64_min_def i64_max_def
      sat_add_u32_def u32_max_def)

lemma rollback_leaves_revoked:
  "sm_state (demo_client 0) = LicenseState.Revoked"
  "sm_state (handle_all [(Tick, 0), (Tick, 0), (Tick, 0), (Tick, 0), (TicketVerified, 0)] (demo_client 0)) = LicenseState.Active"
proof -
  show "sm_state (demo_client 0) = LicenseState.Revoked" by (simp add: demo_client_def)
  have "sm_state (snd (handle (demo_client 4) TicketVerified 0)) = LicenseState.Active"
    by (simp add: handle_def time_driven_def demo_client_def react_def react_locked_def accept_ticket_def
        push_effect_def sm_transition_def)
  then show "sm_state (handle_all [(Tick, 0), (Tick, 0), (Tick, 0), (Tick, 0), (TicketVerified, 0)] (demo_client 0)) = LicenseState.Active"
    by (simp add: handle_all_def demo_client_rollback numeral_eq_Suc)
qed

section \<open>Properties\<close>

text \<open>
  C28. No clock trick outlives the licence: once the client has seen a time at or past the
  hard expiry, any two further ticks or resumes, whatever the wall clock then reads, leave
  it unable to derive a key.  The high-water mark it is measured against never decreases
  under any clock operation.
\<close>

theorem expired_credential_locks:
  assumes "time_driven e1" "time_driven e2"
    and "hard_expired (sm_deadlines m) t" "t \<le> clk_last_seen_max (sm_clock m)"
  shows "\<not> permits_key_derivation (snd (handle (snd (handle
      (m\<lparr>sm_clock := fold clock_step ops (sm_clock m)\<rparr>) e1 w1)) e2 w2))"
proof -
  have "t \<le> clk_last_seen_max (fold clock_step ops (sm_clock m))"
    using assms(4) by (rule clock.mark_ge_run)
  with assms(3) have "hard_expired (sm_deadlines (m\<lparr>sm_clock := fold clock_step ops (sm_clock m)\<rparr>))
      (clk_last_seen_max (sm_clock (m\<lparr>sm_clock := fold clock_step ops (sm_clock m)\<rparr>)))"
    by (auto intro: hard_expired_mono)
  from two_ticks_lock [OF assms(1,2) this] show ?thesis by (simp add: permits_key_derivation_def)
qed

definition demo_active :: StateMachine where
  "demo_active = (sm_new core_config_default 1000)\<lparr>sm_state := LicenseState.Active, sm_has_credential := True,
     sm_deadlines := \<lparr>ddl_refresh_after = 500, ddl_grace_deadline = 800, ddl_not_after = 900\<rparr>\<rparr>"

theorem expired_credential_locks_witness:
  "permits_key_derivation demo_active \<and>
   \<not> permits_key_derivation (snd (handle (snd (handle
      (demo_active\<lparr>sm_clock := fold clock_step [Check 0] (sm_clock demo_active)\<rparr>) Tick 0)) Tick 0))"
proof
  show "permits_key_derivation demo_active"
    by (simp add: permits_key_derivation_def demo_active_def)
  show "\<not> permits_key_derivation (snd (handle (snd (handle
      (demo_active\<lparr>sm_clock := fold clock_step [Check 0] (sm_clock demo_active)\<rparr>) Tick 0)) Tick 0))"
    by (rule expired_credential_locks [where t = 1000])
      (simp_all add: time_driven_def hard_expired_def demo_active_def sm_new_def clock_new_def)
qed

text \<open>
  C8. A destroyed credential stays destroyed: after a kill order, a failed verification or a
  deactivation no key can be derived, whatever follows, until an activation is verified or
  a credential loaded; in particular no ticket brings it back.
\<close>

theorem destroyed_credential_stays_destroyed:
  assumes "reachable client_init client_step m" "destroys_credential e"
    and "\<forall>(e', w') \<in> set es. \<not> grants_credential e'"
  shows "\<not> permits_key_derivation (handle_all es (snd (handle m e w)))"
  using handle_all_credential [OF handle_destroys [OF client.reachable_inv [OF assms(1)] assms(2)] assms(3)]
  by (simp add: permits_key_derivation_def)

theorem destroyed_credential_stays_destroyed_witness:
  "\<not> permits_key_derivation (handle_all [(TicketVerified, 5), (Tick, 6)]
     (snd (handle (sm_new core_config_default 0) (KillOrderVerified Fraud) 4)))"
proof (rule destroyed_credential_stays_destroyed)
  show "reachable client_init client_step (sm_new core_config_default 0)"
    by (rule reach_init) (simp add: client_init_def sm_new_def clock_new_def)
qed (simp_all add: destroys_credential_def grants_credential_def)

text \<open>
  C33. Transient failures fail open: a failed request never wipes or revokes and keeps the
  credential; a client waiting for revalidation enters the grace window exactly while that
  is still open, and any other state but an unfinished activation is unchanged.
\<close>

theorem network_failure_fails_open:
  "WipeAll \<notin> set (fst (handle m (NetworkFailed f) w)) \<and>
   sm_has_credential (snd (handle m (NetworkFailed f) w)) = sm_has_credential m \<and>
   sm_state (snd (handle m (NetworkFailed f) w)) =
     (if sm_state m = NeedsRevalidation
      then if grace_exhausted (sm_deadlines m) (effective_now (sm_clock m) w) then Locked else Grace
      else if sm_state m = Activating then Unlicensed else sm_state m)"
  by (cases "sm_state m") (auto simp: handle_def time_driven_def react_def reaction_defs)

end
