(* ===== verification/Ticket_Check.thy ===== *)
theory Ticket_Check
  imports Artifacts Client_Core
begin

text \<open>
  The checklist a signature-verified validation ticket must pass
  (\<open>copylocker-core/src/ticket.rs\<close>).  The release profile keeps overflow checks, so \<open>abs\<close> of
  the smallest integer aborts; the outcome \<open>None\<close> is that abort.
\<close>

definition MAX_SKEW_SECS :: i64 where "MAX_SKEW_SECS = 24 * 3600"

record TicketChecks =
  tc_supported_suites :: "SuiteId list"
  tc_verified_epoch :: EpochId
  tc_sent_nonce :: bytes
  tc_machine_id :: MachineId
  tc_known_revocation_epoch :: u64
  tc_known_security_floor :: u64

record TicketObservations =
  to_clock_divergence :: "i64 option"

definition abs_i64 :: "i64 \<Rightarrow> i64 option" where
  "abs_i64 v = (if v = i64_min then None else Some \<bar>v\<bar>)"

definition check_ticket ::
  "ValidationTicket \<Rightarrow> TicketChecks \<Rightarrow> ClockState \<Rightarrow> i64 \<Rightarrow>
   ((FatalError, TicketObservations) result \<times> ClockState) option"
where
  "check_ticket vt ctx clock local_now =
     (if vt_proto_ver vt \<noteq> PROTO_VER then Some (Inl CredentialCorrupt, clock)
      else if vt_suite_id vt \<notin> set (tc_supported_suites ctx) then Some (Inl CredentialCorrupt, clock)
      else if vt_epoch_id vt \<noteq> tc_verified_epoch ctx then Some (Inl ChainInvalid, clock)
      else if vt_nonce_c_echo vt \<noteq> tc_sent_nonce ctx then Some (Inl FatalError.NonceMismatch, clock)
      else if vt_machine_id vt \<noteq> tc_machine_id ctx then Some (Inl FatalError.MachineMismatch, clock)
      else case abs_i64 (sat_sub (vt_server_time vt) local_now) of None \<Rightarrow> None | Some divergence \<Rightarrow>
        let observations =
          \<lparr>to_clock_divergence = (if divergence > MAX_SKEW_SECS then Some divergence else None)\<rparr>
        in if vt_revocation_epoch vt < tc_known_revocation_epoch ctx then Some (Inl RevocationRollback, clock)
           else if vt_security_floor vt < tc_known_security_floor ctx then Some (Inl SecurityFloorRegression, clock)
           else if vt_next_refresh_after vt \<le> vt_server_time vt then Some (Inl CredentialCorrupt, clock)
           else Some (Inr observations, observe_server_time clock (vt_server_time vt)))"

section \<open>Properties\<close>

definition bound_to_request :: "ValidationTicket \<Rightarrow> TicketChecks \<Rightarrow> bool" where
  "bound_to_request vt ctx \<longleftrightarrow>
     vt_proto_ver vt = PROTO_VER \<and> vt_suite_id vt \<in> set (tc_supported_suites ctx) \<and>
     vt_epoch_id vt = tc_verified_epoch ctx \<and> vt_nonce_c_echo vt = tc_sent_nonce ctx \<and>
     vt_machine_id vt = tc_machine_id ctx"

lemma check_bound:
  "check_ticket vt ctx clock now =
   (if \<not> bound_to_request vt ctx then
      Some (Inl (if vt_proto_ver vt \<noteq> PROTO_VER \<or> vt_suite_id vt \<notin> set (tc_supported_suites ctx) then CredentialCorrupt
                 else if vt_epoch_id vt \<noteq> tc_verified_epoch ctx then ChainInvalid
                 else if vt_nonce_c_echo vt \<noteq> tc_sent_nonce ctx then FatalError.NonceMismatch
                 else FatalError.MachineMismatch), clock)
    else case abs_i64 (sat_sub (vt_server_time vt) now) of None \<Rightarrow> None | Some divergence \<Rightarrow>
      Some (if vt_revocation_epoch vt < tc_known_revocation_epoch ctx then (Inl RevocationRollback, clock)
            else if vt_security_floor vt < tc_known_security_floor ctx then (Inl SecurityFloorRegression, clock)
            else if vt_next_refresh_after vt \<le> vt_server_time vt then (Inl CredentialCorrupt, clock)
            else (Inr \<lparr>to_clock_divergence = (if divergence > MAX_SKEW_SECS then Some divergence else None)\<rparr>,
                  observe_server_time clock (vt_server_time vt))))"
  by (auto simp: check_ticket_def bound_to_request_def Let_def split: option.splits)

definition demo_ticket :: ValidationTicket where
  "demo_ticket =
     \<lparr>vt_proto_ver = 1, vt_suite_id = [1, 0, 0, 1], vt_machine_id = [2], vt_nonce_c_echo = [3], vt_server_nonce = [4],
      vt_server_time = 1000, vt_next_refresh_after = 2000, vt_not_after = 0, vt_revocation_epoch = 5,
      vt_verdict = Verdict.Ok, vt_entitlements = None, vt_epoch_id = [6], vt_suspicion_score = None,
      vt_security_floor = 7, vt_release_status = None, vt_wrapped_keks = None, vt_refresh_now = None\<rparr>"

definition demo_checks :: "bytes \<Rightarrow> TicketChecks" where
  "demo_checks nonce =
     \<lparr>tc_supported_suites = [[1, 0, 0, 1]], tc_verified_epoch = [6], tc_sent_nonce = nonce, tc_machine_id = [2],
      tc_known_revocation_epoch = 5, tc_known_security_floor = 7\<rparr>"

text \<open>
  C13. The checklist is complete and its outcome exact: a ticket is accepted precisely when it
  answers this request (version, suite, epoch, nonce, machine), neither counter moved back and
  the next deadline lies in the server's future; then the clock has seen the server's time and
  a divergence is reported only beyond a day.  A refused ticket leaves the clock alone.
\<close>

theorem ticket_accepted_exactly:
  assumes "in_i64 (vt_server_time vt - now)" "vt_server_time vt - now \<noteq> i64_min"
  shows "(\<exists>out clock'. check_ticket vt ctx clock now = Some (out, clock') \<and>
     (is_ok out \<longleftrightarrow> bound_to_request vt ctx \<and> tc_known_revocation_epoch ctx \<le> vt_revocation_epoch vt \<and>
        tc_known_security_floor ctx \<le> vt_security_floor vt \<and> vt_server_time vt < vt_next_refresh_after vt) \<and>
     (is_ok out \<longrightarrow> clock' = observe_server_time clock (vt_server_time vt) \<and>
        vt_server_time vt \<le> clk_last_seen_max clock') \<and>
     (\<not> is_ok out \<longrightarrow> clock' = clock) \<and>
     (\<forall>obs. out = Inr obs \<longrightarrow> (to_clock_divergence obs \<noteq> None \<longleftrightarrow> \<bar>vt_server_time vt - now\<bar> > 86400)))"
proof -
  have d: "abs_i64 (sat_sub (vt_server_time vt) now) = Some \<bar>vt_server_time vt - now\<bar>"
    using assms by (simp add: sat_sub_def sat_i64_id abs_i64_def)
  have seen: "vt_server_time vt \<le> clk_last_seen_max (observe_server_time clock (vt_server_time vt))"
    by (auto simp: observe_server_time_def Let_def)
  show ?thesis unfolding check_bound d using seen
    by (auto simp: is_ok_def MAX_SKEW_SECS_def)
qed

theorem ticket_accepted_exactly_witness:
  "(\<exists>out. check_ticket demo_ticket (demo_checks [3]) (clock_new 900) 990 =
      Some (out, observe_server_time (clock_new 900) 1000) \<and> is_ok out) \<and>
   (\<exists>out. check_ticket demo_ticket (demo_checks [9]) (clock_new 900) 990 = Some (out, clock_new 900) \<and> \<not> is_ok out)"
proof -
  have b: "bound_to_request demo_ticket (demo_checks [3])" "\<not> bound_to_request demo_ticket (demo_checks [9])"
    by (simp_all add: bound_to_request_def demo_ticket_def demo_checks_def PROTO_VER_def)
  have t: "vt_server_time demo_ticket = 1000" "vt_next_refresh_after demo_ticket = 2000"
    "vt_revocation_epoch demo_ticket = 5" "vt_security_floor demo_ticket = 7"
    "tc_known_revocation_epoch (demo_checks n) = 5" "tc_known_security_floor (demo_checks n) = 7" for n
    by (simp_all add: demo_ticket_def demo_checks_def)
  show ?thesis
    using ticket_accepted_exactly [of demo_ticket 990 "demo_checks [3]" "clock_new 900"]
      ticket_accepted_exactly [of demo_ticket 990 "demo_checks [9]" "clock_new 900"]
    by (auto simp: b t sat_defs)
qed

text \<open>The subtraction saturates but \<open>abs\<close> does not: the extreme difference aborts the client.\<close>

lemma extreme_server_time_aborts:
  assumes "bound_to_request vt ctx" "sat_sub (vt_server_time vt) now = i64_min"
  shows "check_ticket vt ctx clock now = None"
  using assms by (simp add: check_bound abs_i64_def)

end
