(* ===== verification/Key_Schedule.thy ===== *)
theory Key_Schedule
  imports Entitlement_Wire Crypto_Slots Client_Core
begin

text \<open>
  The key schedule: credential secrets and asset keys sealed under contexts
  (\<open>copylocker-proto/src/keywrap.rs\<close>), and the derivation of feature keys from bound key
  material (\<open>copylocker-core/src/keys.rs\<close>).  A suite is the bundle of slots it fills.
\<close>

section \<open>Suites\<close>

record CryptoSuite =
  su_suite_id :: SuiteId
  su_proto_ver :: nat
  su_aead :: AeadScheme
  su_kdf :: KeyDerivation
  su_bind :: "bytes \<Rightarrow> Fingerprint \<Rightarrow> EnvEvidence \<Rightarrow> (CryptoError, bytes) result"

definition CL_STD_1_SUITE_ID :: SuiteId where "CL_STD_1_SUITE_ID = suite_from_u32 0x01000001"

definition cl_std_1 :: "AeadScheme \<Rightarrow> KeyDerivation \<Rightarrow> (bytes \<Rightarrow> Digest) \<Rightarrow> CryptoSuite" where
  "cl_std_1 aead kdf sha256 =
     \<lparr>su_suite_id = CL_STD_1_SUITE_ID, su_proto_ver = PROTO_VER, su_aead = aead, su_kdf = kdf,
      su_bind = hkdf_bind sha256 kdf\<rparr>"

section \<open>Sealed secrets\<close>

definition WRAPPED_SECRET_LEN :: nat where "WRAPPED_SECRET_LEN = 32"
definition CREDENTIAL_WRAP_SALT :: bytes where "CREDENTIAL_WRAP_SALT = str_bytes ''copylocker/cs-wrap/v1''"
definition CREDENTIAL_AAD_LABEL :: string where "CREDENTIAL_AAD_LABEL = ''copylocker/cs-aad/v1''"
definition KEK_AAD_LABEL :: string where "KEK_AAD_LABEL = ''copylocker/kek-aad/v1''"

record CredentialSealContext =
  csc_proto_ver :: nat
  csc_suite_id :: SuiteId
  csc_product_id :: string
  csc_license_id :: LicenseId
  csc_machine_id :: MachineId
  csc_fingerprint :: Fingerprint
  csc_kem_ct :: bytes
  csc_offline_nonce :: bytes
  csc_epoch_id :: EpochId
  csc_variant_id :: u64

definition csc_fields :: "CredentialSealContext \<Rightarrow> (u64 \<times> CborValue option) list" where
  "csc_fields c =
     [(0, Some (CText CREDENTIAL_AAD_LABEL)),
      (1, Some (Uint (csc_proto_ver c))),
      (2, Some (Bytes (csc_suite_id c))),
      (3, Some (CText (csc_product_id c))),
      (4, Some (Bytes (csc_license_id c))),
      (5, Some (Bytes (csc_machine_id c))),
      (6, Some (Bytes (csc_fingerprint c))),
      (7, Some (Bytes (csc_kem_ct c))),
      (8, Some (Bytes (csc_offline_nonce c))),
      (9, Some (Bytes (csc_epoch_id c))),
      (10, Some (Uint (csc_variant_id c)))]"

definition csc_aad :: "CredentialSealContext \<Rightarrow> bytes" where
  "csc_aad c = to_canonical (put_all (csc_fields c))"

definition credential_wrap_key ::
  "CryptoSuite \<Rightarrow> bytes \<Rightarrow> CredentialSealContext \<Rightarrow> (CryptoError, bytes) result"
where
  "credential_wrap_key S kem_shared_secret c =
     (let prk = kdf_extract (su_kdf S) CREDENTIAL_WRAP_SALT kem_shared_secret in
      expand_parts (su_kdf S) prk
        [csc_suite_id c, str_bytes (csc_product_id c), csc_license_id c, csc_machine_id c]
        (aead_key_len (su_aead S)))"

definition checked_add_usize :: "nat \<Rightarrow> nat \<Rightarrow> nat option" where
  "checked_add_usize a b = (if a + b \<le> u64_max then Some (a + b) else None)"

definition ensure_wrapped_len :: "CryptoSuite \<Rightarrow> bytes \<Rightarrow> (CryptoError, unit) result" where
  "ensure_wrapped_len S blob =
     bind_ok (ok_or (Option.bind (checked_add_usize (aead_nonce_len (su_aead S)) WRAPPED_SECRET_LEN)
        (\<lambda>n. checked_add_usize n (aead_tag_len (su_aead S)))) BadLength) (\<lambda>expected.
      if length blob \<noteq> expected then Inl BadLength else Inr ())"

definition exact_secret :: "bytes \<Rightarrow> (CryptoError, bytes) result" where
  "exact_secret plaintext = (if length plaintext = WRAPPED_SECRET_LEN then Inr plaintext else Inl BadLength)"

definition seal_credential_secret ::
  "CryptoSuite \<Rightarrow> bytes \<Rightarrow> CredentialSealContext \<Rightarrow> bytes \<Rightarrow> CryptoRng \<Rightarrow> (CryptoError, bytes) result"
where
  "seal_credential_secret S kem_shared_secret c secret rng =
     bind_ok (credential_wrap_key S kem_shared_secret c) (\<lambda>key.
     seal_with_nonce (su_aead S) key (csc_aad c) secret rng)"

definition open_credential_secret ::
  "CryptoSuite \<Rightarrow> bytes \<Rightarrow> CredentialSealContext \<Rightarrow> bytes \<Rightarrow> (CryptoError, bytes) result"
where
  "open_credential_secret S kem_shared_secret c sealed =
     bind_ok (ensure_wrapped_len S sealed) (\<lambda>_.
     bind_ok (credential_wrap_key S kem_shared_secret c) (\<lambda>key.
     bind_ok (open_with_nonce (su_aead S) key (csc_aad c) sealed) exact_secret))"

datatype KekWrapKind = Offline | Online

fun kek_wrap_kind_u8 :: "KekWrapKind \<Rightarrow> nat" where
  "kek_wrap_kind_u8 KekWrapKind.Offline = 0"
| "kek_wrap_kind_u8 KekWrapKind.Online = 1"

record KekWrapContext =
  kw_proto_ver :: nat
  kw_suite_id :: SuiteId
  kw_product_id :: string
  kw_license_id :: LicenseId
  kw_machine_id :: MachineId
  kw_epoch_id :: EpochId
  kw_variant_id :: u64
  kw_feature_id :: string
  kw_kind :: KekWrapKind
  kw_session_nonce :: bytes

definition kw_fields :: "KekWrapContext \<Rightarrow> (u64 \<times> CborValue option) list" where
  "kw_fields c =
     [(0, Some (CText KEK_AAD_LABEL)),
      (1, Some (Uint (kw_proto_ver c))),
      (2, Some (Bytes (kw_suite_id c))),
      (3, Some (CText (kw_product_id c))),
      (4, Some (Bytes (kw_license_id c))),
      (5, Some (Bytes (kw_machine_id c))),
      (6, Some (Bytes (kw_epoch_id c))),
      (7, Some (Uint (kw_variant_id c))),
      (8, Some (CText (kw_feature_id c))),
      (9, Some (Uint (kek_wrap_kind_u8 (kw_kind c)))),
      (10, Some (Bytes (kw_session_nonce c)))]"

definition kw_aad :: "KekWrapContext \<Rightarrow> bytes" where
  "kw_aad c = to_canonical (put_all (kw_fields c))"

definition seal_kek ::
  "CryptoSuite \<Rightarrow> bytes \<Rightarrow> KekWrapContext \<Rightarrow> bytes \<Rightarrow> CryptoRng \<Rightarrow> (CryptoError, bytes) result"
where
  "seal_kek S feature_key c kek rng = seal_with_nonce (su_aead S) feature_key (kw_aad c) kek rng"

definition open_kek :: "CryptoSuite \<Rightarrow> bytes \<Rightarrow> KekWrapContext \<Rightarrow> bytes \<Rightarrow> (CryptoError, bytes) result" where
  "open_kek S feature_key c wrapped =
     bind_ok (ensure_wrapped_len S wrapped) (\<lambda>_.
     bind_ok (open_with_nonce (su_aead S) feature_key (kw_aad c) wrapped) exact_secret)"

section \<open>Key material\<close>

definition SESSION_ROOT_SALT :: bytes where "SESSION_ROOT_SALT = str_bytes ''copylocker/sr/v1''"
definition FEATURE_KEY_SALT :: bytes where "FEATURE_KEY_SALT = str_bytes ''copylocker/fk/v1''"
definition OLK_SEED_SALT :: bytes where "OLK_SEED_SALT = str_bytes ''copylocker/olk-seed/v1''"

datatype SessionKind = Online | Offline

record KeyMaterial =
  km_bound :: bytes
  km_product_id :: bytes
  km_license_id :: LicenseId
  km_machine_id :: MachineId
  km_offline_epoch_id :: EpochId
  km_variant_id :: u64
  km_variant_const :: bytes
  km_build_fingerprint :: bytes
  km_module_digest :: bytes
  km_offline_nonce :: bytes
  km_server_nonce :: "bytes option"
  km_online_epoch_id :: "EpochId option"

definition km_bind ::
  "CryptoSuite \<Rightarrow> bytes \<Rightarrow> Fingerprint \<Rightarrow> EnvEvidence \<Rightarrow> string \<Rightarrow> LicenseId \<Rightarrow> MachineId \<Rightarrow> EpochId \<Rightarrow> u64 \<Rightarrow>
   bytes \<Rightarrow> bytes \<Rightarrow> (CoreError, KeyMaterial) result"
where
  "km_bind S secret fp env product_id license_id machine_id epoch_id variant variant_const offline_nonce =
     bind_ok (map_err (\<lambda>_. DerivationFailed) (su_bind S secret fp env)) (\<lambda>bound.
     Inr \<lparr>km_bound = bound, km_product_id = str_bytes product_id, km_license_id = license_id,
          km_machine_id = machine_id, km_offline_epoch_id = epoch_id, km_variant_id = variant,
          km_variant_const = variant_const, km_build_fingerprint = env_build_fingerprint env,
          km_module_digest = env_module_digest env, km_offline_nonce = offline_nonce,
          km_server_nonce = None, km_online_epoch_id = None\<rparr>)"

definition km_bind_olk ::
  "CryptoSuite \<Rightarrow> bytes \<Rightarrow> Fingerprint \<Rightarrow> EnvEvidence \<Rightarrow> string \<Rightarrow> LicenseId \<Rightarrow> MachineId \<Rightarrow> EpochId \<Rightarrow> u64 \<Rightarrow>
   bytes \<Rightarrow> bytes \<Rightarrow> (CoreError, KeyMaterial) result"
where
  "km_bind_olk S key_seed fp env product_id license_id machine_id epoch_id variant variant_const offline_nonce =
     bind_ok (map_err (\<lambda>_. DerivationFailed) (derive_from (su_kdf S) OLK_SEED_SALT key_seed
       [su_suite_id S, str_bytes product_id, license_id, machine_id, epoch_id, to_be_bytes 8 variant, fp]))
     (\<lambda>derived. km_bind S derived fp env product_id license_id machine_id epoch_id variant variant_const offline_nonce)"

definition set_online_session :: "bytes \<Rightarrow> EpochId \<Rightarrow> KeyMaterial \<Rightarrow> KeyMaterial" where
  "set_online_session nonce epoch_id k = k\<lparr>km_server_nonce := Some nonce, km_online_epoch_id := Some epoch_id\<rparr>"

definition set_server_nonce :: "bytes \<Rightarrow> KeyMaterial \<Rightarrow> KeyMaterial" where
  "set_server_nonce nonce k = set_online_session nonce (km_offline_epoch_id k) k"

definition has_online_session :: "KeyMaterial \<Rightarrow> bool" where
  "has_online_session k \<longleftrightarrow> km_server_nonce k \<noteq> None"

definition session_nonce_epoch :: "KeyMaterial \<Rightarrow> SessionKind \<Rightarrow> (CoreError, bytes \<times> EpochId) result" where
  "session_nonce_epoch k kind =
     (case kind of
        SessionKind.Online \<Rightarrow>
          bind_ok (ok_or (km_server_nonce k) DerivationFailed) (\<lambda>nonce.
          bind_ok (ok_or (km_online_epoch_id k) DerivationFailed) (\<lambda>epoch. Inr (nonce, epoch)))
      | SessionKind.Offline \<Rightarrow> Inr (km_offline_nonce k, km_offline_epoch_id k))"

definition session_root :: "CryptoSuite \<Rightarrow> KeyMaterial \<Rightarrow> SessionKind \<Rightarrow> (CoreError, bytes) result" where
  "session_root S k kind =
     bind_ok (session_nonce_epoch k kind) (\<lambda>(nonce, epoch_id).
     map_err (\<lambda>_. DerivationFailed) (derive_from (su_kdf S) SESSION_ROOT_SALT (km_bound k)
       [nonce, epoch_id, km_build_fingerprint k, km_module_digest k]))"

definition feature_key ::
  "CryptoSuite \<Rightarrow> KeyMaterial \<Rightarrow> LicenseState \<Rightarrow> Entitlements \<Rightarrow> string \<Rightarrow> SessionKind \<Rightarrow> (CoreError, bytes) result"
where
  "feature_key S k state ents feature kind =
     (if \<not> state_permits_key_derivation state then Inl NotEntitled
      else if \<not> has_feature ents feature then Inl NotEntitled
      else
        bind_ok (session_root S k kind) (\<lambda>root.
        map_err (\<lambda>_. DerivationFailed) (derive_from (su_kdf S) FEATURE_KEY_SALT root
          [km_product_id k, to_be_bytes 8 (km_variant_id k), km_variant_const k, str_bytes feature])))"

definition kek_context ::
  "CryptoSuite \<Rightarrow> KeyMaterial \<Rightarrow> string \<Rightarrow> SessionKind \<Rightarrow> (CoreError, KekWrapContext) result"
where
  "kek_context S k feature kind =
     bind_ok (session_nonce_epoch k kind) (\<lambda>(nonce, epoch_id).
     if \<not> utf8_valid (km_product_id k) then Inl DerivationFailed
     else Inr \<lparr>kw_proto_ver = su_proto_ver S, kw_suite_id = su_suite_id S, kw_product_id = bytes_str (km_product_id k),
               kw_license_id = km_license_id k, kw_machine_id = km_machine_id k, kw_epoch_id = epoch_id,
               kw_variant_id = km_variant_id k, kw_feature_id = feature,
               kw_kind = (case kind of SessionKind.Online \<Rightarrow> KekWrapKind.Online
                                     | SessionKind.Offline \<Rightarrow> KekWrapKind.Offline),
               kw_session_nonce = nonce\<rparr>)"

definition wrap_kek ::
  "CryptoSuite \<Rightarrow> KeyMaterial \<Rightarrow> LicenseState \<Rightarrow> Entitlements \<Rightarrow> string \<Rightarrow> SessionKind \<Rightarrow> bytes \<Rightarrow> CryptoRng \<Rightarrow>
   (CoreError, bytes) result"
where
  "wrap_kek S k state ents feature kind kek rng =
     bind_ok (feature_key S k state ents feature kind) (\<lambda>fk.
     bind_ok (kek_context S k feature kind) (\<lambda>context.
     map_err (\<lambda>_. DerivationFailed) (seal_kek S fk context kek rng)))"

definition unwrap_kek ::
  "CryptoSuite \<Rightarrow> KeyMaterial \<Rightarrow> LicenseState \<Rightarrow> Entitlements \<Rightarrow> string \<Rightarrow> SessionKind \<Rightarrow> bytes \<Rightarrow>
   (CoreError, bytes) result"
where
  "unwrap_kek S k state ents feature kind wrapped =
     bind_ok (feature_key S k state ents feature kind) (\<lambda>fk.
     bind_ok (kek_context S k feature kind) (\<lambda>context.
     map_err (\<lambda>_. NotEntitled) (open_kek S fk context wrapped)))"

definition unwrap_kek_any ::
  "CryptoSuite \<Rightarrow> KeyMaterial \<Rightarrow> LicenseState \<Rightarrow> Entitlements \<Rightarrow> string \<Rightarrow> bytes \<Rightarrow> bytes \<Rightarrow> (CoreError, bytes) result"
where
  "unwrap_kek_any S k state ents feature wrapped_online wrapped_offline =
     (let offline = unwrap_kek S k state ents feature SessionKind.Offline wrapped_offline in
      if has_online_session k then
        (case unwrap_kek S k state ents feature SessionKind.Online wrapped_online of
           Inr v \<Rightarrow> Inr v
         | Inl _ \<Rightarrow> offline)
      else offline)"

section \<open>What is sealed opens\<close>

definition wrapped_len :: "AeadScheme \<Rightarrow> nat" where
  "wrapped_len A = aead_nonce_len A + WRAPPED_SECRET_LEN + aead_tag_len A"

lemma ensure_wrapped_len_iff:
  "ensure_wrapped_len S blob = Inr () \<longleftrightarrow>
   wrapped_len (su_aead S) \<le> u64_max \<and> length blob = wrapped_len (su_aead S)"
  by (auto simp: ensure_wrapped_len_def checked_add_usize_def wrapped_len_def)

lemma open_wrapped:
  assumes "aead_correct (su_aead S)" "wrapped_len (su_aead S) \<le> u64_max"
    and "length (rng (aead_nonce_len (su_aead S))) = aead_nonce_len (su_aead S)"
    and "length secret = WRAPPED_SECRET_LEN" "seal_with_nonce (su_aead S) key aad secret rng = Inr blob"
  shows "ensure_wrapped_len S blob = Inr ()"
    and "bind_ok (open_with_nonce (su_aead S) key aad blob) exact_secret = Inr secret"
  using open_sealed [OF assms(1,3,5)] assms(2,4)
  by (simp_all add: ensure_wrapped_len_iff wrapped_len_def exact_secret_def)

section \<open>Contexts are unambiguous\<close>

text \<open>The ranges of the fields' Rust types.\<close>

definition str_ok :: "string \<Rightarrow> bool" where
  "str_ok s \<longleftrightarrow> utf8_valid (str_bytes s) \<and> length s \<le> u64_max"

definition bytes_ok :: "bytes \<Rightarrow> bool" where "bytes_ok b \<longleftrightarrow> length b \<le> u64_max"

definition csc_ok :: "CredentialSealContext \<Rightarrow> bool" where
  "csc_ok c \<longleftrightarrow> csc_proto_ver c \<le> 255 \<and> csc_variant_id c \<le> u64_max \<and> str_ok (csc_product_id c) \<and>
     list_all bytes_ok [csc_suite_id c, csc_license_id c, csc_machine_id c, csc_fingerprint c, csc_kem_ct c,
       csc_offline_nonce c, csc_epoch_id c]"

definition kw_ok :: "KekWrapContext \<Rightarrow> bool" where
  "kw_ok c \<longleftrightarrow> kw_proto_ver c \<le> 255 \<and> kw_variant_id c \<le> u64_max \<and> str_ok (kw_product_id c) \<and>
     str_ok (kw_feature_id c) \<and>
     list_all bytes_ok [kw_suite_id c, kw_license_id c, kw_machine_id c, kw_epoch_id c, kw_session_nonce c]"

definition aad_limits :: Limits where
  "aad_limits = \<lparr>lim_max_depth = 1, lim_max_items = 11, lim_max_string = u64_max\<rparr>"

lemma labels_ok: "str_ok CREDENTIAL_AAD_LABEL" "str_ok KEK_AAD_LABEL"
  by (auto simp: str_ok_def CREDENTIAL_AAD_LABEL_def KEK_AAD_LABEL_def u64_max_def intro!: ascii_utf8)

lemma csc_written:
  assumes "csc_ok c"
  shows "within aad_limits 0 (put_all (csc_fields c))" "nodup (put_all (csc_fields c))"
    "distinct (map fst (csc_fields c))"
proof -
  show d: "distinct (map fst (csc_fields c))" by (simp add: csc_fields_def)
  show "nodup (put_all (csc_fields c))" by (rule nodup_fields [OF d]) (simp add: csc_fields_def)
  show "within aad_limits 0 (put_all (csc_fields c))"
    using assms labels_ok
    by (simp add: put_all_entries entries_of_def csc_fields_def csc_ok_def aad_limits_def str_ok_def bytes_ok_def
        u64_max_def)
qed

lemma kek_wrap_kind_inject [simp]: "kek_wrap_kind_u8 a = kek_wrap_kind_u8 b \<longleftrightarrow> a = b"
  by (cases a; cases b) simp_all

lemma kw_written:
  assumes "kw_ok c"
  shows "within aad_limits 0 (put_all (kw_fields c))" "nodup (put_all (kw_fields c))"
    "distinct (map fst (kw_fields c))"
proof -
  show d: "distinct (map fst (kw_fields c))" by (simp add: kw_fields_def)
  show "nodup (put_all (kw_fields c))" by (rule nodup_fields [OF d]) (simp add: kw_fields_def)
  have "kek_wrap_kind_u8 (kw_kind c) \<le> 1" by (cases "kw_kind c") simp_all
  then show "within aad_limits 0 (put_all (kw_fields c))"
    using assms labels_ok
    by (simp add: put_all_entries entries_of_def kw_fields_def kw_ok_def aad_limits_def str_ok_def bytes_ok_def
        u64_max_def)
qed

lemma csc_aad_inject:
  assumes "csc_ok c" "csc_ok c'" "csc_aad c = csc_aad c'"
  shows "c = c'"
proof -
  note same = put_all_determines [OF assms(3) [unfolded csc_aad_def] csc_written(1) [OF assms(1)]
    csc_written(1) [OF assms(2)] csc_written(2) [OF assms(1)] csc_written(2) [OF assms(2)]
    csc_written(3) [OF assms(1)] csc_written(3) [OF assms(2)]]
  show ?thesis
    using same [of 1] same [of 2] same [of 3] same [of 4] same [of 5] same [of 6] same [of 7] same [of 8]
      same [of 9] same [of 10]
    by (simp add: csc_fields_def)
qed

lemma kw_aad_inject:
  assumes "kw_ok c" "kw_ok c'" "kw_aad c = kw_aad c'"
  shows "c = c'"
proof -
  note same = put_all_determines [OF assms(3) [unfolded kw_aad_def] kw_written(1) [OF assms(1)]
    kw_written(1) [OF assms(2)] kw_written(2) [OF assms(1)] kw_written(2) [OF assms(2)]
    kw_written(3) [OF assms(1)] kw_written(3) [OF assms(2)]]
  show ?thesis
    using same [of 1] same [of 2] same [of 3] same [of 4] same [of 5] same [of 6] same [of 7] same [of 8]
      same [of 9] same [of 10]
    by (simp add: kw_fields_def)
qed

lemma aads_disjoint:
  assumes "csc_ok c" "kw_ok d"
  shows "csc_aad c \<noteq> kw_aad d"
proof
  assume "csc_aad c = kw_aad d"
  note same = put_all_determines [OF this [unfolded csc_aad_def kw_aad_def] csc_written(1) [OF assms(1)]
    kw_written(1) [OF assms(2)] csc_written(2) [OF assms(1)] kw_written(2) [OF assms(2)]
    csc_written(3) [OF assms(1)] kw_written(3) [OF assms(2)]]
  show False
    using same [of 0] by (simp add: csc_fields_def kw_fields_def CREDENTIAL_AAD_LABEL_def KEK_AAD_LABEL_def)
qed

section \<open>Derivation\<close>

lemma not_entitled_err [simp]: "map_err (\<lambda>_. DerivationFailed) r \<noteq> Inl NotEntitled"
  by (cases r) simp_all

lemma session_errors:
  "session_nonce_epoch k kind \<noteq> Inl NotEntitled" "session_root S k kind \<noteq> Inl NotEntitled"
proof -
  show n: "session_nonce_epoch k kind \<noteq> Inl NotEntitled"
    by (cases kind; cases "km_server_nonce k"; cases "km_online_epoch_id k") (simp_all add: session_nonce_epoch_def)
  then show "session_root S k kind \<noteq> Inl NotEntitled"
    by (cases "session_nonce_epoch k kind") (auto simp: session_root_def)
qed

lemma feature_key_not_entitled:
  "feature_key S k st ents f kind = Inl NotEntitled \<longleftrightarrow> \<not> (state_permits_key_derivation st \<and> has_feature ents f)"
  using session_errors(2) [of S k kind]
  by (cases "session_root S k kind") (auto simp: feature_key_def)

lemma feature_key_entitled:
  "feature_key S k st ents f kind = Inr fk \<Longrightarrow> state_permits_key_derivation st \<and> has_feature ents f"
  using feature_key_not_entitled [of S k st ents f kind] by auto

lemma wrap_then_unwrap:
  assumes "aead_correct (su_aead S)" "wrapped_len (su_aead S) \<le> u64_max"
    and "length (rng (aead_nonce_len (su_aead S))) = aead_nonce_len (su_aead S)"
    and "length kek = WRAPPED_SECRET_LEN" "wrap_kek S k st ents f kind kek rng = Inr w"
  shows "unwrap_kek S k st ents f kind w = Inr kek"
proof -
  from assms(5) obtain fk c where fk: "feature_key S k st ents f kind = Inr fk"
    and c: "kek_context S k f kind = Inr c" and seal: "seal_kek S fk c kek rng = Inr w"
    by (auto simp: wrap_kek_def bind_ok_Inr_iff)
  with open_wrapped [OF assms(1-4) seal [unfolded seal_kek_def]] show ?thesis
    by (simp add: unwrap_kek_def open_kek_def)
qed

lemma credential_seal_then_open:
  assumes "aead_correct (su_aead S)" "wrapped_len (su_aead S) \<le> u64_max"
    and "length (rng (aead_nonce_len (su_aead S))) = aead_nonce_len (su_aead S)"
    and "length cs = WRAPPED_SECRET_LEN" "seal_credential_secret S ss c cs rng = Inr w"
  shows "open_credential_secret S ss c w = Inr cs"
proof -
  from assms(5) obtain key where key: "credential_wrap_key S ss c = Inr key"
    and seal: "seal_with_nonce (su_aead S) key (csc_aad c) cs rng = Inr w"
    by (auto simp: seal_credential_secret_def bind_ok_Inr_iff)
  with open_wrapped [OF assms(1-4) seal] show ?thesis by (simp add: open_credential_secret_def)
qed

section \<open>Properties\<close>

text \<open>A concrete suite: the ciphertext is the plaintext with a tag of zeros, keys count their input.\<close>

definition toy_suite :: CryptoSuite where
  "toy_suite =
     cl_std_1
       (xchacha20poly1305 (\<lambda>key nonce aad pt. Some (pt @ replicate 16 0))
          (\<lambda>key nonce aad ct. Some (take (length ct - 16) ct)))
       (hkdf_sha512 (\<lambda>salt ikm. ikm) Some (\<lambda>hk info n. Some (replicate n (word_of_nat (length info))))
          (\<lambda>m t p salt input n. None))
       (\<lambda>m. replicate 32 0)"

definition toy_env :: EnvEvidence where
  "toy_env = \<lparr>env_module_digest = replicate 32 1, env_build_fingerprint = [2], env_extra = []\<rparr>"

definition toy_material :: KeyMaterial where
  "toy_material =
     \<lparr>km_bound = replicate 32 3, km_product_id = str_bytes ''acme'', km_license_id = replicate 16 4,
      km_machine_id = replicate 16 5, km_offline_epoch_id = replicate 8 6, km_variant_id = 7,
      km_variant_const = replicate 32 8, km_build_fingerprint = [2], km_module_digest = replicate 32 1,
      km_offline_nonce = replicate 32 9, km_server_nonce = None, km_online_epoch_id = None\<rparr>"

definition toy_entitlements :: Entitlements where
  "toy_entitlements =
     \<lparr>ent_features = [''export.pdf''], ent_limits = [], ent_tier_id = ''pro'', ent_tier_label = ''Pro'',
      ent_catalog_version = 1, ent_version_scope = None, ent_subscription_hint = None\<rparr>"

lemma toy_suite_correct: "aead_correct (su_aead toy_suite)" "wrapped_len (su_aead toy_suite) \<le> u64_max"
proof -
  show "aead_correct (su_aead toy_suite)"
    unfolding toy_suite_def cl_std_1_def CryptoSuite.simps by (rule xchacha_correct) auto
  show "wrapped_len (su_aead toy_suite) \<le> u64_max"
    by (simp add: toy_suite_def cl_std_1_def xchacha20poly1305_def wrapped_len_def WRAPPED_SECRET_LEN_def u64_max_def)
qed

text \<open>
  C3. There is no key without a licence state that permits derivation and an entitlement that
  carries the feature: otherwise deriving the feature key, wrapping and both ways of unwrapping
  all fail, and with the same error, so that probing does not tell a missing feature from a
  locked licence.  Conversely an entitled request never fails with that error while the key is
  derived; the key does not depend on the rest of the entitlements; and online keys need an
  online session.
\<close>

theorem keys_only_when_entitled:
  "(\<not> (state_permits_key_derivation st \<and> has_feature ents f) \<longrightarrow>
      feature_key S k st ents f kind = Inl NotEntitled \<and>
      wrap_kek S k st ents f kind kek rng = Inl NotEntitled \<and>
      unwrap_kek S k st ents f kind w = Inl NotEntitled \<and>
      unwrap_kek_any S k st ents f w w' = Inl NotEntitled) \<and>
   (state_permits_key_derivation st \<and> has_feature ents f \<longrightarrow>
      feature_key S k st ents f kind \<noteq> Inl NotEntitled \<and>
      wrap_kek S k st ents f kind kek rng \<noteq> Inl NotEntitled \<and>
      (\<forall>st' ents'. state_permits_key_derivation st' \<and> has_feature ents' f \<longrightarrow>
         feature_key S k st ents f kind = feature_key S k st' ents' f kind)) \<and>
   (\<not> has_online_session k \<longrightarrow> \<not> is_ok (feature_key S k st ents f SessionKind.Online))"
proof -
  have ctx: "kek_context S k f kind \<noteq> Inl NotEntitled"
    using session_errors(1) [of k kind]
    by (cases "session_nonce_epoch k kind") (auto simp: kek_context_def split: if_splits)
  have "wrap_kek S k st ents f kind kek rng \<noteq> Inl NotEntitled"
    if "feature_key S k st ents f kind \<noteq> Inl NotEntitled"
    using that ctx
    by (cases "feature_key S k st ents f kind"; cases "kek_context S k f kind") (auto simp: wrap_kek_def)
  moreover have "unwrap_kek S k st ents f j x = Inl NotEntitled"
    if "\<not> (state_permits_key_derivation st \<and> has_feature ents f)" for j x
    using that feature_key_not_entitled [of S k st ents f j] by (simp add: unwrap_kek_def)
  moreover have "\<not> is_ok (feature_key S k st ents f SessionKind.Online)" if "\<not> has_online_session k"
    using that by (simp add: has_online_session_def feature_key_def session_root_def session_nonce_epoch_def)
  ultimately show ?thesis
    using feature_key_not_entitled [of S k st ents f kind]
    by (auto simp: wrap_kek_def unwrap_kek_any_def Let_def feature_key_def)
qed

theorem keys_only_when_entitled_witness:
  "unwrap_kek_any toy_suite toy_material LicenseState.Locked toy_entitlements ''export.pdf'' [] [] = Inl NotEntitled \<and>
   feature_key toy_suite toy_material LicenseState.Active toy_entitlements ''export.svg'' SessionKind.Offline = Inl NotEntitled \<and>
   feature_key toy_suite toy_material LicenseState.Active toy_entitlements ''export.pdf'' SessionKind.Offline \<noteq> Inl NotEntitled"
  using keys_only_when_entitled [of LicenseState.Locked toy_entitlements "''export.pdf''" toy_suite toy_material]
    keys_only_when_entitled [of LicenseState.Active toy_entitlements "''export.svg''" toy_suite toy_material]
    keys_only_when_entitled [of LicenseState.Active toy_entitlements "''export.pdf''" toy_suite toy_material]
  by (simp add: has_feature_def toy_entitlements_def)

text \<open>
  C17. What is wrapped opens again, and only in its own context: a wrapped asset key and a sealed
  credential secret open to the value that went in, with an encryption scheme that inverts
  itself; and the authenticated context determines the protocol version, the suite, the product,
  the licence, the machine, the epoch, the variant, the feature, the session kind and the nonce,
  so no two contexts, and no credential and asset contexts, authenticate the same bytes.
\<close>

theorem wrapped_keys_open_in_context:
  assumes "aead_correct (su_aead S)" "wrapped_len (su_aead S) \<le> u64_max"
    and "length (rng (aead_nonce_len (su_aead S))) = aead_nonce_len (su_aead S)"
    and "length secret = WRAPPED_SECRET_LEN"
  shows "(wrap_kek S k st ents f kind secret rng = Inr w \<longrightarrow> unwrap_kek S k st ents f kind w = Inr secret) \<and>
    (seal_credential_secret S ss c secret rng = Inr w \<longrightarrow> open_credential_secret S ss c w = Inr secret) \<and>
    (kw_ok d \<and> kw_ok d' \<longrightarrow> (kw_aad d = kw_aad d' \<longleftrightarrow> d = d')) \<and>
    (csc_ok c \<and> csc_ok c' \<longrightarrow> (csc_aad c = csc_aad c' \<longleftrightarrow> c = c')) \<and>
    (csc_ok c \<and> kw_ok d \<longrightarrow> csc_aad c \<noteq> kw_aad d)"
  using wrap_then_unwrap [where rng = rng, OF assms] credential_seal_then_open [where rng = rng, OF assms] kw_aad_inject csc_aad_inject aads_disjoint
  by blast

theorem wrapped_keys_open_in_context_witness:
  "\<exists>w. wrap_kek toy_suite toy_material LicenseState.Active toy_entitlements ''export.pdf'' SessionKind.Offline
      (replicate 32 42) (\<lambda>n. replicate n 1) = Inr w \<and> length w = 72 \<and>
    unwrap_kek toy_suite toy_material LicenseState.Active toy_entitlements ''export.pdf'' SessionKind.Offline w =
      Inr (replicate 32 42)"
proof -
  have "utf8_valid (str_bytes ''acme'')" by (rule ascii_utf8) simp
  then have "\<exists>c. kek_context toy_suite toy_material ''export.pdf'' SessionKind.Offline = Inr c"
    by (simp add: kek_context_def session_nonce_epoch_def toy_material_def)
  moreover have "\<exists>fk. feature_key toy_suite toy_material LicenseState.Active toy_entitlements ''export.pdf''
      SessionKind.Offline = Inr fk \<and> length fk = 32"
    by (simp add: feature_key_def session_root_def session_nonce_epoch_def derive_from_def derive_key_def
        expand_parts_info hkdf_sha512_def toy_suite_def cl_std_1_def toy_material_def toy_entitlements_def
        has_feature_def u32_max_def)
  moreover have "\<exists>w. seal_kek toy_suite fk c (replicate 32 42) (\<lambda>n. replicate n 1) = Inr w \<and> length w = 72"
    if "length fk = 32" for fk c
    using that
    by (simp add: seal_kek_def seal_with_nonce_def random_nonce_def toy_suite_def cl_std_1_def xchacha20poly1305_def)
  ultimately obtain w where w: "wrap_kek toy_suite toy_material LicenseState.Active toy_entitlements ''export.pdf''
      SessionKind.Offline (replicate 32 42) (\<lambda>n. replicate n 1) = Inr w" "length w = 72"
    by (fastforce simp: wrap_kek_def)
  have "length ((\<lambda>n. replicate n (1::u8)) (aead_nonce_len (su_aead toy_suite))) = aead_nonce_len (su_aead toy_suite)"
    and "length (replicate 32 (42::u8)) = WRAPPED_SECRET_LEN"
    by (simp_all add: WRAPPED_SECRET_LEN_def)
  from wrapped_keys_open_in_context [where rng = "\<lambda>n. replicate n 1", OF toy_suite_correct(1,2) this] w show ?thesis by blast
qed

end
