(* ===== verification/Sealed_Assets.thy ===== *)
theory Sealed_Assets
  imports Key_Schedule
begin

text \<open>
  The sealed-asset container (\<open>copylocker-proto/src/sealed_asset.rs\<close>) and the feature challenge
  messages (\<open>copylocker-proto/src/challenge.rs\<close>).
\<close>

section \<open>Sealed assets\<close>

definition SEALED_ASSET_SCHEMA_V1 :: u64 where "SEALED_ASSET_SCHEMA_V1 = 1"
definition MAX_SEALED_ASSET_BYTES :: nat where "MAX_SEALED_ASSET_BYTES = 64 * 1024 * 1024"
definition MAX_ASSET_ID_BYTES :: nat where "MAX_ASSET_ID_BYTES = 1024"
definition ASSET_AAD_LABEL :: string where "ASSET_AAD_LABEL = ''copylocker/asset-aad/v1''"

definition ASSET_LIMITS :: Limits where
  "ASSET_LIMITS =
     \<lparr>lim_max_depth = MAX_CBOR_DEPTH, lim_max_items = 32, lim_max_string = MAX_SEALED_ASSET_BYTES\<rparr>"

record SealedAsset =
  sa_schema :: u64
  sa_suite_id :: SuiteId
  sa_product_id :: string
  sa_variant_id :: u64
  sa_feature_id :: string
  sa_asset_id :: string
  sa_ciphertext :: bytes

definition identifier_is_valid :: "string \<Rightarrow> bool" where
  "identifier_is_valid v \<longleftrightarrow> v \<noteq> [] \<and> length v \<le> MAX_ASSET_ID_BYTES \<and> 0 \<notin> set (str_bytes v)"

definition identifiers_are_valid :: "SealedAsset \<Rightarrow> bool" where
  "identifiers_are_valid a \<longleftrightarrow> list_all identifier_is_valid [sa_product_id a, sa_feature_id a, sa_asset_id a]"

definition cbor_uint_len :: "u64 \<Rightarrow> nat" where
  "cbor_uint_len v =
     (if v \<le> 23 then 1 else if v \<le> 0xff then 2 else if v \<le> 0xffff then 3
      else if v \<le> 0xffffffff then 5 else 9)"

definition cbor_blob_len :: "nat \<Rightarrow> nat option" where
  "cbor_blob_len len =
     (let head = (if len \<le> 23 then 1 else if len \<le> 0xff then 2 else if len \<le> 0xffff then 3
                  else if len \<le> 0xffffffff then 5 else 9)
      in checked_add_usize head len)"

definition encoded_len_with_ciphertext :: "SealedAsset \<Rightarrow> nat \<Rightarrow> nat option" where
  "encoded_len_with_ciphertext a ciphertext_len =
     foldl (\<lambda>total part. Option.bind total (\<lambda>t. Option.bind part (checked_add_usize t))) (Some 0)
       [Some (1 + 7),
        Some (cbor_uint_len (sa_schema a)),
        cbor_blob_len (length (sa_suite_id a)),
        cbor_blob_len (length (sa_product_id a)),
        Some (cbor_uint_len (sa_variant_id a)),
        cbor_blob_len (length (sa_feature_id a)),
        cbor_blob_len (length (sa_asset_id a)),
        cbor_blob_len ciphertext_len]"

definition oversized :: "nat option \<Rightarrow> bool" where
  "oversized len = (case len of None \<Rightarrow> True | Some n \<Rightarrow> n > MAX_SEALED_ASSET_BYTES)"

definition sa_aad_fields :: "SealedAsset \<Rightarrow> (u64 \<times> CborValue option) list" where
  "sa_aad_fields a =
     [(0, Some (CText ASSET_AAD_LABEL)),
      (1, Some (Bytes (sa_suite_id a))),
      (2, Some (CText (sa_product_id a))),
      (3, Some (Uint (sa_variant_id a))),
      (4, Some (CText (sa_feature_id a))),
      (5, Some (CText (sa_asset_id a)))]"

definition sa_aad :: "SealedAsset \<Rightarrow> bytes" where
  "sa_aad a = to_canonical (put_all (sa_aad_fields a))"

definition sa_fields :: "SealedAsset \<Rightarrow> (u64 \<times> CborValue option) list" where
  "sa_fields a =
     [(0, Some (Uint (sa_schema a))),
      (1, Some (Bytes (sa_suite_id a))),
      (2, Some (CText (sa_product_id a))),
      (3, Some (Uint (sa_variant_id a))),
      (4, Some (CText (sa_feature_id a))),
      (5, Some (CText (sa_asset_id a))),
      (6, Some (Bytes (sa_ciphertext a)))]"

definition sa_encode :: "SealedAsset \<Rightarrow> bytes" where
  "sa_encode a = to_canonical (put_all (sa_fields a))"

definition sa_seal ::
  "CryptoSuite \<Rightarrow> string \<Rightarrow> u64 \<Rightarrow> string \<Rightarrow> string \<Rightarrow> bytes \<Rightarrow> bytes \<Rightarrow> CryptoRng \<Rightarrow> (CryptoError, SealedAsset) result"
where
  "sa_seal S product_id variant_id feature_id asset_id plaintext kek rng =
     (let asset = \<lparr>sa_schema = SEALED_ASSET_SCHEMA_V1, sa_suite_id = su_suite_id S, sa_product_id = product_id,
                   sa_variant_id = variant_id, sa_feature_id = feature_id, sa_asset_id = asset_id,
                   sa_ciphertext = []\<rparr>
      in if \<not> identifiers_are_valid asset then Inl Invalid
         else bind_ok (ok_or (Option.bind (checked_add_usize (length plaintext) (aead_nonce_len (su_aead S)))
                 (\<lambda>n. checked_add_usize n (aead_tag_len (su_aead S)))) BadLength) (\<lambda>ciphertext_len.
           if oversized (encoded_len_with_ciphertext asset ciphertext_len) then Inl BadLength
           else bind_ok (seal_with_nonce (su_aead S) kek (sa_aad asset) plaintext rng) (\<lambda>ct.
             let asset = asset\<lparr>sa_ciphertext := ct\<rparr>
             in if oversized (encoded_len_with_ciphertext asset (length ct)) then Inl BadLength else Inr asset)))"

definition sa_open :: "CryptoSuite \<Rightarrow> SealedAsset \<Rightarrow> bytes \<Rightarrow> (CryptoError, bytes) result" where
  "sa_open S a kek =
     (if sa_schema a \<noteq> SEALED_ASSET_SCHEMA_V1 \<or> sa_suite_id a \<noteq> su_suite_id S \<or> \<not> identifiers_are_valid a \<or>
         oversized (encoded_len_with_ciphertext a (length (sa_ciphertext a)))
      then Inl Invalid
      else open_with_nonce (su_aead S) kek (sa_aad a) (sa_ciphertext a))"

definition sa_decode :: "bytes \<Rightarrow> (ProtoError, SealedAsset) result" where
  "sa_decode bs =
     bind_ok (decode_bounded MAX_SEALED_ASSET_BYTES ASSET_LIMITS bs) (\<lambda>v.
     if as_map v = None then Inl (Codec Malformed)
     else
       bind_ok (field_uint v 0) (\<lambda>schema.
       bind_ok (field_suite_id v 1) (\<lambda>suite_id.
       bind_ok (field_text v 2) (\<lambda>product_id.
       bind_ok (field_uint v 3) (\<lambda>variant_id.
       bind_ok (field_text v 4) (\<lambda>feature_id.
       bind_ok (field_text v 5) (\<lambda>asset_id.
       bind_ok (field_bytes v 6) (\<lambda>ciphertext.
       let asset = \<lparr>sa_schema = schema, sa_suite_id = suite_id, sa_product_id = product_id,
                    sa_variant_id = variant_id, sa_feature_id = feature_id, sa_asset_id = asset_id,
                    sa_ciphertext = ciphertext\<rparr>
       in if sa_schema asset \<noteq> SEALED_ASSET_SCHEMA_V1 \<or> \<not> identifiers_are_valid asset \<or>
             length (sa_ciphertext asset) > MAX_SEALED_ASSET_BYTES
          then Inl (Codec Malformed) else Inr asset))))))))"

section \<open>Feature challenges\<close>

definition FEATURE_CHALLENGE_SCHEMA_V1 :: u64 where "FEATURE_CHALLENGE_SCHEMA_V1 = 1"
definition MAX_FEATURE_CHALLENGE_BYTES :: nat where "MAX_FEATURE_CHALLENGE_BYTES = 64 * 1024"
definition MAX_FEATURE_ID_BYTES :: nat where "MAX_FEATURE_ID_BYTES = 1024"
definition MAX_CHALLENGE_BYTES :: nat where "MAX_CHALLENGE_BYTES = 60 * 1024"
definition FEATURE_RESPONSE_LEN :: nat where "FEATURE_RESPONSE_LEN = 32"

definition CHALLENGE_LIMITS :: Limits where
  "CHALLENGE_LIMITS = \<lparr>lim_max_depth = 2, lim_max_items = 3, lim_max_string = MAX_CHALLENGE_BYTES\<rparr>"

record FeatureChallenge =
  fc_schema :: u64
  fc_feature_id :: string
  fc_challenge :: bytes

definition fc_validate :: "FeatureChallenge \<Rightarrow> (ProtoError, unit) result" where
  "fc_validate c =
     (if fc_schema c \<noteq> FEATURE_CHALLENGE_SCHEMA_V1 \<or> fc_feature_id c = [] \<or>
         length (fc_feature_id c) > MAX_FEATURE_ID_BYTES \<or> 0 \<in> set (str_bytes (fc_feature_id c)) \<or>
         fc_challenge c = [] \<or> length (fc_challenge c) > MAX_CHALLENGE_BYTES
      then Inl (Codec Malformed) else Inr ())"

definition fc_new :: "string \<Rightarrow> bytes \<Rightarrow> (ProtoError, FeatureChallenge) result" where
  "fc_new feature_id challenge =
     (let v = \<lparr>fc_schema = FEATURE_CHALLENGE_SCHEMA_V1, fc_feature_id = feature_id, fc_challenge = challenge\<rparr>
      in bind_ok (fc_validate v) (\<lambda>_. Inr v))"

definition fc_fields :: "FeatureChallenge \<Rightarrow> (u64 \<times> CborValue option) list" where
  "fc_fields c =
     [(0, Some (Uint (fc_schema c))), (1, Some (CText (fc_feature_id c))), (2, Some (Bytes (fc_challenge c)))]"

definition fc_encode :: "FeatureChallenge \<Rightarrow> bytes" where
  "fc_encode c = to_canonical (put_all (fc_fields c))"

definition fc_decode :: "bytes \<Rightarrow> (ProtoError, FeatureChallenge) result" where
  "fc_decode bs =
     bind_ok (decode_bounded MAX_FEATURE_CHALLENGE_BYTES CHALLENGE_LIMITS bs) (\<lambda>v.
     if \<not> has_entries 3 v then Inl (Codec Malformed)
     else
       bind_ok (field_uint v 0) (\<lambda>schema.
       bind_ok (field_text v 1) (\<lambda>feature_id.
       bind_ok (field_bytes v 2) (\<lambda>challenge.
       let c = \<lparr>fc_schema = schema, fc_feature_id = feature_id, fc_challenge = challenge\<rparr>
       in bind_ok (fc_validate c) (\<lambda>_. Inr c)))))"

record FeatureResponse =
  fr_schema :: u64
  fr_material :: bytes

definition fr_new :: "bytes \<Rightarrow> FeatureResponse" where
  "fr_new material = \<lparr>fr_schema = FEATURE_CHALLENGE_SCHEMA_V1, fr_material = material\<rparr>"

definition fr_fields :: "FeatureResponse \<Rightarrow> (u64 \<times> CborValue option) list" where
  "fr_fields r = [(0, Some (Uint (fr_schema r))), (1, Some (Bytes (fr_material r)))]"

definition fr_encode :: "FeatureResponse \<Rightarrow> bytes" where
  "fr_encode r = to_canonical (put_all (fr_fields r))"

definition fr_decode :: "bytes \<Rightarrow> (ProtoError, FeatureResponse) result" where
  "fr_decode bs =
     bind_ok (map_err Codec (decode_canonical bs
       \<lparr>lim_max_depth = 2, lim_max_items = 2, lim_max_string = FEATURE_RESPONSE_LEN\<rparr>)) (\<lambda>v.
     if \<not> has_entries 2 v then Inl (Codec Malformed)
     else
       bind_ok (field_uint v 0) (\<lambda>schema.
       bind_ok (field_fixed FEATURE_RESPONSE_LEN v 1) (\<lambda>material.
       if schema \<noteq> FEATURE_CHALLENGE_SCHEMA_V1 then Inl (Codec Malformed)
       else Inr \<lparr>fr_schema = schema, fr_material = material\<rparr>)))"

section \<open>The announced length is the written length\<close>

lemma length_write_head: "n \<le> u64_max \<Longrightarrow> length (write_head m n) = cbor_uint_len n"
  by (simp add: write_head_def cbor_uint_len_def)

lemma checked_add_usize_Some: "checked_add_usize a b = Some c \<longleftrightarrow> a + b \<le> u64_max \<and> c = a + b"
  by (auto simp: checked_add_usize_def)

lemma cbor_blob_len_Some:
  "cbor_blob_len n = Some t \<longleftrightarrow> cbor_uint_len n + n \<le> u64_max \<and> t = cbor_uint_len n + n"
  by (auto simp: cbor_blob_len_def cbor_uint_len_def checked_add_usize_Some)

lemma encoded_len_Some:
  assumes "encoded_len_with_ciphertext a n = Some t"
  shows "t = 8 + cbor_uint_len (sa_schema a) + (cbor_uint_len (length (sa_suite_id a)) + length (sa_suite_id a)) +
      (cbor_uint_len (length (sa_product_id a)) + length (sa_product_id a)) + cbor_uint_len (sa_variant_id a) +
      (cbor_uint_len (length (sa_feature_id a)) + length (sa_feature_id a)) +
      (cbor_uint_len (length (sa_asset_id a)) + length (sa_asset_id a)) + (cbor_uint_len n + n) \<and> t \<le> u64_max"
  using assms
  by (auto simp: encoded_len_with_ciphertext_def bind_eq_Some_conv checked_add_usize_Some cbor_blob_len_Some)

lemma encoded_len_exact:
  assumes "encoded_len_with_ciphertext a (length (sa_ciphertext a)) = Some t"
    and "sa_schema a \<le> u64_max" "sa_variant_id a \<le> u64_max"
  shows "length (sa_encode a) = t"
proof -
  note t = encoded_len_Some [OF assms(1)]
  have "length (write_head m (length x)) = cbor_uint_len (length x)" if "length x \<le> t" for x :: bytes and m
    using t that by (intro length_write_head) simp
  moreover have "length (write_head m (length x)) = cbor_uint_len (length x)" if "length x \<le> t" for x :: string and m
    using t that by (intro length_write_head) simp
  ultimately show ?thesis
    using t assms(2,3)
    by (simp add: sa_encode_def length_put_all sa_fields_def entries_of_def length_write_head u64_max_def)
      (simp add: cbor_uint_len_def)
qed

lemma sealed_within:
  assumes "\<not> oversized (encoded_len_with_ciphertext a (length (sa_ciphertext a)))"
    and "identifiers_are_valid a" "sa_schema a \<le> u64_max" "sa_variant_id a \<le> u64_max"
    and "length (sa_suite_id a) = 4" "list_all (\<lambda>s. utf8_valid (str_bytes s)) [sa_product_id a, sa_feature_id a, sa_asset_id a]"
  shows "length (sa_encode a) \<le> MAX_SEALED_ASSET_BYTES" "length (sa_ciphertext a) \<le> MAX_SEALED_ASSET_BYTES"
    and "within ASSET_LIMITS 0 (put_all (sa_fields a))" "nodup (put_all (sa_fields a))"
proof -
  from assms(1) obtain t where t: "encoded_len_with_ciphertext a (length (sa_ciphertext a)) = Some t"
    and small: "t \<le> MAX_SEALED_ASSET_BYTES"
    by (auto simp: oversized_def split: option.splits)
  from encoded_len_exact [OF t assms(3,4)] small show "length (sa_encode a) \<le> MAX_SEALED_ASSET_BYTES" by simp
  from encoded_len_Some [OF t] small show ct: "length (sa_ciphertext a) \<le> MAX_SEALED_ASSET_BYTES" by simp
  show "nodup (put_all (sa_fields a))" by (rule nodup_fields) (simp_all add: sa_fields_def)
  show "within ASSET_LIMITS 0 (put_all (sa_fields a))"
    using ct assms(2-6)
    by (simp add: put_all_entries entries_of_def sa_fields_def ASSET_LIMITS_def MAX_CBOR_DEPTH_def u64_max_def
        MAX_SEALED_ASSET_BYTES_def identifiers_are_valid_def identifier_is_valid_def MAX_ASSET_ID_BYTES_def)
qed

lemma sa_decode_encode:
  assumes "\<not> oversized (encoded_len_with_ciphertext a (length (sa_ciphertext a)))"
    and "identifiers_are_valid a" "sa_schema a = SEALED_ASSET_SCHEMA_V1" "sa_variant_id a \<le> u64_max"
    and "length (sa_suite_id a) = 4" "list_all (\<lambda>s. utf8_valid (str_bytes s)) [sa_product_id a, sa_feature_id a, sa_asset_id a]"
  shows "sa_decode (sa_encode a) = Inr a"
proof -
  have "sa_schema a \<le> u64_max" using assms(3) by (simp add: SEALED_ASSET_SCHEMA_V1_def u64_max_def)
  note w = sealed_within [OF assms(1,2) this assms(4-6)]
  let ?v = "canon (put_all (sa_fields a))"
  have "decode_bounded MAX_SEALED_ASSET_BYTES ASSET_LIMITS (sa_encode a) = Inr ?v"
    using w(1,3,4) unfolding sa_encode_def by (intro decode_bounded_written)
  moreover obtain m where "as_map ?v = Some m" using as_map_canon_fields by blast
  ultimately show ?thesis
    using assms(2,3,5) w(2)
    by (cases a) (simp add: sa_decode_def read_defs get_canon_fields sa_fields_def identifiers_are_valid_def Let_def)
qed

lemma sa_seal_opens:
  assumes "aead_correct (su_aead S)" "length (rng (aead_nonce_len (su_aead S))) = aead_nonce_len (su_aead S)"
    and "sa_seal S p v f i plaintext kek rng = Inr a"
  shows "sa_open S a kek = Inr plaintext"
    and "\<not> oversized (encoded_len_with_ciphertext a (length (sa_ciphertext a)))" "identifiers_are_valid a"
    and "sa_schema a = SEALED_ASSET_SCHEMA_V1" "sa_suite_id a = su_suite_id S" "sa_product_id a = p"
    and "sa_variant_id a = v" "sa_feature_id a = f" "sa_asset_id a = i"
proof -
  let ?a = "\<lambda>ct. \<lparr>sa_schema = SEALED_ASSET_SCHEMA_V1, sa_suite_id = su_suite_id S, sa_product_id = p,
     sa_variant_id = v, sa_feature_id = f, sa_asset_id = i, sa_ciphertext = ct\<rparr>"
  from assms(3) obtain ct where ids: "identifiers_are_valid (?a [])"
    and ct: "seal_with_nonce (su_aead S) kek (sa_aad (?a [])) plaintext rng = Inr ct"
    and small: "\<not> oversized (encoded_len_with_ciphertext (?a ct) (length ct))" and a: "a = ?a ct"
    by (auto simp: sa_seal_def Let_def bind_ok_Inr_iff split: if_splits)
  have "sa_aad (?a ct) = sa_aad (?a [])" by (simp add: sa_aad_def sa_aad_fields_def)
  with open_sealed(1) [OF assms(1,2) ct] ids small a show "sa_open S a kek = Inr plaintext"
    by (simp add: sa_open_def identifiers_are_valid_def)
qed (insert assms(3), auto simp: sa_seal_def Let_def bind_ok_Inr_iff identifiers_are_valid_def split: if_splits)

section \<open>The authenticated metadata\<close>

definition sa_meta_ok :: "SealedAsset \<Rightarrow> bool" where
  "sa_meta_ok a \<longleftrightarrow> identifiers_are_valid a \<and> sa_variant_id a \<le> u64_max \<and> length (sa_suite_id a) = 4 \<and>
     list_all (\<lambda>s. utf8_valid (str_bytes s)) [sa_product_id a, sa_feature_id a, sa_asset_id a]"

lemma sa_aad_written:
  assumes "sa_meta_ok a"
  shows "within aad_limits 0 (put_all (sa_aad_fields a))" "nodup (put_all (sa_aad_fields a))"
    "distinct (map fst (sa_aad_fields a))"
proof -
  show d: "distinct (map fst (sa_aad_fields a))" by (simp add: sa_aad_fields_def)
  show "nodup (put_all (sa_aad_fields a))" by (rule nodup_fields [OF d]) (simp add: sa_aad_fields_def)
  have "utf8_valid (str_bytes ASSET_AAD_LABEL)" by (rule ascii_utf8) (simp add: ASSET_AAD_LABEL_def)
  then show "within aad_limits 0 (put_all (sa_aad_fields a))"
    using assms
    by (simp add: put_all_entries entries_of_def sa_aad_fields_def sa_meta_ok_def aad_limits_def u64_max_def
        identifiers_are_valid_def identifier_is_valid_def MAX_ASSET_ID_BYTES_def) (simp add: ASSET_AAD_LABEL_def)
qed

lemma sa_aad_inject:
  assumes "sa_meta_ok a" "sa_meta_ok b" "sa_aad a = sa_aad b"
  shows "sa_suite_id a = sa_suite_id b \<and> sa_product_id a = sa_product_id b \<and> sa_variant_id a = sa_variant_id b \<and>
    sa_feature_id a = sa_feature_id b \<and> sa_asset_id a = sa_asset_id b"
proof -
  note same = put_all_determines [OF assms(3) [unfolded sa_aad_def] sa_aad_written(1) [OF assms(1)]
    sa_aad_written(1) [OF assms(2)] sa_aad_written(2) [OF assms(1)] sa_aad_written(2) [OF assms(2)]
    sa_aad_written(3) [OF assms(1)] sa_aad_written(3) [OF assms(2)]]
  show ?thesis
    using same [of 1] same [of 2] same [of 3] same [of 4] same [of 5] by (simp add: sa_aad_fields_def)
qed

section \<open>Challenges round-trip\<close>

interpretation challenge: codec fc_encode "\<lambda>bs. result_ok (fc_decode bs)"
  "\<lambda>c. fc_validate c = Inr () \<and> utf8_valid (str_bytes (fc_feature_id c))"
proof
  fix c :: FeatureChallenge assume ok: "fc_validate c = Inr () \<and> utf8_valid (str_bytes (fc_feature_id c))"
  then have len: "length (fc_challenge c) \<le> 61440" "length (fc_feature_id c) \<le> 1024" "fc_schema c = 1"
    by (auto simp: fc_validate_def MAX_CHALLENGE_BYTES_def MAX_FEATURE_ID_BYTES_def FEATURE_CHALLENGE_SCHEMA_V1_def
        split: if_splits)
  then have "length (fc_encode c) \<le> MAX_FEATURE_CHALLENGE_BYTES"
    by (simp add: fc_encode_def length_put_all fc_fields_def entries_of_def length_write_head u64_max_def
        MAX_FEATURE_CHALLENGE_BYTES_def cbor_uint_len_def)
  moreover have "within CHALLENGE_LIMITS 0 (put_all (fc_fields c))" "nodup (put_all (fc_fields c))"
    using len ok
    by (simp add: put_all_entries entries_of_def fc_fields_def CHALLENGE_LIMITS_def MAX_CHALLENGE_BYTES_def u64_max_def)
      (rule nodup_fields; simp add: fc_fields_def)
  ultimately have "decode_bounded MAX_FEATURE_CHALLENGE_BYTES CHALLENGE_LIMITS (fc_encode c) =
      Inr (canon (put_all (fc_fields c)))"
    unfolding fc_encode_def by (intro decode_bounded_written)
  with ok show "result_ok (fc_decode (fc_encode c)) = Some c"
    by (cases c) (simp add: fc_decode_def has_entries_canon read_defs get_canon_fields fc_fields_def entries_of_def Let_def)
qed

interpretation response: codec fr_encode "\<lambda>bs. result_ok (fr_decode bs)"
  "\<lambda>r. fr_schema r = FEATURE_CHALLENGE_SCHEMA_V1 \<and> length (fr_material r) = FEATURE_RESPONSE_LEN"
proof
  fix r :: FeatureResponse assume ok: "fr_schema r = FEATURE_CHALLENGE_SCHEMA_V1 \<and> length (fr_material r) = FEATURE_RESPONSE_LEN"
  let ?lim = "\<lparr>lim_max_depth = 2, lim_max_items = 2, lim_max_string = FEATURE_RESPONSE_LEN\<rparr>"
  have "within ?lim 0 (put_all (fr_fields r))" "nodup (put_all (fr_fields r))"
    using ok
    by (simp add: put_all_entries entries_of_def fr_fields_def FEATURE_RESPONSE_LEN_def FEATURE_CHALLENGE_SCHEMA_V1_def
        u64_max_def)
      (rule nodup_fields; simp add: fr_fields_def)
  then have "decode_canonical (fr_encode r) ?lim = Inr (canon (put_all (fr_fields r)))"
    unfolding fr_encode_def by (rule decode_to_canonical)
  with ok show "result_ok (fr_decode (fr_encode r)) = Some r"
    by (cases r) (simp add: fr_decode_def has_entries_canon read_defs get_canon_fields fr_fields_def entries_of_def)
qed

section \<open>Properties\<close>

text \<open>
  C18. A sealed asset survives the trip from the build tool to the client: with an encryption
  scheme that inverts itself, whatever sealing returns encodes to at most the 64 MiB the client
  reads, to exactly the number of bytes announced beforehand, decodes to itself and opens
  to the plaintext.  The authenticated metadata of an asset is that of no other suite, product,
  variant, feature or asset identifier.
\<close>

theorem sealed_asset_roundtrip:
  assumes "aead_correct (su_aead S)" "length (rng (aead_nonce_len (su_aead S))) = aead_nonce_len (su_aead S)"
    and "length (su_suite_id S) = 4" "v \<le> u64_max" "list_all (\<lambda>s. utf8_valid (str_bytes s)) [p, f, i]"
    and "sa_seal S p v f i plaintext kek rng = Inr a"
  shows "length (sa_encode a) \<le> MAX_SEALED_ASSET_BYTES \<and>
    encoded_len_with_ciphertext a (length (sa_ciphertext a)) = Some (length (sa_encode a)) \<and>
    sa_decode (sa_encode a) = Inr a \<and> sa_open S a kek = Inr plaintext \<and>
    (\<forall>b. sa_meta_ok b \<and> sa_aad b = sa_aad a \<longrightarrow>
       sa_suite_id b = su_suite_id S \<and> sa_product_id b = p \<and> sa_variant_id b = v \<and> sa_feature_id b = f \<and>
       sa_asset_id b = i)"
proof -
  note sealed = sa_seal_opens [OF assms(1,2,6)]
  have schema: "sa_schema a \<le> u64_max" using sealed(4) by (simp add: SEALED_ASSET_SCHEMA_V1_def u64_max_def)
  have meta: "sa_meta_ok a" using sealed assms(3-5) by (simp add: sa_meta_ok_def)
  then have ranges: "sa_variant_id a \<le> u64_max" "length (sa_suite_id a) = 4"
    "list_all (\<lambda>s. utf8_valid (str_bytes s)) [sa_product_id a, sa_feature_id a, sa_asset_id a]"
    by (simp_all add: sa_meta_ok_def)
  obtain t where t: "encoded_len_with_ciphertext a (length (sa_ciphertext a)) = Some t"
    using sealed(2) by (auto simp: oversized_def split: option.splits)
  show ?thesis
    using sealed_within(1) [OF sealed(2,3) schema ranges] encoded_len_exact [OF t schema ranges(1)] t
      sa_decode_encode [OF sealed(2-4) ranges] sealed(1,5-9) sa_aad_inject [OF _ meta]
    by auto
qed

theorem sealed_asset_roundtrip_witness:
  "\<exists>a. sa_seal toy_suite ''acme'' 3 ''export.pdf'' ''logo.bin'' [1, 2, 3] (replicate 32 7) (\<lambda>n. replicate n 1) = Inr a \<and>
     sa_decode (sa_encode a) = Inr a \<and> sa_open toy_suite a (replicate 32 7) = Inr [1, 2, 3]"
proof -
  have "\<exists>a. sa_seal toy_suite ''acme'' 3 ''export.pdf'' ''logo.bin'' [1, 2, 3] (replicate 32 7) (\<lambda>n. replicate n 1) = Inr a"
    by (simp add: sa_seal_def Let_def identifiers_are_valid_def identifier_is_valid_def MAX_ASSET_ID_BYTES_def
        toy_suite_def cl_std_1_def xchacha20poly1305_def checked_add_usize_def u64_max_def seal_with_nonce_def
        random_nonce_def oversized_def encoded_len_with_ciphertext_def cbor_blob_len_def cbor_uint_len_def
        SEALED_ASSET_SCHEMA_V1_def MAX_SEALED_ASSET_BYTES_def CL_STD_1_SUITE_ID_def suite_from_u32_def str_bytes_def)
  then obtain a where a: "sa_seal toy_suite ''acme'' 3 ''export.pdf'' ''logo.bin'' [1, 2, 3] (replicate 32 7)
      (\<lambda>n. replicate n 1) = Inr a" ..
  have utf8: "list_all (\<lambda>s. utf8_valid (str_bytes s)) [''acme'', ''export.pdf'', ''logo.bin'']"
    by (auto intro!: ascii_utf8)
  have "length (su_suite_id toy_suite) = 4" "(3::nat) \<le> u64_max"
    by (simp_all add: toy_suite_def cl_std_1_def CL_STD_1_SUITE_ID_def suite_from_u32_def u64_max_def)
  from sealed_asset_roundtrip [where rng = "\<lambda>n. replicate n 1", OF toy_suite_correct(1) _ this utf8 a] a
  show ?thesis by auto
qed

end
