(* ===== verification/Requests.thy ===== *)
theory Requests
  imports Device
begin

text \<open>
  The requests a client sends (\<open>copylocker-proto/src/requests.rs\<close>): activation, validation with
  its telemetry block, heartbeat and deactivation, which carry a device proof, and the account
  messages.  Encoders put the fields in the order of the source; decoders read them in the order
  of the source's struct expressions.
\<close>

section \<open>Shared readers\<close>

definition field_decode ::
  "(CborValue \<Rightarrow> (ProtoError, 'a) result) \<Rightarrow> CborValue \<Rightarrow> u64 \<Rightarrow> (ProtoError, 'a) result"
where
  "field_decode dec v k = bind_ok (field_req v k) dec"

definition field_uint_array :: "CborValue \<Rightarrow> u64 \<Rightarrow> (ProtoError, u64 list) result" where
  "field_uint_array v k =
     bind_ok (field_with as_array v k) (\<lambda>arr. try_map (\<lambda>x. ok_or (as_uint x) (mismatch k)) arr)"

text \<open>The \<open>decode\<close> of the macro \<open>artifact_like!\<close>.\<close>

definition request_decode ::
  "(CborValue \<Rightarrow> (ProtoError, 'a) result) \<Rightarrow> bytes \<Rightarrow> (ProtoError, 'a) result"
where
  "request_decode from_value bs =
     bind_ok (decode_bounded MAX_BODY_BYTES CLIENT_LIMITS bs) (record_parse from_value)"

definition request_from_canonical ::
  "(CborValue \<Rightarrow> (ProtoError, 'a) result) \<Rightarrow> bytes \<Rightarrow> (CodecError, 'a) result"
where
  "request_from_canonical from_value bs = map_err codec_of_proto (request_decode from_value bs)"

section \<open>Credentials and client metadata\<close>

datatype Credential = LicenseKey string | AccountToken bytes

fun credential_to_value :: "Credential \<Rightarrow> CborValue" where
  "credential_to_value (LicenseKey k) = put_all [(0, Some (CText k))]"
| "credential_to_value (AccountToken t) = put_all [(1, Some (Bytes t))]"

definition credential_from_value :: "CborValue \<Rightarrow> (ProtoError, Credential) result" where
  "credential_from_value v =
     bind_ok (ok_or (as_map v) (Codec Malformed)) (\<lambda>entries.
     if length entries \<noteq> 1 then Inl (Codec Malformed)
     else if field_opt v 0 \<noteq> None then bind_ok (field_text v 0) (\<lambda>k. Inr (LicenseKey k))
     else if field_opt v 1 \<noteq> None then bind_ok (field_bytes v 1) (\<lambda>t. Inr (AccountToken t))
     else Inl (Codec UnknownDiscriminant))"

record ClientInfo =
  ci_app_version :: string
  ci_sdk_version :: string
  ci_os :: string
  ci_arch :: string
  ci_build_fingerprint :: string
  ci_release_id :: string
  ci_variant_id :: u64
  ci_supported_suites :: "SuiteId list"
  ci_supported_variants :: "u64 list"

definition client_info_to_value :: "ClientInfo \<Rightarrow> CborValue" where
  "client_info_to_value c =
     put_all
       [(0, Some (CText (ci_app_version c))),
        (1, Some (CText (ci_sdk_version c))),
        (2, Some (CText (ci_os c))),
        (3, Some (CText (ci_arch c))),
        (4, Some (CText (ci_build_fingerprint c))),
        (5, Some (CText (ci_release_id c))),
        (6, Some (Uint (ci_variant_id c))),
        (7, Some (Array (map Bytes (ci_supported_suites c)))),
        (8, Some (Array (map Uint (ci_supported_variants c))))]"

definition client_info_from_value :: "CborValue \<Rightarrow> (ProtoError, ClientInfo) result" where
  "client_info_from_value v =
     bind_ok (field_uint_array v 8) (\<lambda>variants.
     bind_ok (field_text v 0) (\<lambda>app_version.
     bind_ok (field_text v 1) (\<lambda>sdk_version.
     bind_ok (field_text v 2) (\<lambda>os.
     bind_ok (field_text v 3) (\<lambda>arch.
     bind_ok (field_text v 4) (\<lambda>build_fingerprint.
     bind_ok (field_text v 5) (\<lambda>release_id.
     bind_ok (field_uint v 6) (\<lambda>variant_id.
     bind_ok (field_fixed_array 4 v 7) (\<lambda>suites.
     Inr \<lparr>ci_app_version = app_version, ci_sdk_version = sdk_version, ci_os = os, ci_arch = arch,
          ci_build_fingerprint = build_fingerprint, ci_release_id = release_id, ci_variant_id = variant_id,
          ci_supported_suites = suites, ci_supported_variants = variants\<rparr>)))))))))"

section \<open>Activation\<close>

record ActivationRequest =
  ar_proto_ver :: nat
  ar_suite_id :: SuiteId
  ar_product_id :: string
  ar_credential :: Credential
  ar_fingerprint :: Fingerprint
  ar_device_attrs :: "DeviceAttrs option"
  ar_device_kem_ek :: bytes
  ar_device_sig_vk :: bytes
  ar_nonce_c :: bytes
  ar_client_time :: i64
  ar_client_info :: ClientInfo
  ar_attestation :: "bytes option"
  ar_proof :: bytes

definition activation_request_inner :: "bool \<Rightarrow> ActivationRequest \<Rightarrow> CborValue" where
  "activation_request_inner include_proof r =
     put_all
       [(0, Some (Uint (ar_proto_ver r))),
        (1, Some (Bytes (ar_suite_id r))),
        (2, Some (CText (ar_product_id r))),
        (3, Some (credential_to_value (ar_credential r))),
        (4, Some (Bytes (ar_fingerprint r))),
        (5, map_option encode_attrs (ar_device_attrs r)),
        (6, Some (Bytes (ar_device_kem_ek r))),
        (7, Some (Bytes (ar_nonce_c r))),
        (8, Some (cbor_int (ar_client_time r))),
        (9, Some (client_info_to_value (ar_client_info r))),
        (10, map_option Bytes (ar_attestation r)),
        (11, Some (Bytes (ar_device_sig_vk r))),
        (12, if include_proof then Some (Bytes (ar_proof r)) else None)]"

definition activation_request_to_value :: "ActivationRequest \<Rightarrow> CborValue" where
  "activation_request_to_value r = activation_request_inner True r"

definition activation_proof_input :: "ActivationRequest \<Rightarrow> bytes" where
  "activation_proof_input r = to_canonical (activation_request_inner False r)"

definition activation_request_from_value :: "CborValue \<Rightarrow> (ProtoError, ActivationRequest) result" where
  "activation_request_from_value v =
     bind_ok (field_u8 v 0) (\<lambda>proto_ver.
     bind_ok (field_suite_id v 1) (\<lambda>suite_id.
     bind_ok (field_text v 2) (\<lambda>product_id.
     bind_ok (field_decode credential_from_value v 3) (\<lambda>credential.
     bind_ok (field_fingerprint v 4) (\<lambda>fingerprint.
     bind_ok (field_opt_decode decode_attrs v 5) (\<lambda>device_attrs.
     bind_ok (field_bytes v 6) (\<lambda>device_kem_ek.
     bind_ok (field_fixed 32 v 7) (\<lambda>nonce_c.
     bind_ok (field_int v 8) (\<lambda>client_time.
     bind_ok (field_decode client_info_from_value v 9) (\<lambda>client_info.
     bind_ok (field_opt_bytes v 10) (\<lambda>attestation.
     bind_ok (field_bytes v 11) (\<lambda>device_sig_vk.
     bind_ok (field_bytes v 12) (\<lambda>proof'.
     Inr \<lparr>ar_proto_ver = proto_ver, ar_suite_id = suite_id, ar_product_id = product_id,
          ar_credential = credential, ar_fingerprint = fingerprint, ar_device_attrs = device_attrs,
          ar_device_kem_ek = device_kem_ek, ar_device_sig_vk = device_sig_vk, ar_nonce_c = nonce_c,
          ar_client_time = client_time, ar_client_info = client_info, ar_attestation = attestation,
          ar_proof = proof'\<rparr>)))))))))))))"

section \<open>Telemetry\<close>

definition MAX_TELEMETRY_BLOCK_BYTES :: nat where "MAX_TELEMETRY_BLOCK_BYTES = 512"

record TelemetryBlock =
  tb_consent_version :: u64
  tb_window_start :: u64
  tb_session_count :: u64
  tb_session_duration_histogram :: "u64 list"
  tb_feature_hits :: "(string, u64) bmap"
  tb_days_active :: u64

definition telemetry_to_value :: "TelemetryBlock \<Rightarrow> CborValue" where
  "telemetry_to_value t =
     put_all
       [(0, Some (Uint (tb_consent_version t))),
        (1, Some (Uint (tb_window_start t))),
        (2, Some (Uint (tb_session_count t))),
        (3, Some (Array (map Uint (tb_session_duration_histogram t)))),
        (4, Some (Map (map (\<lambda>(name, count). (CText name, Uint count)) (tb_feature_hits t)))),
        (5, Some (Uint (tb_days_active t)))]"

definition feature_hit_step ::
  "(string, u64) bmap \<Rightarrow> CborValue \<times> CborValue \<Rightarrow> (ProtoError, (string, u64) bmap) result"
where
  "feature_hit_step hits e =
     bind_ok (ok_or (as_str (fst e)) (Codec (TypeMismatch 4))) (\<lambda>name.
     bind_ok (ok_or (as_uint (snd e)) (Codec (TypeMismatch 4))) (\<lambda>count.
     if bmap_get hits name \<noteq> None then Inl (Codec Malformed)
     else Inr (bmap_insert name count hits)))"

definition telemetry_from_value :: "CborValue \<Rightarrow> (ProtoError, TelemetryBlock) result" where
  "telemetry_from_value v =
     bind_ok (field_uint_array v 3) (\<lambda>histogram.
     if length histogram \<noteq> 4 then Inl (Codec Malformed)
     else
       bind_ok (field_with as_map v 4) (\<lambda>hits.
       bind_ok (try_fold feature_hit_step [] hits) (\<lambda>feature_hits.
       bind_ok (field_uint v 0) (\<lambda>consent_version.
       bind_ok (field_uint v 1) (\<lambda>window_start.
       bind_ok (field_uint v 2) (\<lambda>session_count.
       bind_ok (field_uint v 5) (\<lambda>days_active.
       Inr \<lparr>tb_consent_version = consent_version, tb_window_start = window_start,
            tb_session_count = session_count, tb_session_duration_histogram = histogram,
            tb_feature_hits = feature_hits, tb_days_active = days_active\<rparr>)))))))"

definition telemetry_encode :: "TelemetryBlock \<Rightarrow> bytes" where
  "telemetry_encode t = to_canonical (telemetry_to_value t)"

definition telemetry_decode :: "bytes \<Rightarrow> (ProtoError, TelemetryBlock) result" where
  "telemetry_decode bs =
     bind_ok (decode_bounded MAX_TELEMETRY_BLOCK_BYTES CLIENT_LIMITS bs) (record_parse telemetry_from_value)"

section \<open>Validation\<close>

record ValidateRequest =
  vr_proto_ver :: nat
  vr_suite_id :: SuiteId
  vr_license_id :: LicenseId
  vr_machine_id :: MachineId
  vr_fingerprint :: Fingerprint
  vr_nonce_c :: bytes
  vr_client_time :: i64
  vr_known_revocation_epoch :: u64
  vr_client_info :: ClientInfo
  vr_proof :: bytes
  vr_integrity_summary :: "bytes option"
  vr_known_security_floor :: u64
  vr_telemetry :: "TelemetryBlock option"

definition validate_request_inner :: "bool \<Rightarrow> ValidateRequest \<Rightarrow> CborValue" where
  "validate_request_inner include_proof r =
     put_all
       [(0, Some (Uint (vr_proto_ver r))),
        (1, Some (Bytes (vr_suite_id r))),
        (2, Some (Bytes (vr_machine_id r))),
        (3, Some (Bytes (vr_fingerprint r))),
        (4, Some (Bytes (vr_nonce_c r))),
        (5, Some (cbor_int (vr_client_time r))),
        (6, Some (Uint (vr_known_revocation_epoch r))),
        (7, Some (client_info_to_value (vr_client_info r))),
        (8, if include_proof then Some (Bytes (vr_proof r)) else None),
        (9, map_option Bytes (vr_integrity_summary r)),
        (10, Some (Uint (vr_known_security_floor r))),
        (11, map_option telemetry_to_value (vr_telemetry r)),
        (12, Some (Bytes (vr_license_id r)))]"

definition validate_request_to_value :: "ValidateRequest \<Rightarrow> CborValue" where
  "validate_request_to_value r = validate_request_inner True r"

definition validate_proof_input :: "ValidateRequest \<Rightarrow> bytes" where
  "validate_proof_input r = to_canonical (validate_request_inner False r)"

definition validate_request_from_value :: "CborValue \<Rightarrow> (ProtoError, ValidateRequest) result" where
  "validate_request_from_value v =
     bind_ok (field_u8 v 0) (\<lambda>proto_ver.
     bind_ok (field_suite_id v 1) (\<lambda>suite_id.
     bind_ok (field_license_id v 12) (\<lambda>license_id.
     bind_ok (field_machine_id v 2) (\<lambda>machine_id.
     bind_ok (field_fingerprint v 3) (\<lambda>fingerprint.
     bind_ok (field_fixed 32 v 4) (\<lambda>nonce_c.
     bind_ok (field_int v 5) (\<lambda>client_time.
     bind_ok (field_uint v 6) (\<lambda>known_revocation_epoch.
     bind_ok (field_decode client_info_from_value v 7) (\<lambda>client_info.
     bind_ok (field_bytes v 8) (\<lambda>proof'.
     bind_ok (field_opt_bytes v 9) (\<lambda>integrity_summary.
     bind_ok (field_uint v 10) (\<lambda>known_security_floor.
     bind_ok (field_opt_decode telemetry_from_value v 11) (\<lambda>telemetry.
     Inr \<lparr>vr_proto_ver = proto_ver, vr_suite_id = suite_id, vr_license_id = license_id,
          vr_machine_id = machine_id, vr_fingerprint = fingerprint, vr_nonce_c = nonce_c,
          vr_client_time = client_time, vr_known_revocation_epoch = known_revocation_epoch,
          vr_client_info = client_info, vr_proof = proof', vr_integrity_summary = integrity_summary,
          vr_known_security_floor = known_security_floor, vr_telemetry = telemetry\<rparr>)))))))))))))"

section \<open>Heartbeat\<close>

record HeartbeatRequest =
  hb_proto_ver :: nat
  hb_suite_id :: SuiteId
  hb_license_id :: LicenseId
  hb_machine_id :: MachineId
  hb_nonce_c :: bytes
  hb_client_time :: i64
  hb_proof :: bytes

definition heartbeat_request_inner :: "bool \<Rightarrow> HeartbeatRequest \<Rightarrow> CborValue" where
  "heartbeat_request_inner include_proof r =
     put_all
       [(0, Some (Uint (hb_proto_ver r))),
        (1, Some (Bytes (hb_suite_id r))),
        (2, Some (Bytes (hb_license_id r))),
        (3, Some (Bytes (hb_machine_id r))),
        (4, Some (Bytes (hb_nonce_c r))),
        (5, Some (cbor_int (hb_client_time r))),
        (6, if include_proof then Some (Bytes (hb_proof r)) else None)]"

definition heartbeat_request_to_value :: "HeartbeatRequest \<Rightarrow> CborValue" where
  "heartbeat_request_to_value r = heartbeat_request_inner True r"

definition heartbeat_proof_input :: "HeartbeatRequest \<Rightarrow> bytes" where
  "heartbeat_proof_input r = to_canonical (heartbeat_request_inner False r)"

definition heartbeat_request_from_value :: "CborValue \<Rightarrow> (ProtoError, HeartbeatRequest) result" where
  "heartbeat_request_from_value v =
     bind_ok (field_u8 v 0) (\<lambda>proto_ver.
     bind_ok (field_suite_id v 1) (\<lambda>suite_id.
     bind_ok (field_license_id v 2) (\<lambda>license_id.
     bind_ok (field_machine_id v 3) (\<lambda>machine_id.
     bind_ok (field_fixed 32 v 4) (\<lambda>nonce_c.
     bind_ok (field_int v 5) (\<lambda>client_time.
     bind_ok (field_bytes v 6) (\<lambda>proof'.
     Inr \<lparr>hb_proto_ver = proto_ver, hb_suite_id = suite_id, hb_license_id = license_id,
          hb_machine_id = machine_id, hb_nonce_c = nonce_c, hb_client_time = client_time,
          hb_proof = proof'\<rparr>)))))))"

section \<open>Deactivation\<close>

record DeactivateRequest =
  da_proto_ver :: nat
  da_suite_id :: SuiteId
  da_license_id :: LicenseId
  da_machine_id :: MachineId
  da_nonce_c :: bytes
  da_client_time :: i64
  da_proof :: bytes

definition deactivate_request_inner :: "bool \<Rightarrow> DeactivateRequest \<Rightarrow> CborValue" where
  "deactivate_request_inner include_proof r =
     put_all
       [(0, Some (Uint (da_proto_ver r))),
        (1, Some (Bytes (da_suite_id r))),
        (2, Some (Bytes (da_license_id r))),
        (3, Some (Bytes (da_machine_id r))),
        (4, Some (Bytes (da_nonce_c r))),
        (5, Some (cbor_int (da_client_time r))),
        (6, if include_proof then Some (Bytes (da_proof r)) else None)]"

definition deactivate_request_to_value :: "DeactivateRequest \<Rightarrow> CborValue" where
  "deactivate_request_to_value r = deactivate_request_inner True r"

definition deactivate_proof_input :: "DeactivateRequest \<Rightarrow> bytes" where
  "deactivate_proof_input r = to_canonical (deactivate_request_inner False r)"

definition deactivate_request_from_value :: "CborValue \<Rightarrow> (ProtoError, DeactivateRequest) result" where
  "deactivate_request_from_value v =
     bind_ok (field_u8 v 0) (\<lambda>proto_ver.
     bind_ok (field_suite_id v 1) (\<lambda>suite_id.
     bind_ok (field_license_id v 2) (\<lambda>license_id.
     bind_ok (field_machine_id v 3) (\<lambda>machine_id.
     bind_ok (field_fixed 32 v 4) (\<lambda>nonce_c.
     bind_ok (field_int v 5) (\<lambda>client_time.
     bind_ok (field_bytes v 6) (\<lambda>proof'.
     Inr \<lparr>da_proto_ver = proto_ver, da_suite_id = suite_id, da_license_id = license_id,
          da_machine_id = machine_id, da_nonce_c = nonce_c, da_client_time = client_time,
          da_proof = proof'\<rparr>)))))))"

section \<open>Account messages\<close>

definition ACCOUNT_SCHEMA_V1 :: u64 where "ACCOUNT_SCHEMA_V1 = 1"
definition ACCOUNT_TOKEN_LEN :: nat where "ACCOUNT_TOKEN_LEN = 32"
definition MAX_ACCOUNT_EMAIL_BYTES :: nat where "MAX_ACCOUNT_EMAIL_BYTES = 254"
definition MAX_ACCOUNT_PASSWORD_BYTES :: nat where "MAX_ACCOUNT_PASSWORD_BYTES = 1024"

definition is_product_slug :: "string \<Rightarrow> bool" where
  "is_product_slug s \<longleftrightarrow>
     s \<noteq> [] \<and> length s \<le> 128 \<and>
     list_all (\<lambda>c. let n = (of_char c :: nat) in
        48 \<le> n \<and> n \<le> 57 \<or> 65 \<le> n \<and> n \<le> 90 \<or> 97 \<le> n \<and> n \<le> 122 \<or>
        c = CHR ''-'' \<or> c = CHR ''_'' \<or> c = CHR ''.'') s"

definition is_account_email :: "string \<Rightarrow> bool" where
  "is_account_email s \<longleftrightarrow>
     length s \<ge> 3 \<and> length s \<le> MAX_ACCOUNT_EMAIL_BYTES \<and>
     list_ex (\<lambda>c. c = CHR ''@'') s \<and>
     \<not> list_ex (\<lambda>c. let n = (of_char c :: nat) in n < 32 \<or> n = 127 \<or> c = CHR '' '' \<or> n = 0) s"

record AccountLoginRequest =
  al_schema :: u64
  al_product_id :: string
  al_email :: string
  al_password :: string

definition account_login_validate :: "AccountLoginRequest \<Rightarrow> (ProtoError, unit) result" where
  "account_login_validate r =
     (if al_schema r \<noteq> ACCOUNT_SCHEMA_V1 \<or> \<not> is_product_slug (al_product_id r) \<or>
         \<not> is_account_email (al_email r) \<or> al_password r = [] \<or>
         length (al_password r) > MAX_ACCOUNT_PASSWORD_BYTES \<or> 0 \<in> set (str_bytes (al_password r))
      then Inl (Codec Malformed) else Inr ())"

definition account_login_new :: "string \<Rightarrow> string \<Rightarrow> string \<Rightarrow> (ProtoError, AccountLoginRequest) result" where
  "account_login_new product_id email password =
     (let v = \<lparr>al_schema = ACCOUNT_SCHEMA_V1, al_product_id = product_id, al_email = email, al_password = password\<rparr>
      in bind_ok (account_login_validate v) (\<lambda>_. Inr v))"

definition account_login_fields :: "AccountLoginRequest \<Rightarrow> (u64 \<times> CborValue option) list" where
  "account_login_fields r =
     [(0, Some (Uint (al_schema r))), (1, Some (CText (al_product_id r))), (2, Some (CText (al_email r))),
      (3, Some (CText (al_password r)))]"

definition account_login_encode :: "AccountLoginRequest \<Rightarrow> bytes" where
  "account_login_encode r = to_canonical (put_all (account_login_fields r))"

definition account_login_decode :: "bytes \<Rightarrow> (ProtoError, AccountLoginRequest) result" where
  "account_login_decode bs =
     bind_ok (decode_bounded MAX_BODY_BYTES CLIENT_LIMITS bs) (\<lambda>v.
     if \<not> has_entries 4 v then Inl (Codec Malformed)
     else
       bind_ok (field_uint v 0) (\<lambda>schema.
       bind_ok (field_text v 1) (\<lambda>product_id.
       bind_ok (field_text v 2) (\<lambda>email.
       bind_ok (field_text v 3) (\<lambda>password.
       let r = \<lparr>al_schema = schema, al_product_id = product_id, al_email = email, al_password = password\<rparr>
       in bind_ok (account_login_validate r) (\<lambda>_. Inr r))))))"

text \<open>Refresh and logout carry the same two fields.\<close>

record AccountTokenRequest =
  at_schema :: u64
  at_refresh_token :: bytes

definition account_token_new :: "bytes \<Rightarrow> AccountTokenRequest" where
  "account_token_new token = \<lparr>at_schema = ACCOUNT_SCHEMA_V1, at_refresh_token = token\<rparr>"

definition account_token_fields :: "AccountTokenRequest \<Rightarrow> (u64 \<times> CborValue option) list" where
  "account_token_fields r = [(0, Some (Uint (at_schema r))), (1, Some (Bytes (at_refresh_token r)))]"

definition account_token_encode :: "AccountTokenRequest \<Rightarrow> bytes" where
  "account_token_encode r = to_canonical (put_all (account_token_fields r))"

definition account_token_request :: "bytes \<Rightarrow> (ProtoError, bytes) result" where
  "account_token_request bs =
     bind_ok (decode_bounded MAX_BODY_BYTES CLIENT_LIMITS bs) (\<lambda>v.
     if \<not> has_entries 2 v then Inl (Codec Malformed)
     else
       bind_ok (field_uint v 0) (\<lambda>schema.
       if schema \<noteq> ACCOUNT_SCHEMA_V1 then Inl (Codec Malformed)
       else field_fixed ACCOUNT_TOKEN_LEN v 1))"

definition account_token_decode :: "bytes \<Rightarrow> (ProtoError, AccountTokenRequest) result" where
  "account_token_decode bs = bind_ok (account_token_request bs) (\<lambda>token. Inr (account_token_new token))"

section \<open>Nested values read back\<close>

lemma field_decode_back: "cbor_get v k = Some x \<Longrightarrow> dec x = Inr a \<Longrightarrow> field_decode dec v k = Inr a"
  by (simp add: field_decode_def field_req_def)

lemma uint_array_back: "cbor_get v k = Some (Array (map Uint ns)) \<Longrightarrow> field_uint_array v k = Inr ns"
proof -
  have "try_map (\<lambda>x. ok_or (as_uint x) e) (map Uint ns) = Inr ns" for e :: ProtoError
    by (induction ns) simp_all
  then show "cbor_get v k = Some (Array (map Uint ns)) \<Longrightarrow> ?thesis"
    by (simp add: field_uint_array_def field_with_def field_req_def)
qed

lemma nodup_uints [simp]: "list_all nodup (map Uint ns)"
  by (simp add: list_all_iff)

lemma credential_back: "credential_from_value (canon (credential_to_value c)) = Inr c"
proof -
  have one: "\<exists>m. as_map (canon (put_all [(k, Some v)])) = Some m \<and> length m = 1" for k v
    using has_entries_canon [of 1 "[(k, Some v)]"]
    by (auto simp: has_entries_def entries_of_def split: option.splits)
  show ?thesis
  proof (cases c)
    case (LicenseKey k)
    with one [of 0 "CText k"] show ?thesis
      by (auto simp: credential_from_value_def field_opt_def get_canon_fields read_defs)
  next
    case (AccountToken t)
    with one [of 1 "Bytes t"] show ?thesis
      by (auto simp: credential_from_value_def field_opt_def get_canon_fields read_defs)
  qed
qed

lemma credential_nodup: "nodup (credential_to_value c)"
  by (cases c) (auto intro!: nodup_fields)

definition client_info_ok :: "ClientInfo \<Rightarrow> bool" where
  "client_info_ok c \<longleftrightarrow> list_all (\<lambda>s. length s = 4) (ci_supported_suites c)"

lemma client_info_back:
  assumes "client_info_ok c"
  shows "client_info_from_value (canon (client_info_to_value c)) = Inr c"
proof -
  let ?v = "canon (client_info_to_value c)"
  note get = client_info_to_value_def get_canon_fields
  have "field_uint_array ?v 8 = Inr (ci_supported_variants c)"
    by (rule uint_array_back) (simp add: get)
  with assms show ?thesis
    by (simp add: client_info_from_value_def client_info_ok_def read_defs get)
qed

lemma client_info_nodup: "nodup (client_info_to_value c)"
  unfolding client_info_to_value_def by (rule nodup_fields) simp_all

definition telemetry_ok :: "TelemetryBlock \<Rightarrow> bool" where
  "telemetry_ok t \<longleftrightarrow> length (tb_session_duration_histogram t) = 4 \<and> bmap_wf (tb_feature_hits t)"

lemma feature_hits_fold:
  assumes "distinct (map fst kvs)" "\<forall>k \<in> fst ` set kvs. bmap_get out k = None"
  shows "try_fold feature_hit_step out (map (\<lambda>(k, n). (CText k, Uint n)) kvs) = Inr (bmap_copy kvs out)"
  using assms
proof (induction kvs arbitrary: out)
  case (Cons kv kvs)
  obtain k n where kv: "kv = (k, n)" by fastforce
  have "\<forall>j \<in> fst ` set kvs. bmap_get (bmap_insert k n out) j = None"
    using Cons.prems kv by (auto simp: bmap_get_insert)
  with Cons kv show ?case by (simp add: feature_hit_step_def bmap_copy_def)
qed (simp add: bmap_copy_def)

lemma telemetry_back:
  assumes "telemetry_ok t"
  shows "telemetry_from_value (canon (telemetry_to_value t)) = Inr t"
proof -
  let ?v = "canon (telemetry_to_value t)"
  note get = telemetry_to_value_def get_canon_fields
  obtain kvs where c: "canon (Map (map (\<lambda>(k, n). (CText k, Uint n)) (tb_feature_hits t))) =
      Map (map (\<lambda>(k, n). (CText k, canon (Uint n))) kvs)"
    and hits: "bmap_copy kvs [] = tb_feature_hits t" "distinct (map fst kvs)"
    using canon_plain_keys [where kenc = CText and enc = Uint and m = "tb_feature_hits t", OF _ canon_CText] assms
    unfolding telemetry_ok_def by blast
  from c have "field_with as_map ?v 4 = Inr (map (\<lambda>(k, n). (CText k, Uint n)) kvs)"
    by (simp add: get field_with_def field_req_def del: canon.simps) simp
  moreover have "field_uint_array ?v 3 = Inr (tb_session_duration_histogram t)"
    by (rule uint_array_back) (simp add: get)
  moreover have "try_fold feature_hit_step [] (map (\<lambda>(k, n). (CText k, Uint n)) kvs) = Inr (tb_feature_hits t)"
    using feature_hits_fold [of kvs "[]"] hits by simp
  ultimately show ?thesis
    using assms by (simp add: telemetry_from_value_def telemetry_ok_def)
      (simp add: read_defs get)
qed

lemma telemetry_nodup: "telemetry_ok t \<Longrightarrow> nodup (telemetry_to_value t)"
  unfolding telemetry_to_value_def
  by (rule nodup_fields)
    (simp_all add: telemetry_ok_def nodup_plain_keys [where enc = Uint, OF _ canon_CText inj_CText] del: nodup.simps(2))

lemma telemetry_not_null: "\<not> is_null (canon (telemetry_to_value t))"
  using as_map_canon_fields [of _] unfolding telemetry_to_value_def
  by (metis is_null.elims(2) as_map.simps(8) option.distinct(1))

section \<open>Requests with a device proof\<close>

text \<open>
  What a signed request promises besides being a record on the wire: the value that is signed
  is within the limits whenever the request is, has no duplicate keys, and determines every
  field but the proof (\<open>unproved\<close> forgets it).
\<close>

locale signed_request = wire_record to_value from_value CLIENT_LIMITS ok
  for to_value :: "'a \<Rightarrow> CborValue" and from_value and ok +
  fixes proof_value :: "'a \<Rightarrow> CborValue" and unproved :: "'a \<Rightarrow> 'a"
  assumes proof_within: "within CLIENT_LIMITS 0 (to_value a) \<Longrightarrow> within CLIENT_LIMITS 0 (proof_value a)"
    and proof_nodup: "ok a \<Longrightarrow> nodup (proof_value a)"
    and proof_determines: "ok a \<Longrightarrow> ok b \<Longrightarrow> canon (proof_value a) = canon (proof_value b) \<Longrightarrow> unproved a = unproved b"
begin

lemma request_roundtrip:
  assumes "fits a" "length (to_canonical (to_value a)) \<le> MAX_BODY_BYTES"
  shows "request_decode from_value (to_canonical (to_value a)) = Inr a"
  using assms decode_bounded_written [OF assms(2)] parse_back value_nodup by (simp add: request_decode_def)

lemma proof_covers:
  assumes "fits a" "fits b" "to_canonical (proof_value a) = to_canonical (proof_value b)"
  shows "unproved a = unproved b"
proof -
  have w: "within CLIENT_LIMITS 0 (proof_value a)" "within CLIENT_LIMITS 0 (proof_value b)"
    using assms proof_within by blast+
  have "canon (proof_value a) = canon (proof_value b)"
    using read_value_back [OF w(1), of "[]"] read_value_back [OF w(2), of "[]"] assms proof_nodup by simp
  then show ?thesis using assms proof_determines by blast
qed

end

lemma canon_fields_determine:
  assumes "canon (put_all fs) = canon (put_all gs)" "distinct (map fst fs)" "distinct (map fst gs)"
  shows "map_option canon (field_value fs k) = map_option canon (field_value gs k)"
  using get_canon_fields [OF assms(2), of k] get_canon_fields [OF assms(3), of k] assms(1) by simp

lemma within_client:
  "length fs \<le> 1024 \<Longrightarrow> within CLIENT_LIMITS 0 (put_all fs) \<longleftrightarrow>
   list_all (\<lambda>(k, ov). pred_option (\<lambda>v. within CLIENT_LIMITS 1 (Uint k) \<and> within CLIENT_LIMITS 1 v) ov) fs"
  by (rule within_put_all) (simp_all add: CLIENT_LIMITS_def u64_max_def)

lemma cbor_int_inject: "in_i64 a \<Longrightarrow> in_i64 b \<Longrightarrow> cbor_int a = cbor_int b \<longleftrightarrow> a = b"
  by (rule cbor_i64.enc_inject)

definition heartbeat_request_ok :: "HeartbeatRequest \<Rightarrow> bool" where
  "heartbeat_request_ok r \<longleftrightarrow>
     hb_proto_ver r \<le> 255 \<and> length (hb_suite_id r) = 4 \<and> length (hb_nonce_c r) = 32 \<and>
     in_i64 (hb_client_time r) \<and> length (hb_license_id r) = 16 \<and> length (hb_machine_id r) = 16"

definition deactivate_request_ok :: "DeactivateRequest \<Rightarrow> bool" where
  "deactivate_request_ok r \<longleftrightarrow>
     da_proto_ver r \<le> 255 \<and> length (da_suite_id r) = 4 \<and> length (da_nonce_c r) = 32 \<and>
     in_i64 (da_client_time r) \<and> length (da_license_id r) = 16 \<and> length (da_machine_id r) = 16"

interpretation heartbeat_wire: signed_request heartbeat_request_to_value heartbeat_request_from_value heartbeat_request_ok
  "heartbeat_request_inner False" "\<lambda>r. r\<lparr>hb_proof := []\<rparr>"
proof
  note fields = heartbeat_request_to_value_def heartbeat_request_inner_def
  fix a b :: HeartbeatRequest
  show "\<exists>m. as_map (canon (heartbeat_request_to_value a)) = Some m" by (simp add: fields as_map_canon_fields)
  show "within CLIENT_LIMITS 0 (heartbeat_request_to_value a) \<Longrightarrow> within CLIENT_LIMITS 0 (heartbeat_request_inner False a)"
    by (simp add: fields within_client)
  assume a: "heartbeat_request_ok a"
  show "nodup (heartbeat_request_to_value a)" "nodup (heartbeat_request_inner False a)"
    unfolding fields by (rule nodup_fields; simp)+
  from a show "heartbeat_request_from_value (canon (heartbeat_request_to_value a)) = Inr a"
    by (simp add: heartbeat_request_from_value_def heartbeat_request_ok_def read_defs fields get_canon_fields)
  assume b: "heartbeat_request_ok b" and eq: "canon (heartbeat_request_inner False a) = canon (heartbeat_request_inner False b)"
  note same = canon_fields_determine [OF eq [unfolded heartbeat_request_inner_def]]
  show "a\<lparr>hb_proof := []\<rparr> = b\<lparr>hb_proof := []\<rparr>"
    using same [of 0] same [of 1] same [of 2] same [of 3] same [of 4] same [of 5] a b
    by (cases a; cases b) (simp add: heartbeat_request_ok_def cbor_int_inject)
qed

interpretation deactivate_wire: signed_request deactivate_request_to_value deactivate_request_from_value deactivate_request_ok
  "deactivate_request_inner False" "\<lambda>r. r\<lparr>da_proof := []\<rparr>"
proof
  note fields = deactivate_request_to_value_def deactivate_request_inner_def
  fix a b :: DeactivateRequest
  show "\<exists>m. as_map (canon (deactivate_request_to_value a)) = Some m" by (simp add: fields as_map_canon_fields)
  show "within CLIENT_LIMITS 0 (deactivate_request_to_value a) \<Longrightarrow> within CLIENT_LIMITS 0 (deactivate_request_inner False a)"
    by (simp add: fields within_client)
  assume a: "deactivate_request_ok a"
  show "nodup (deactivate_request_to_value a)" "nodup (deactivate_request_inner False a)"
    unfolding fields by (rule nodup_fields; simp)+
  from a show "deactivate_request_from_value (canon (deactivate_request_to_value a)) = Inr a"
    by (simp add: deactivate_request_from_value_def deactivate_request_ok_def read_defs fields get_canon_fields)
  assume b: "deactivate_request_ok b" and eq: "canon (deactivate_request_inner False a) = canon (deactivate_request_inner False b)"
  note same = canon_fields_determine [OF eq [unfolded deactivate_request_inner_def]]
  show "a\<lparr>da_proof := []\<rparr> = b\<lparr>da_proof := []\<rparr>"
    using same [of 0] same [of 1] same [of 2] same [of 3] same [of 4] same [of 5] a b
    by (cases a; cases b) (simp add: deactivate_request_ok_def cbor_int_inject)
qed

definition activation_request_ok :: "ActivationRequest \<Rightarrow> bool" where
  "activation_request_ok r \<longleftrightarrow>
     ar_proto_ver r \<le> 255 \<and> length (ar_suite_id r) = 4 \<and> length (ar_nonce_c r) = 32 \<and>
     in_i64 (ar_client_time r) \<and> client_info_ok (ar_client_info r) \<and> pred_option attrs_ok (ar_device_attrs r)"

definition validate_request_ok :: "ValidateRequest \<Rightarrow> bool" where
  "validate_request_ok r \<longleftrightarrow>
     vr_proto_ver r \<le> 255 \<and> length (vr_suite_id r) = 4 \<and> length (vr_nonce_c r) = 32 \<and>
     length (vr_license_id r) = 16 \<and> length (vr_machine_id r) = 16 \<and> in_i64 (vr_client_time r) \<and>
     client_info_ok (vr_client_info r) \<and> pred_option telemetry_ok (vr_telemetry r)"

text \<open>Values that read back are equal when their canonical forms are.\<close>

lemma credential_canon_inject: "canon (credential_to_value c) = canon (credential_to_value d) \<longleftrightarrow> c = d"
  by (metis credential_back sum.inject(2))

lemma client_info_canon_inject:
  "client_info_ok c \<Longrightarrow> client_info_ok d \<Longrightarrow>
   canon (client_info_to_value c) = canon (client_info_to_value d) \<longleftrightarrow> c = d"
  by (metis client_info_back sum.inject(2))

lemma option_canon_inject:
  assumes "\<And>x. ok x \<Longrightarrow> dec (canon (enc x)) = Inr x" "pred_option ok a" "pred_option ok b"
    and "map_option (\<lambda>x. canon (enc x)) a = map_option (\<lambda>x. canon (enc x)) b"
  shows "a = b"
proof (cases a)
  case None
  with assms(4) show ?thesis by (cases b) simp_all
next
  case (Some x)
  with assms(4) obtain y where b: "b = Some y" and eq: "canon (enc x) = canon (enc y)"
    by (cases b) simp_all
  from Some b assms(2,3) have "dec (canon (enc x)) = Inr x" "dec (canon (enc y)) = Inr y"
    by (auto intro: assms(1))
  then have "x = y" unfolding eq by simp
  with Some b show ?thesis by simp
qed

lemma attrs_not_null: "\<not> is_null (canon (encode_attrs a))"
  by (simp add: encode_attrs_value attrs_value_canon)

interpretation activation_wire:
  signed_request activation_request_to_value activation_request_from_value activation_request_ok
    "activation_request_inner False" "\<lambda>r. r\<lparr>ar_proof := []\<rparr>"
proof
  note fields = activation_request_to_value_def activation_request_inner_def
  fix a b :: ActivationRequest
  let ?v = "canon (activation_request_to_value a)"
  show "\<exists>m. as_map ?v = Some m" by (simp add: fields as_map_canon_fields)
  show "within CLIENT_LIMITS 0 (activation_request_to_value a) \<Longrightarrow>
      within CLIENT_LIMITS 0 (activation_request_inner False a)"
    by (auto simp: fields within_client option.pred_set)
  assume a: "activation_request_ok a"
  then have attrs: "pred_option nodup (map_option encode_attrs (ar_device_attrs a))"
    by (cases "ar_device_attrs a") (simp_all add: activation_request_ok_def encode_attrs_value attrs_value_nodup)
  then show "nodup (activation_request_to_value a)" "nodup (activation_request_inner False a)"
    unfolding fields by (intro nodup_fields; simp add: credential_nodup client_info_nodup)+
  have "field_decode credential_from_value ?v 3 = Inr (ar_credential a)"
    by (rule field_decode_back [where dec = credential_from_value, OF _ credential_back]) (simp add: fields get_canon_fields)
  moreover have "field_decode client_info_from_value ?v 9 = Inr (ar_client_info a)"
    using a by (intro field_decode_back [where dec = client_info_from_value, OF _ client_info_back])
      (simp_all add: fields get_canon_fields activation_request_ok_def)
  moreover have "field_opt_decode decode_attrs ?v 5 = Inr (ar_device_attrs a)"
    using a by (intro opt_decode_back [where enc = "\<lambda>x. canon (encode_attrs x)"])
      (auto simp: fields get_canon_fields o_def activation_request_ok_def decode_attrs_canon attrs_not_null)
  ultimately show "activation_request_from_value ?v = Inr a"
    using a by (simp add: activation_request_from_value_def activation_request_ok_def)
      (simp add: read_defs fields get_canon_fields)
  assume b: "activation_request_ok b"
    and eq: "canon (activation_request_inner False a) = canon (activation_request_inner False b)"
  note same = canon_fields_determine [OF eq [unfolded activation_request_inner_def]]
  have "ar_device_attrs a = ar_device_attrs b"
    using same [of 5] a b
    by (intro option_canon_inject [of attrs_ok decode_attrs encode_attrs])
      (simp_all add: decode_attrs_canon activation_request_ok_def o_def)
  moreover have "ar_attestation a = ar_attestation b"
    using same [of 10] by (cases "ar_attestation a"; cases "ar_attestation b") simp_all
  ultimately show "a\<lparr>ar_proof := []\<rparr> = b\<lparr>ar_proof := []\<rparr>"
    using same [of 0] same [of 1] same [of 2] same [of 3] same [of 4] same [of 6] same [of 7] same [of 8]
      same [of 9] same [of 11] a b
    by (cases a; cases b)
      (simp add: activation_request_ok_def cbor_int_inject credential_canon_inject client_info_canon_inject)
qed

interpretation validate_wire:
  signed_request validate_request_to_value validate_request_from_value validate_request_ok
    "validate_request_inner False" "\<lambda>r. r\<lparr>vr_proof := []\<rparr>"
proof
  note fields = validate_request_to_value_def validate_request_inner_def
  fix a b :: ValidateRequest
  let ?v = "canon (validate_request_to_value a)"
  show "\<exists>m. as_map ?v = Some m" by (simp add: fields as_map_canon_fields)
  show "within CLIENT_LIMITS 0 (validate_request_to_value a) \<Longrightarrow>
      within CLIENT_LIMITS 0 (validate_request_inner False a)"
    by (auto simp: fields within_client option.pred_set)
  assume a: "validate_request_ok a"
  then have "pred_option nodup (map_option telemetry_to_value (vr_telemetry a))"
    by (cases "vr_telemetry a") (simp_all add: validate_request_ok_def telemetry_nodup)
  then show "nodup (validate_request_to_value a)" "nodup (validate_request_inner False a)"
    unfolding fields by (intro nodup_fields; simp add: client_info_nodup)+
  have "field_decode client_info_from_value ?v 7 = Inr (vr_client_info a)"
    using a by (intro field_decode_back [where dec = client_info_from_value, OF _ client_info_back])
      (simp_all add: fields get_canon_fields validate_request_ok_def)
  moreover have "field_opt_decode telemetry_from_value ?v 11 = Inr (vr_telemetry a)"
    using a by (intro opt_decode_back [where enc = "\<lambda>x. canon (telemetry_to_value x)"])
      (auto simp: fields get_canon_fields o_def validate_request_ok_def telemetry_back telemetry_not_null)
  ultimately show "validate_request_from_value ?v = Inr a"
    using a by (simp add: validate_request_from_value_def validate_request_ok_def)
      (simp add: read_defs fields get_canon_fields)
  assume b: "validate_request_ok b"
    and eq: "canon (validate_request_inner False a) = canon (validate_request_inner False b)"
  note same = canon_fields_determine [OF eq [unfolded validate_request_inner_def]]
  have "vr_telemetry a = vr_telemetry b"
    using same [of 11] a b
    by (intro option_canon_inject [of telemetry_ok telemetry_from_value telemetry_to_value])
      (simp_all add: telemetry_back validate_request_ok_def o_def)
  moreover have "vr_integrity_summary a = vr_integrity_summary b"
    using same [of 9] by (cases "vr_integrity_summary a"; cases "vr_integrity_summary b") simp_all
  ultimately show "a\<lparr>vr_proof := []\<rparr> = b\<lparr>vr_proof := []\<rparr>"
    using same [of 0] same [of 1] same [of 2] same [of 3] same [of 4] same [of 5] same [of 6] same [of 7]
      same [of 10] same [of 12] a b
    by (cases a; cases b) (simp add: validate_request_ok_def cbor_int_inject client_info_canon_inject)
qed

section \<open>Account messages read back\<close>

interpretation login_wire: codec account_login_encode "\<lambda>bs. result_ok (account_login_decode bs)"
  "\<lambda>r. account_login_validate r = Inr () \<and> length (account_login_encode r) \<le> MAX_BODY_BYTES \<and>
     within CLIENT_LIMITS 0 (put_all (account_login_fields r))"
proof
  fix r :: AccountLoginRequest
  assume ok: "account_login_validate r = Inr () \<and> length (account_login_encode r) \<le> MAX_BODY_BYTES \<and>
     within CLIENT_LIMITS 0 (put_all (account_login_fields r))"
  have "nodup (put_all (account_login_fields r))" by (rule nodup_fields) (simp_all add: account_login_fields_def)
  with ok have "decode_bounded MAX_BODY_BYTES CLIENT_LIMITS (account_login_encode r) =
      Inr (canon (put_all (account_login_fields r)))"
    unfolding account_login_encode_def by (intro decode_bounded_written) simp_all
  with ok show "result_ok (account_login_decode (account_login_encode r)) = Some r"
    by (cases r) (simp add: account_login_decode_def has_entries_canon read_defs get_canon_fields
        account_login_fields_def entries_of_def Let_def)
qed

interpretation token_wire: codec account_token_encode "\<lambda>bs. result_ok (account_token_decode bs)"
  "\<lambda>r. at_schema r = ACCOUNT_SCHEMA_V1 \<and> length (at_refresh_token r) = ACCOUNT_TOKEN_LEN"
proof
  fix r :: AccountTokenRequest
  assume ok: "at_schema r = ACCOUNT_SCHEMA_V1 \<and> length (at_refresh_token r) = ACCOUNT_TOKEN_LEN"
  have "nodup (put_all (account_token_fields r))" by (rule nodup_fields) (simp_all add: account_token_fields_def)
  moreover have "within CLIENT_LIMITS 0 (put_all (account_token_fields r))"
    using ok by (simp add: put_all_entries entries_of_def account_token_fields_def ACCOUNT_SCHEMA_V1_def ACCOUNT_TOKEN_LEN_def
        CLIENT_LIMITS_def MAX_CBOR_DEPTH_def u64_max_def)
  moreover have "length (account_token_encode r) \<le> MAX_BODY_BYTES"
    using ok by (simp add: account_token_encode_def length_put_all account_token_fields_def entries_of_def
        write_head_def ACCOUNT_SCHEMA_V1_def ACCOUNT_TOKEN_LEN_def MAX_BODY_BYTES_def)
  ultimately have "decode_bounded MAX_BODY_BYTES CLIENT_LIMITS (account_token_encode r) =
      Inr (canon (put_all (account_token_fields r)))"
    unfolding account_token_encode_def by (intro decode_bounded_written) simp_all
  with ok show "result_ok (account_token_decode (account_token_encode r)) = Some r"
    by (cases r) (simp add: account_token_decode_def account_token_request_def account_token_new_def
        has_entries_canon read_defs get_canon_fields account_token_fields_def entries_of_def)
qed

section \<open>Properties\<close>

definition demo_client_info :: ClientInfo where
  "demo_client_info =
     \<lparr>ci_app_version = [], ci_sdk_version = [], ci_os = [], ci_arch = [], ci_build_fingerprint = [],
      ci_release_id = [], ci_variant_id = 7, ci_supported_suites = [[1, 0, 0, 1]], ci_supported_variants = [7]\<rparr>"

definition demo_activation_request :: "bytes \<Rightarrow> ActivationRequest" where
  "demo_activation_request ek =
     \<lparr>ar_proto_ver = 1, ar_suite_id = [1, 0, 0, 1], ar_product_id = [], ar_credential = AccountToken [5],
      ar_fingerprint = [2], ar_device_attrs = None, ar_device_kem_ek = ek, ar_device_sig_vk = [3],
      ar_nonce_c = replicate 32 4, ar_client_time = 1700000000, ar_client_info = demo_client_info,
      ar_attestation = None, ar_proof = [6]\<rparr>"

text \<open>
  C4. A device proof covers the whole request.  Two activation requests, or two validation
  requests, with the same signed bytes agree in every field but the proof, so an intermediary
  cannot exchange the encapsulation key, the credential, the nonce, the fingerprint or the
  telemetry under a proof; and what a device sends within the body limit is what the server's
  decoder returns, whose re-encoding is again what was signed.
\<close>

theorem device_proof_covers_request:
  assumes "activation_request_ok a" "within CLIENT_LIMITS 0 (activation_request_to_value a)"
    and "activation_request_ok b" "within CLIENT_LIMITS 0 (activation_request_to_value b)"
    and "validate_request_ok v" "within CLIENT_LIMITS 0 (validate_request_to_value v)"
    and "validate_request_ok w" "within CLIENT_LIMITS 0 (validate_request_to_value w)"
  shows "(activation_proof_input a = activation_proof_input b \<longleftrightarrow> a\<lparr>ar_proof := []\<rparr> = b\<lparr>ar_proof := []\<rparr>) \<and>
    (validate_proof_input v = validate_proof_input w \<longleftrightarrow> v\<lparr>vr_proof := []\<rparr> = w\<lparr>vr_proof := []\<rparr>) \<and>
    (length (to_canonical (activation_request_to_value a)) \<le> MAX_BODY_BYTES \<longrightarrow>
       request_decode activation_request_from_value (to_canonical (activation_request_to_value a)) = Inr a) \<and>
    (length (to_canonical (validate_request_to_value v)) \<le> MAX_BODY_BYTES \<longrightarrow>
       request_decode validate_request_from_value (to_canonical (validate_request_to_value v)) = Inr v)"
proof -
  have same_a: "activation_proof_input x = activation_proof_input (x\<lparr>ar_proof := []\<rparr>)" for x
    by (simp add: activation_proof_input_def activation_request_inner_def)
  have same_v: "validate_proof_input x = validate_proof_input (x\<lparr>vr_proof := []\<rparr>)" for x
    by (simp add: validate_proof_input_def validate_request_inner_def)
  have "a\<lparr>ar_proof := []\<rparr> = b\<lparr>ar_proof := []\<rparr>" if "activation_proof_input a = activation_proof_input b"
    using activation_wire.proof_covers [of a b] assms that by (simp add: activation_proof_input_def)
  moreover have "v\<lparr>vr_proof := []\<rparr> = w\<lparr>vr_proof := []\<rparr>" if "validate_proof_input v = validate_proof_input w"
    using validate_wire.proof_covers [of v w] assms that by (simp add: validate_proof_input_def)
  ultimately show ?thesis
    using activation_wire.request_roundtrip [of a] validate_wire.request_roundtrip [of v] assms
      same_a [of a] same_a [of b] same_v [of v] same_v [of w]
    by metis
qed

lemma demo_activation_fits:
  "activation_request_ok (demo_activation_request [x])"
  "within CLIENT_LIMITS 0 (activation_request_to_value (demo_activation_request [x]))"
  by (simp_all add: activation_request_ok_def client_info_ok_def demo_activation_request_def demo_client_info_def
      sat_defs activation_request_to_value_def activation_request_inner_def within_client)
    (simp add: client_info_to_value_def put_all_entries entries_of_def CLIENT_LIMITS_def MAX_CBOR_DEPTH_def
      u64_max_def cbor_int_def str_bytes_def)

definition demo_validate_request :: ValidateRequest where
  "demo_validate_request =
     \<lparr>vr_proto_ver = 1, vr_suite_id = [1, 0, 0, 1], vr_license_id = replicate 16 1, vr_machine_id = replicate 16 2,
      vr_fingerprint = [2], vr_nonce_c = replicate 32 4, vr_client_time = 1700000000,
      vr_known_revocation_epoch = 3, vr_client_info = demo_client_info, vr_proof = [6],
      vr_integrity_summary = None, vr_known_security_floor = 0, vr_telemetry = None\<rparr>"

lemma demo_validate_fits:
  "validate_request_ok demo_validate_request"
  "within CLIENT_LIMITS 0 (validate_request_to_value demo_validate_request)"
  by (simp_all add: validate_request_ok_def client_info_ok_def demo_validate_request_def demo_client_info_def
      sat_defs validate_request_to_value_def validate_request_inner_def within_client)
    (simp add: client_info_to_value_def put_all_entries entries_of_def CLIENT_LIMITS_def MAX_CBOR_DEPTH_def
      u64_max_def cbor_int_def str_bytes_def)

theorem device_proof_covers_request_witness:
  "activation_proof_input (demo_activation_request [1]) \<noteq> activation_proof_input (demo_activation_request [2])"
  using device_proof_covers_request [OF demo_activation_fits demo_activation_fits demo_validate_fits demo_validate_fits, of 1 2]
  by (simp add: demo_activation_request_def)

end
