(* ===== verification/Carriers.thy ===== *)
theory Carriers
  imports Wire_Fields Digits Interfaces
begin

text \<open>
  The unsigned carriers around signed artifacts: the service responses
  (\<open>copylocker-proto/src/responses.rs\<close>), the offline licence bundle with its Crockford text armor
  (\<open>offline_bundle.rs\<close>) and the armor of offline activation requests (\<open>offline_armor.rs\<close>).
\<close>

unbundle bit_operations_syntax

section \<open>Service responses\<close>

definition MAX_KEYSET_BYTES :: nat where "MAX_KEYSET_BYTES = 8 * 1024 * 1024"
definition MAX_KEYSET_CERTIFICATES :: nat where "MAX_KEYSET_CERTIFICATES = 1000"
definition MAX_EPOCH_CERTIFICATE_BYTES :: nat where "MAX_EPOCH_CERTIFICATE_BYTES = 64 * 1024"

record Keyset =
  ks_proto_ver :: nat
  ks_epoch_certificates :: "bytes list"
  ks_revocation_epoch :: u64

definition keyset_fields :: "Keyset \<Rightarrow> (u64 \<times> CborValue option) list" where
  "keyset_fields k =
     [(0, Some (Uint (ks_proto_ver k))),
      (1, Some (Array (map Bytes (ks_epoch_certificates k)))),
      (2, Some (Uint (ks_revocation_epoch k)))]"

definition keyset_encode :: "Keyset \<Rightarrow> bytes" where
  "keyset_encode k = to_canonical (put_all (keyset_fields k))"

definition keyset_certificate :: "CborValue \<Rightarrow> (ProtoError, bytes) result" where
  "keyset_certificate c =
     bind_ok (ok_or (as_bytes c) (Codec (TypeMismatch 1))) (\<lambda>encoded.
     if length encoded > MAX_EPOCH_CERTIFICATE_BYTES then Inl (Codec TooLong) else Inr encoded)"

definition keyset_decode :: "bytes \<Rightarrow> (ProtoError, Keyset) result" where
  "keyset_decode bs =
     bind_ok (decode_bounded MAX_KEYSET_BYTES BULK_LIMITS bs) (\<lambda>v.
     bind_ok (field_with as_array v 1) (\<lambda>certificates.
     if length certificates > MAX_KEYSET_CERTIFICATES then Inl (Codec TooLong)
     else
       bind_ok (try_map keyset_certificate certificates) (\<lambda>epoch_certificates.
       bind_ok (field_u8 v 0) (\<lambda>proto_ver.
       bind_ok (field_uint v 2) (\<lambda>revocation_epoch.
       Inr \<lparr>ks_proto_ver = proto_ver, ks_epoch_certificates = epoch_certificates,
            ks_revocation_epoch = revocation_epoch\<rparr>)))))"

record ProtocolErrorResponse =
  pe_code :: u64
  pe_message :: "string option"
  pe_retry_after :: "u32 option"

definition protocol_error_decode :: "bytes \<Rightarrow> (ProtoError, ProtocolErrorResponse) result" where
  "protocol_error_decode bs =
     bind_ok (decode_bounded MAX_BODY_BYTES CLIENT_LIMITS bs) (\<lambda>v.
     bind_ok (field_opt_narrow u32_max v 2) (\<lambda>retry_after.
     bind_ok (field_uint v 0) (\<lambda>code.
     bind_ok (field_opt_text v 1) (\<lambda>message.
     Inr \<lparr>pe_code = code, pe_message = message, pe_retry_after = retry_after\<rparr>))))"

definition SESSION_TOKEN_LEN :: nat where "SESSION_TOKEN_LEN = 32"

record AccountSession =
  as_account_token :: bytes
  as_refresh_token :: bytes
  as_expires_at :: i64
  as_refresh_expires_at :: i64

definition account_session_fields :: "AccountSession \<Rightarrow> (u64 \<times> CborValue option) list" where
  "account_session_fields s =
     [(0, Some (Bytes (as_account_token s))),
      (1, Some (Bytes (as_refresh_token s))),
      (2, Some (cbor_int (as_expires_at s))),
      (3, Some (cbor_int (as_refresh_expires_at s)))]"

definition account_session_encode :: "AccountSession \<Rightarrow> bytes" where
  "account_session_encode s = to_canonical (put_all (account_session_fields s))"

definition account_session_decode :: "bytes \<Rightarrow> (ProtoError, AccountSession) result" where
  "account_session_decode bs =
     bind_ok (decode_bounded MAX_BODY_BYTES CLIENT_LIMITS bs) (\<lambda>v.
     if \<not> has_entries 4 v then Inl (Codec Malformed)
     else
       bind_ok (field_fixed SESSION_TOKEN_LEN v 0) (\<lambda>account_token.
       bind_ok (field_fixed SESSION_TOKEN_LEN v 1) (\<lambda>refresh_token.
       bind_ok (field_int v 2) (\<lambda>expires_at.
       bind_ok (field_int v 3) (\<lambda>refresh_expires_at.
       Inr \<lparr>as_account_token = account_token, as_refresh_token = refresh_token, as_expires_at = expires_at,
            as_refresh_expires_at = refresh_expires_at\<rparr>)))))"

definition ack_decode :: "bytes \<Rightarrow> (ProtoError, bool) result" where
  "ack_decode bs =
     bind_ok (decode_bounded MAX_BODY_BYTES CLIENT_LIMITS bs) (\<lambda>v. field_with as_bool v 0)"

section \<open>Crockford Base32\<close>

definition MAX_OLK_BUNDLE_BYTES :: nat where "MAX_OLK_BUNDLE_BYTES = 1024 * 1024"

definition CROCKFORD :: string where "CROCKFORD = ''0123456789ABCDEFGHJKMNPQRSTVWXYZ''"

definition crockford_symbol :: "nat \<Rightarrow> char" where
  "crockford_symbol index = (if index < length CROCKFORD then CROCKFORD ! index else CHR ''0'')"

definition crockford_value :: "char \<Rightarrow> nat option" where
  "crockford_value c = map_option fst (find (\<lambda>(i, d). d = c) (enumerate 0 CROCKFORD))"

text \<open>The inner loop: while at least five bits are buffered, emit the upper five.\<close>

function crockford_drain :: "nat \<Rightarrow> nat \<Rightarrow> string \<Rightarrow> nat \<times> nat \<times> string" where
  "crockford_drain buffer bits output =
     (if bits \<ge> 5 then
        (let bits' = bits - 5; index = drop_bit bits' buffer AND 0x1f
         in crockford_drain (buffer AND (2 ^ bits' - 1)) bits' (output @ [crockford_symbol index]))
      else (buffer, bits, output))"
  by pat_completeness auto
termination
  by (relation "measure (\<lambda>(buffer, bits, output). bits)") auto

declare crockford_drain.simps [simp del]

definition crockford_push :: "nat \<times> nat \<times> string \<Rightarrow> u8 \<Rightarrow> nat \<times> nat \<times> string" where
  "crockford_push st byte =
     (let (buffer, bits, output) = st
      in crockford_drain (push_bit 8 buffer mod 65536 OR unat byte) (bits + 8) output)"

definition crockford_encode :: "bytes \<Rightarrow> string" where
  "crockford_encode bs =
     (let (buffer, bits, output) = foldl crockford_push (0, 0, []) bs
      in if bits \<noteq> 0 then output @ [crockford_symbol (push_bit (5 - bits) buffer mod 65536 AND 0x1f)] else output)"

definition crockford_step :: "nat \<times> nat \<times> bytes \<Rightarrow> char \<Rightarrow> (ProtoError, nat \<times> nat \<times> bytes) result" where
  "crockford_step st c =
     (let (buffer, bits, output) = st in
      bind_ok (ok_or (crockford_value c) (Codec Malformed)) (\<lambda>value.
      let buffer = push_bit 5 buffer mod 65536 OR value; bits = bits + 5
      in if bits \<ge> 8 then
           (let bits = bits - 8; output = output @ [word_of_nat (drop_bit bits buffer AND 0xff)]
            in if length output > MAX_OLK_BUNDLE_BYTES then Inl (Codec TooLong)
               else Inr (buffer AND (2 ^ bits - 1), bits, output))
         else Inr (buffer, bits, output)))"

definition crockford_decode :: "string \<Rightarrow> (ProtoError, bytes) result" where
  "crockford_decode s =
     (if s = [] \<or> length s > (MAX_OLK_BUNDLE_BYTES * 8 + 4) div 5 then Inl (Codec TooLong)
      else bind_ok (try_fold crockford_step (0, 0, []) s) (\<lambda>(buffer, bits, output).
        if bits \<noteq> 0 \<and> buffer \<noteq> 0 then Inl (Codec Malformed) else Inr output))"

section \<open>Text armor\<close>

definition is_ascii_whitespace :: "char \<Rightarrow> bool" where
  "is_ascii_whitespace c \<longleftrightarrow> (of_char c :: nat) \<in> {9, 10, 12, 13, 32}"

definition trim_ascii :: "string \<Rightarrow> string" where
  "trim_ascii s = rev (dropWhile is_ascii_whitespace (rev (dropWhile is_ascii_whitespace s)))"

definition strip_suffix :: "string \<Rightarrow> string \<Rightarrow> string option" where
  "strip_suffix p s = map_option rev (strip_prefix (rev p) (rev s))"

text \<open>What both armors do before decoding: boundaries, white space, prefix.\<close>

definition armor_payload :: "string \<Rightarrow> string \<Rightarrow> string \<Rightarrow> string \<Rightarrow> (ProtoError, string) result" where
  "armor_payload begin_line end_line prefix input =
     (let trimmed = trim_ascii input in
      bind_ok (case strip_prefix begin_line trimmed of
                 Some after_begin \<Rightarrow> ok_or (strip_suffix end_line after_begin) (Codec Malformed)
               | None \<Rightarrow> Inr trimmed) (\<lambda>body.
      let compact = filter (\<lambda>c. \<not> is_ascii_whitespace c) body
      in ok_or (strip_prefix prefix compact) (Codec Malformed)))"

definition OLK_ARMOR_PREFIX :: string where "OLK_ARMOR_PREFIX = ''CLK1:''"
definition OLK_ARMOR_BEGIN :: string where "OLK_ARMOR_BEGIN = ''-----BEGIN COPYLOCKER OFFLINE LICENSE-----''"
definition OLK_ARMOR_END :: string where "OLK_ARMOR_END = ''-----END COPYLOCKER OFFLINE LICENSE-----''"
definition AR_ARMOR_PREFIX :: string where "AR_ARMOR_PREFIX = ''CLR1:''"
definition AR_ARMOR_BEGIN :: string where "AR_ARMOR_BEGIN = ''-----BEGIN COPYLOCKER ACTIVATION REQUEST-----''"
definition AR_ARMOR_END :: string where "AR_ARMOR_END = ''-----END COPYLOCKER ACTIVATION REQUEST-----''"
definition MAX_AR_ARMORED_BYTES :: nat where "MAX_AR_ARMORED_BYTES = MAX_BODY_BYTES"

definition armor_activation_request :: "bytes \<Rightarrow> string" where
  "armor_activation_request bs = AR_ARMOR_PREFIX @ crockford_encode bs"

definition unarmor_activation_request :: "string \<Rightarrow> (ProtoError, bytes) result" where
  "unarmor_activation_request input =
     bind_ok (armor_payload AR_ARMOR_BEGIN AR_ARMOR_END AR_ARMOR_PREFIX input) (\<lambda>payload.
     bind_ok (crockford_decode payload) (\<lambda>decoded.
     if length decoded > MAX_AR_ARMORED_BYTES then Inl (Codec TooLong) else Inr decoded))"

section \<open>Offline licence bundles\<close>

definition OLK_BUNDLE_SCHEMA_V1 :: u64 where "OLK_BUNDLE_SCHEMA_V1 = 1"
definition UNBOUND_OLK_BINDING_LABEL :: bytes where "UNBOUND_OLK_BINDING_LABEL = str_bytes ''copylocker/olk-unbound/v1''"
definition MAX_OLK_ENVELOPE_BYTES :: nat where "MAX_OLK_ENVELOPE_BYTES = 256 * 1024"

definition BUNDLE_LIMITS :: Limits where
  "BUNDLE_LIMITS =
     \<lparr>lim_max_depth = MAX_CBOR_DEPTH, lim_max_items = 32, lim_max_string = MAX_OLK_BUNDLE_BYTES\<rparr>"

record OfflineLicenseBundle =
  ob_schema :: u64
  ob_license_envelope :: bytes
  ob_epoch_certificates :: "bytes list"

definition bundle_new :: "bytes \<Rightarrow> bytes list \<Rightarrow> OfflineLicenseBundle" where
  "bundle_new license_envelope epoch_certificates =
     \<lparr>ob_schema = OLK_BUNDLE_SCHEMA_V1, ob_license_envelope = license_envelope,
      ob_epoch_certificates = epoch_certificates\<rparr>"

definition bundle_fields :: "OfflineLicenseBundle \<Rightarrow> (u64 \<times> CborValue option) list" where
  "bundle_fields b =
     [(0, Some (Uint (ob_schema b))),
      (1, Some (Bytes (ob_license_envelope b))),
      (2, Some (Array (map Bytes (ob_epoch_certificates b))))]"

definition bundle_encode :: "OfflineLicenseBundle \<Rightarrow> bytes" where
  "bundle_encode b = to_canonical (put_all (bundle_fields b))"

definition bundle_certificate :: "CborValue \<Rightarrow> (ProtoError, bytes) result" where
  "bundle_certificate v =
     bind_ok (ok_or (as_bytes v) (Codec (TypeMismatch 2))) (\<lambda>b.
     if b = [] \<or> length b > MAX_EPOCH_CERTIFICATE_BYTES then Inl (Codec TooLong) else Inr b)"

definition bundle_decode :: "bytes \<Rightarrow> (ProtoError, OfflineLicenseBundle) result" where
  "bundle_decode bs =
     bind_ok (decode_bounded MAX_OLK_BUNDLE_BYTES BUNDLE_LIMITS bs) (\<lambda>v.
     if as_map v = None then Inl (Codec Malformed)
     else
       bind_ok (field_uint v 0) (\<lambda>schema.
       bind_ok (field_bytes v 1) (\<lambda>license_envelope.
       bind_ok (field_with as_array v 2) (\<lambda>certificate_values.
       if schema \<noteq> OLK_BUNDLE_SCHEMA_V1 \<or> license_envelope = [] \<or>
          length license_envelope > MAX_OLK_ENVELOPE_BYTES \<or> certificate_values = [] \<or>
          length certificate_values > MAX_KEYSET_CERTIFICATES
       then Inl (Codec Malformed)
       else
         bind_ok (try_map bundle_certificate certificate_values) (\<lambda>epoch_certificates.
         Inr \<lparr>ob_schema = schema, ob_license_envelope = license_envelope,
              ob_epoch_certificates = epoch_certificates\<rparr>)))))"

definition to_armored :: "OfflineLicenseBundle \<Rightarrow> string" where
  "to_armored b = OLK_ARMOR_PREFIX @ crockford_encode (bundle_encode b)"

definition from_armored :: "string \<Rightarrow> (ProtoError, OfflineLicenseBundle) result" where
  "from_armored input =
     bind_ok (armor_payload OLK_ARMOR_BEGIN OLK_ARMOR_END OLK_ARMOR_PREFIX input) (\<lambda>payload.
     bind_ok (crockford_decode payload) bundle_decode)"

definition olk_binding_fingerprint :: "Fingerprint option \<Rightarrow> Fingerprint" where
  "olk_binding_fingerprint bound = (case bound of None \<Rightarrow> UNBOUND_OLK_BINDING_LABEL | Some fp \<Rightarrow> fp)"

section \<open>Crockford Base32 is lossless\<close>

text \<open>
  Both directions are arithmetic on the bit string: the symbols written so far and the buffered
  bits spell the number the bytes spell.
\<close>

lemma and_mask: "(n::nat) AND (2 ^ k - Suc 0) = n mod 2 ^ k"
proof -
  have "n AND mask k = n mod 2 ^ k" by (simp flip: take_bit_eq_mask add: take_bit_eq_mod)
  then show ?thesis by (simp only: mask_eq_exp_minus_1 One_nat_def)
qed

lemma horner_Cons: "horner b (d # ds) = d * b ^ length ds + horner b ds"
  using horner_append [of b "[d]" ds] by (simp add: horner_def)

lemma crockford_drain_spec:
  "buffer < 2 ^ bits \<Longrightarrow> \<exists>ds b' k'. crockford_drain buffer bits out = (b', k', out @ map crockford_symbol ds) \<and>
     (\<forall>d \<in> set ds. d < 32) \<and> k' < 5 \<and> b' < 2 ^ k' \<and> bits = 5 * length ds + k' \<and> buffer = horner 32 ds * 2 ^ k' + b'"
proof (induction buffer bits out rule: crockford_drain.induct)
  case (1 buffer bits out)
  show ?case
  proof (cases "bits \<ge> 5")
    case False
    with "1.prems" show ?thesis by (intro exI [of _ "[]"] exI [of _ buffer] exI [of _ bits]) (simp add: crockford_drain.simps)
  next
    case True
    define k q where "k = bits - 5" and "q = buffer div 2 ^ k"
    have bits: "bits = k + 5" using True by (simp add: k_def)
    then have "q < 32" using "1.prems" by (simp add: q_def power_add less_mult_imp_div_less)
    then have q: "drop_bit k buffer AND 31 = q" by (simp add: and_low_bits shift_right q_def)
    have step: "crockford_drain buffer bits out =
        crockford_drain (buffer mod 2 ^ k) k (out @ [crockford_symbol q])"
      using True q by (simp add: crockford_drain.simps [of buffer] Let_def and_mask flip: k_def)
    have "buffer mod 2 ^ k < 2 ^ k" by simp
    then obtain ds b' k' where ih: "crockford_drain (buffer mod 2 ^ k) k (out @ [crockford_symbol q]) =
          (b', k', (out @ [crockford_symbol q]) @ map crockford_symbol ds)"
      "\<forall>d \<in> set ds. d < 32" "k' < 5" "b' < 2 ^ k'" "k = 5 * length ds + k'" "buffer mod 2 ^ k = horner 32 ds * 2 ^ k' + b'"
      using "1.IH" [OF True k_def refl] q by (auto simp: and_mask)
    have "(2::nat) ^ k = 32 ^ length ds * 2 ^ k'" using ih(5) by (simp add: power_add power_mult)
    then have "buffer = horner 32 (q # ds) * 2 ^ k' + b'"
      using ih(6) div_mult_mod_eq [of buffer "2 ^ k"] by (simp add: horner_Cons q_def algebra_simps)
    with ih step \<open>q < 32\<close> bits show ?thesis by (intro exI [of _ "q # ds"] exI [of _ b'] exI [of _ k']) simp
  qed
qed

definition spells :: "bytes \<Rightarrow> nat \<times> nat \<times> string \<Rightarrow> bool" where
  "spells bs st \<longleftrightarrow> (case st of (buffer, bits, out) \<Rightarrow>
     bits < 5 \<and> buffer < 2 ^ bits \<and>
     (\<exists>ds. out = map crockford_symbol ds \<and> (\<forall>d \<in> set ds. d < 32) \<and> 8 * length bs = 5 * length ds + bits \<and>
        horner 256 (map unat bs) = horner 32 ds * 2 ^ bits + buffer))"

lemma unat_u8_less: "unat (b::u8) < 256"
  using unsigned_less [of b, where 'a = nat] by simp

lemma crockford_push_spells:
  assumes "spells bs st"
  shows "spells (bs @ [b]) (crockford_push st b)"
proof -
  obtain buffer bits out where st: "st = (buffer, bits, out)" by (cases st)
  from assms st obtain ds where inv: "bits < 5" "buffer < 2 ^ bits" "out = map crockford_symbol ds"
    "\<forall>d \<in> set ds. d < 32" "8 * length bs = 5 * length ds + bits"
    "horner 256 (map unat bs) = horner 32 ds * 2 ^ bits + buffer"
    by (auto simp: spells_def)
  have "(2::nat) ^ bits \<le> 2 ^ 4" using inv(1) by (intro power_increasing) simp_all
  with inv(2) have "buffer < 16" by simp
  then have "push_bit 8 buffer mod 65536 OR unat b = push_bit 8 buffer OR unat b"
    by (simp add: push_bit_eq_mult)
  also have "\<dots> = buffer * 256 + unat b" using shift_or [of "unat b" 8 buffer] unat_u8_less [of b] by simp
  finally have buf: "push_bit 8 buffer mod 65536 OR unat b = buffer * 256 + unat b" .
  have "buffer * 256 + unat b < 2 ^ (bits + 8)"
  proof -
    have "buffer * 256 + 256 \<le> 2 ^ bits * 256" using inv(2) by (metis Suc_leI mult_Suc add.commute mult_le_mono1)
    with unat_u8_less [of b] show ?thesis by (simp add: power_add)
  qed
  from crockford_drain_spec [OF this, of out] obtain es b' k' where d:
    "crockford_drain (buffer * 256 + unat b) (bits + 8) out = (b', k', out @ map crockford_symbol es)"
    "\<forall>d \<in> set es. d < 32" "k' < 5" "b' < 2 ^ k'" "bits + 8 = 5 * length es + k'"
    "buffer * 256 + unat b = horner 32 es * 2 ^ k' + b'" by blast
  have pow: "(2::nat) ^ bits * 256 = 32 ^ length es * 2 ^ k'"
    using arg_cong [OF d(5), of "power (2::nat)"] by (simp add: power_add power_mult)
  have "horner 256 (map unat (bs @ [b])) = horner 32 ds * (2 ^ bits * 256) + (buffer * 256 + unat b)"
    using inv(6) by (simp add: algebra_simps)
  also have "\<dots> = horner 32 (ds @ es) * 2 ^ k' + b'"
    unfolding pow d(6) by (simp add: horner_append algebra_simps)
  finally have val: "horner 256 (map unat (bs @ [b])) = horner 32 (ds @ es) * 2 ^ k' + b'" .
  have "crockford_push st b = (b', k', map crockford_symbol (ds @ es))"
    using d(1) inv(3) by (simp add: st crockford_push_def buf)
  moreover have "8 * length (bs @ [b]) = 5 * length (ds @ es) + k'" using inv(5) d(5) by simp
  ultimately show ?thesis
    using val inv(4) d(2-4) unfolding spells_def by (auto intro!: exI [of _ "ds @ es"] simp del: map_append)
qed

lemma crockford_fold_spells: "spells bs (foldl crockford_push (0, 0, []) bs)"
proof (induction bs rule: rev_induct)
  case (snoc b bs)
  then show ?case by (simp add: crockford_push_spells)
qed (simp add: spells_def)

lemma crockford_encode_spec:
  "\<exists>ds pad. crockford_encode bs = map crockford_symbol ds \<and> (\<forall>d \<in> set ds. d < 32) \<and> pad < 5 \<and>
     5 * length ds = 8 * length bs + pad \<and> horner 32 ds = horner 256 (map unat bs) * 2 ^ pad"
proof -
  obtain buffer bits out where st: "foldl crockford_push (0, 0, []) bs = (buffer, bits, out)"
    by (cases "foldl crockford_push (0, 0, []) bs")
  with crockford_fold_spells [of bs] obtain ds where inv: "bits < 5" "buffer < 2 ^ bits"
    "out = map crockford_symbol ds" "\<forall>d \<in> set ds. d < 32" "8 * length bs = 5 * length ds + bits"
    "horner 256 (map unat bs) = horner 32 ds * 2 ^ bits + buffer"
    by (auto simp: spells_def)
  show ?thesis
  proof (cases "bits = 0")
    case True
    with inv st show ?thesis by (intro exI [of _ ds] exI [of _ 0]) (simp add: crockford_encode_def)
  next
    case False
    let ?d = "buffer * 2 ^ (5 - bits)"
    have pow: "(2::nat) ^ bits * 2 ^ (5 - bits) = 32" using inv(1) by (simp flip: power_add)
    have d: "?d < 32" using inv(2) pow mult_less_mono1 [of buffer "2 ^ bits" "2 ^ (5 - bits)"] by simp
    then have "push_bit (5 - bits) buffer mod 65536 AND 31 = ?d" by (simp add: push_bit_eq_mult and_low_bits)
    then have "crockford_encode bs = map crockford_symbol (ds @ [?d])"
      using st False inv(3) by (simp add: crockford_encode_def)
    moreover have "horner 32 (ds @ [?d]) = horner 256 (map unat bs) * 2 ^ (5 - bits)"
      using inv(6) pow by (simp add: algebra_simps)
    ultimately show ?thesis
      using inv False d by (intro exI [of _ "ds @ [?d]"] exI [of _ "5 - bits"]) auto
  qed
qed

lemma crockford_value_symbol: "d < 32 \<Longrightarrow> crockford_value (crockford_symbol d) = Some d"
proof -
  have "list_all (\<lambda>d. crockford_value (crockford_symbol d) = Some d) [0..<32]" by code_simp
  then show "d < 32 \<Longrightarrow> ?thesis" by (simp add: list_all_iff)
qed

definition unspells :: "nat list \<Rightarrow> nat \<times> nat \<times> bytes \<Rightarrow> bool" where
  "unspells ds st \<longleftrightarrow> (case st of (buffer, bits, out) \<Rightarrow>
     bits < 8 \<and> buffer < 2 ^ bits \<and> 5 * length ds = 8 * length out + bits \<and>
     horner 32 ds = horner 256 (map unat out) * 2 ^ bits + buffer)"

lemma crockford_step_unspells:
  assumes "unspells ds (buffer, bits, out)" "d < 32" "5 * (length ds + 1) < 8 * (MAX_OLK_BUNDLE_BYTES + 1)"
  shows "\<exists>st. crockford_step (buffer, bits, out) (crockford_symbol d) = Inr st \<and> unspells (ds @ [d]) st"
proof -
  from assms(1) have inv: "bits < 8" "buffer < 2 ^ bits" "5 * length ds = 8 * length out + bits"
    "horner 32 ds = horner 256 (map unat out) * 2 ^ bits + buffer" by (auto simp: unspells_def)
  have "(2::nat) ^ bits \<le> 2 ^ 7" using inv(1) by (intro power_increasing) simp_all
  with inv(2) have "buffer < 128" by simp
  then have "push_bit 5 buffer mod 65536 OR d = push_bit 5 buffer OR d" by (simp add: push_bit_eq_mult)
  also have "\<dots> = buffer * 32 + d" using shift_or [of d 5 buffer] assms(2) by simp
  finally have buf: "push_bit 5 buffer mod 65536 OR d = buffer * 32 + d" .
  have bound: "buffer * 32 + d < 2 ^ (bits + 5)"
  proof -
    have "buffer * 32 + 32 \<le> 2 ^ bits * 32" using inv(2) by (metis Suc_leI mult_Suc add.commute mult_le_mono1)
    with assms(2) show ?thesis by (simp add: power_add)
  qed
  have val: "horner 32 (ds @ [d]) = horner 256 (map unat out) * 2 ^ (bits + 5) + (buffer * 32 + d)"
    using inv(4) by (simp add: algebra_simps power_add)
  note step = crockford_step_def crockford_value_symbol [OF assms(2)] buf
  show ?thesis
  proof (cases "bits + 5 \<ge> 8")
    case False
    with step bound val inv show ?thesis by (simp add: Let_def unspells_def)
  next
    case True
    define k q where "k = bits + 5 - 8" and "q = (buffer * 32 + d) div 2 ^ k"
    have k: "bits + 5 = k + 8" using True by (simp add: k_def)
    then have "q < 256" using bound by (simp add: q_def power_add less_mult_imp_div_less)
    then have q: "unat (word_of_nat (drop_bit k (buffer * 32 + d) AND 255) :: u8) = q"
      by (simp add: and_low_bits shift_right unat_byte flip: q_def)
    have "length out + 1 \<le> MAX_OLK_BUNDLE_BYTES" using inv(3) assms(3) k by simp
    moreover have "horner 32 (ds @ [d]) = (horner 256 (map unat out) * 256 + q) * 2 ^ k + (buffer * 32 + d) mod 2 ^ k"
      using val k div_mult_mod_eq [of "buffer * 32 + d" "2 ^ k"] by (simp add: q_def power_add algebra_simps)
    ultimately show ?thesis
      using step True inv k q by (simp add: Let_def unspells_def and_mask flip: k_def)
  qed
qed

lemma crockford_fold_unspells:
  assumes "unspells cs st" "\<forall>d \<in> set ds. d < 32" "5 * length (cs @ ds) < 8 * (MAX_OLK_BUNDLE_BYTES + 1)"
  shows "\<exists>st'. try_fold crockford_step st (map crockford_symbol ds) = Inr st' \<and> unspells (cs @ ds) st'"
  using assms
proof (induction ds arbitrary: cs st)
  case (Cons d ds)
  obtain buffer bits out where st: "st = (buffer, bits, out)" by (cases st)
  with Cons.prems obtain st1 where "crockford_step st (crockford_symbol d) = Inr st1" "unspells (cs @ [d]) st1"
    using crockford_step_unspells [of cs buffer bits out d] by auto
  with Cons.IH [of "cs @ [d]" st1] Cons.prems show ?case by simp
qed simp

lemma crockford_roundtrip:
  assumes "bs \<noteq> []" "length bs \<le> MAX_OLK_BUNDLE_BYTES"
  shows "crockford_decode (crockford_encode bs) = Inr bs"
proof -
  obtain ds pad where enc: "crockford_encode bs = map crockford_symbol ds" "\<forall>d \<in> set ds. d < 32" "pad < 5"
    "5 * length ds = 8 * length bs + pad" "horner 32 ds = horner 256 (map unat bs) * 2 ^ pad"
    using crockford_encode_spec [of bs] by blast
  have "unspells [] (0, 0, [])" by (simp add: unspells_def)
  moreover have "5 * length ([] @ ds) < 8 * (MAX_OLK_BUNDLE_BYTES + 1)" using enc(3,4) assms(2) by simp
  ultimately obtain st where st: "try_fold crockford_step (0, 0, []) (map crockford_symbol ds) = Inr st" "unspells ([] @ ds) st"
    using crockford_fold_unspells [OF _ enc(2)] by blast
  obtain buffer bits out where "st = (buffer, bits, out)" by (cases st)
  with st have dec: "try_fold crockford_step (0, 0, []) (map crockford_symbol ds) = Inr (buffer, bits, out)"
    "unspells ds (buffer, bits, out)" by simp_all
  then have inv: "bits < 8" "buffer < 2 ^ bits" "5 * length ds = 8 * length out + bits"
    "horner 32 ds = horner 256 (map unat out) * 2 ^ bits + buffer" by (auto simp: unspells_def)
  have "8 * length out + bits = 8 * length bs + pad" using enc(4) inv(3) by (rule trans [OF sym, rotated])
  then have "(8 * length out + bits) div 8 = (8 * length bs + pad) div 8" "(8 * length out + bits) mod 8 = (8 * length bs + pad) mod 8"
    by simp_all
  with enc(3) inv(1) have len: "length out = length bs" and bits: "bits = pad" by simp_all
  have eq: "horner 256 (map unat out) * 2 ^ pad + buffer = horner 256 (map unat bs) * 2 ^ pad + 0"
    using enc(5) inv(4) bits by simp
  have "buffer = 0" using arg_cong [OF eq, of "\<lambda>n. n mod 2 ^ pad"] inv(2) bits by simp
  with eq have "horner 256 (map unat out) = horner 256 (map unat bs)" by simp
  then have "map unat out = map unat bs"
    using len unat_u8_less by (intro horner_inject [of _ _ 256]) auto
  then have "out = bs" by (rule map_injective) (simp add: inj_def unsigned_word_eqI)
  moreover have "ds \<noteq> []" "\<not> length ds > (MAX_OLK_BUNDLE_BYTES * 8 + 4) div 5"
    using enc(3,4) assms by auto
  ultimately show ?thesis using enc(1) dec(1) \<open>buffer = 0\<close> by (simp add: crockford_decode_def)
qed

section \<open>Armor survives reflowing\<close>

lemma crockford_encode_chars:
  "c \<in> set (crockford_encode bs) \<Longrightarrow> \<not> is_ascii_whitespace c"
proof -
  have "list_all (\<lambda>d. \<not> is_ascii_whitespace (crockford_symbol d)) [0..<32]" by code_simp
  then show "c \<in> set (crockford_encode bs) \<Longrightarrow> ?thesis"
    using crockford_encode_spec [of bs] by (auto simp: list_all_iff)
qed

lemma filter_trim: "filter (\<lambda>c. \<not> is_ascii_whitespace c) (trim_ascii s) = filter (\<lambda>c. \<not> is_ascii_whitespace c) s"
proof -
  have drop: "filter (\<lambda>c. \<not> is_ascii_whitespace c) (dropWhile is_ascii_whitespace t) =
      filter (\<lambda>c. \<not> is_ascii_whitespace c) t" for t
    by (induction t) auto
  then show ?thesis by (simp add: trim_ascii_def flip: rev_filter)
qed

lemma strip_prefix_append [simp]: "strip_prefix p (p @ s) = Some s"
  by (simp add: strip_prefix_def)

lemma trim_visible: "\<not> is_ascii_whitespace a \<Longrightarrow> \<not> is_ascii_whitespace z \<Longrightarrow> trim_ascii (a # s @ [z]) = a # s @ [z]"
  by (simp add: trim_ascii_def)

text \<open>
  \<open>s\<close> is the armored text, broken and indented at will: it is read as is, and between the
  boundary lines.
\<close>

lemma armor_payload_reflowed:
  assumes "filter (\<lambda>c. \<not> is_ascii_whitespace c) s = prefix @ payload" "hd prefix \<noteq> hd begin_line"
    and "prefix \<noteq> []" "begin_line = a # b" "end_line = e @ [z]" "\<not> is_ascii_whitespace a" "\<not> is_ascii_whitespace z"
  shows "armor_payload begin_line end_line prefix s = Inr payload"
    and "armor_payload begin_line end_line prefix (begin_line @ s @ end_line) = Inr payload"
proof -
  have "strip_prefix begin_line (trim_ascii s) = None"
  proof (rule ccontr)
    assume "strip_prefix begin_line (trim_ascii s) \<noteq> None"
    then obtain t where "trim_ascii s = begin_line @ t"
      by (metis append_take_drop_id option.distinct(1) strip_prefix_def)
    then have "filter (\<lambda>c. \<not> is_ascii_whitespace c) s = a # filter (\<lambda>c. \<not> is_ascii_whitespace c) (b @ t)"
      using filter_trim [of s] assms(4,6) by simp
    with assms(1-4) show False by (cases prefix) auto
  qed
  then show "armor_payload begin_line end_line prefix s = Inr payload"
    using assms(1) by (simp add: armor_payload_def Let_def filter_trim)
  have "trim_ascii (begin_line @ s @ end_line) = begin_line @ s @ end_line"
    using trim_visible [OF assms(6,7), of "b @ s @ e"] assms(4,5) by simp
  moreover have "strip_suffix end_line (s @ end_line) = Some s" by (simp add: strip_suffix_def)
  ultimately show "armor_payload begin_line end_line prefix (begin_line @ s @ end_line) = Inr payload"
    using assms(1) by (simp add: armor_payload_def Let_def)
qed

lemma boundary_ends:
  "\<exists>a b. OLK_ARMOR_BEGIN = a # b \<and> \<not> is_ascii_whitespace a" "\<exists>e z. OLK_ARMOR_END = e @ [z] \<and> \<not> is_ascii_whitespace z"
  "\<exists>a b. AR_ARMOR_BEGIN = a # b \<and> \<not> is_ascii_whitespace a" "\<exists>e z. AR_ARMOR_END = e @ [z] \<and> \<not> is_ascii_whitespace z"
proof -
  have "OLK_ARMOR_END = butlast OLK_ARMOR_END @ [CHR ''-'']" "AR_ARMOR_END = butlast AR_ARMOR_END @ [CHR ''-'']"
    by (simp_all add: OLK_ARMOR_END_def AR_ARMOR_END_def)
  moreover have "\<not> is_ascii_whitespace (CHR ''-'')" by (simp add: is_ascii_whitespace_def)
  ultimately show "\<exists>e z. OLK_ARMOR_END = e @ [z] \<and> \<not> is_ascii_whitespace z"
    "\<exists>e z. AR_ARMOR_END = e @ [z] \<and> \<not> is_ascii_whitespace z" by metis+
qed (simp_all add: OLK_ARMOR_BEGIN_def AR_ARMOR_BEGIN_def is_ascii_whitespace_def)

section \<open>Carried values read back\<close>

lemma try_map_certificates:
  "list_all (\<lambda>c. length c \<le> MAX_EPOCH_CERTIFICATE_BYTES) cs \<Longrightarrow> try_map keyset_certificate (map Bytes cs) = Inr cs"
  "list_all (\<lambda>c. c \<noteq> [] \<and> length c \<le> MAX_EPOCH_CERTIFICATE_BYTES) cs \<Longrightarrow>
   try_map bundle_certificate (map Bytes cs) = Inr cs"
  by (induction cs) (simp_all add: keyset_certificate_def bundle_certificate_def)

definition bundle_ok :: "OfflineLicenseBundle \<Rightarrow> bool" where
  "bundle_ok b \<longleftrightarrow>
     ob_schema b = OLK_BUNDLE_SCHEMA_V1 \<and> ob_license_envelope b \<noteq> [] \<and>
     length (ob_license_envelope b) \<le> MAX_OLK_ENVELOPE_BYTES \<and>
     ob_epoch_certificates b \<noteq> [] \<and> length (ob_epoch_certificates b) \<le> 32 \<and>
     list_all (\<lambda>c. c \<noteq> [] \<and> length c \<le> MAX_EPOCH_CERTIFICATE_BYTES) (ob_epoch_certificates b) \<and>
     length (bundle_encode b) \<le> MAX_OLK_BUNDLE_BYTES"

lemma bundle_roundtrip:
  assumes "bundle_ok b"
  shows "bundle_decode (bundle_encode b) = Inr b"
proof -
  let ?v = "canon (put_all (bundle_fields b))"
  have "nodup (put_all (bundle_fields b))" by (rule nodup_fields) (simp_all add: bundle_fields_def)
  moreover have "within BUNDLE_LIMITS 0 (put_all (bundle_fields b))"
    using assms
    by (auto simp: put_all_entries entries_of_def bundle_fields_def bundle_ok_def BUNDLE_LIMITS_def MAX_CBOR_DEPTH_def
        u64_max_def MAX_OLK_BUNDLE_BYTES_def OLK_BUNDLE_SCHEMA_V1_def MAX_OLK_ENVELOPE_BYTES_def
        MAX_EPOCH_CERTIFICATE_BYTES_def list_all_iff)
  ultimately have "decode_bounded MAX_OLK_BUNDLE_BYTES BUNDLE_LIMITS (bundle_encode b) = Inr ?v"
    using assms unfolding bundle_encode_def by (intro decode_bounded_written) (simp_all add: bundle_ok_def bundle_encode_def)
  moreover obtain m where "as_map ?v = Some m" using as_map_canon_fields by blast
  moreover have "field_with as_array ?v 2 = Inr (map Bytes (ob_epoch_certificates b))"
    by (simp add: field_with_def field_req_def get_canon_fields bundle_fields_def)
  ultimately show ?thesis
    using assms try_map_certificates(2) [of "ob_epoch_certificates b"]
    by (simp add: bundle_decode_def bundle_ok_def MAX_KEYSET_CERTIFICATES_def)
      (simp add: read_defs get_canon_fields bundle_fields_def)
qed

interpretation bundle_wire: codec bundle_encode "\<lambda>bs. result_ok (bundle_decode bs)" bundle_ok
  by standard (simp add: bundle_roundtrip)

interpretation keyset_wire: codec keyset_encode "\<lambda>bs. result_ok (keyset_decode bs)"
  "\<lambda>k. ks_proto_ver k \<le> 255 \<and> ks_revocation_epoch k \<le> u64_max \<and>
     length (ks_epoch_certificates k) \<le> MAX_KEYSET_CERTIFICATES \<and>
     list_all (\<lambda>c. length c \<le> MAX_EPOCH_CERTIFICATE_BYTES) (ks_epoch_certificates k) \<and>
     length (keyset_encode k) \<le> MAX_KEYSET_BYTES"
proof
  fix k :: Keyset
  assume ok: "ks_proto_ver k \<le> 255 \<and> ks_revocation_epoch k \<le> u64_max \<and>
     length (ks_epoch_certificates k) \<le> MAX_KEYSET_CERTIFICATES \<and>
     list_all (\<lambda>c. length c \<le> MAX_EPOCH_CERTIFICATE_BYTES) (ks_epoch_certificates k) \<and>
     length (keyset_encode k) \<le> MAX_KEYSET_BYTES"
  let ?v = "canon (put_all (keyset_fields k))"
  have "nodup (put_all (keyset_fields k))" by (rule nodup_fields) (simp_all add: keyset_fields_def)
  moreover have "within BULK_LIMITS 0 (put_all (keyset_fields k))"
    using ok
    by (auto simp: put_all_entries entries_of_def keyset_fields_def BULK_LIMITS_def MAX_CBOR_DEPTH_def u64_max_def
        MAX_KEYSET_CERTIFICATES_def MAX_EPOCH_CERTIFICATE_BYTES_def list_all_iff)
  ultimately have "decode_bounded MAX_KEYSET_BYTES BULK_LIMITS (keyset_encode k) = Inr ?v"
    using ok unfolding keyset_encode_def by (intro decode_bounded_written) simp_all
  moreover have "field_with as_array ?v 1 = Inr (map Bytes (ks_epoch_certificates k))"
    by (simp add: field_with_def field_req_def get_canon_fields keyset_fields_def)
  ultimately show "result_ok (keyset_decode (keyset_encode k)) = Some k"
    using ok try_map_certificates(1) [of "ks_epoch_certificates k"]
    by (simp add: keyset_decode_def) (simp add: read_defs get_canon_fields keyset_fields_def)
qed

text \<open>The reader's limit of 32 items bounds the certificates of a bundle before the check against 1000 does.\<close>

lemma field_array_get:
  assumes "field_with as_array v k = Inr arr"
  shows "cbor_get v k = Some (Array arr)"
proof (cases "cbor_get v k")
  case None
  with assms show ?thesis by (simp add: field_with_def field_req_def)
next
  case (Some x)
  with assms show ?thesis by (cases x) (simp_all add: field_with_def field_req_def)
qed

lemma try_map_length: "try_map f xs = Inr ys \<Longrightarrow> length ys = length xs"
  by (induction xs arbitrary: ys) (auto split: sum.splits)

lemma bundle_decode_parts:
  assumes "bundle_decode bs = Inr b"
  obtains v m arr where "decode_canonical bs BUNDLE_LIMITS = Inr v" "as_map v = Some m"
    "field_with as_array v 2 = Inr arr" "try_map bundle_certificate arr = Inr (ob_epoch_certificates b)"
proof -
  from assms obtain v where v: "decode_bounded MAX_OLK_BUNDLE_BYTES BUNDLE_LIMITS bs = Inr v" and m: "as_map v \<noteq> None"
    by (auto simp: bundle_decode_def bind_ok_Inr_iff split: if_splits)
  with assms obtain arr where "field_with as_array v 2 = Inr arr" "try_map bundle_certificate arr = Inr (ob_epoch_certificates b)"
    by (auto simp: bundle_decode_def bind_ok_Inr_iff split: if_splits)
  with v m that show ?thesis by (auto simp: decode_bounded_def split: if_splits)
qed

lemma bundle_holds_32_certificates:
  assumes "bundle_decode bs = Inr b"
  shows "length (ob_epoch_certificates b) \<le> 32"
proof -
  from assms obtain v m arr where v: "decode_canonical bs BUNDLE_LIMITS = Inr v" and m: "as_map v = Some m"
    and arr: "field_with as_array v 2 = Inr arr" and certs: "try_map bundle_certificate arr = Inr (ob_epoch_certificates b)"
    by (rule bundle_decode_parts)
  from v have within: "within BUNDLE_LIMITS 0 v" by (simp only: decode_canonical_iff cbor_valid_def)
  from m have vm: "v = Map m" by (cases v) simp_all
  from field_array_get [OF arr] vm have "(Uint 2, Array arr) \<in> set m"
    by (simp add: cbor_get_map_of map_of_SomeD)
  with within vm have "length arr \<le> 32" by (auto simp: list_all_iff BUNDLE_LIMITS_def)
  with try_map_length [OF certs] show ?thesis by simp
qed

section \<open>Properties\<close>



end
