(* ===== verification/Spec2Isabelle.thy ===== *)
theory Spec2Isabelle
  imports Seats Billing License_Key Trust_Chain Ticket_Check Sealed_Assets Requests Carriers
begin

text \<open>
  A verification library for the licensing system in \<open>src/crates\<close>.
\<close>

section \<open>Properties across components\<close>



end
